(* ===== verification/Rtw_Prelude.thy ===== *)
theory Rtw_Prelude
  imports Main "HOL-Library.Word" "HOL-Library.Monad_Syntax"
begin

text \<open>
  The shared vocabulary of the development.
  \<^item> The machine integers of the C sources: \<open>uint8_t\<close>, \<open>int16_t\<close>, \<open>uint32_t\<close> and
    \<open>uint64_t\<close> are words of their width (an \<open>int16_t\<close> is read by \<^const>\<open>sint\<close>); an
    \<open>int\<close> of the sources is a HOL \<^typ>\<open>int\<close>, because every expression of that type in the
    sources stays far below 32 bits; a \<open>size_t\<close> is a \<^typ>\<open>nat\<close>, because it counts bytes of
    objects in memory, and the one expression in which it wraps around
    (\<open>rtw_base64_decode\<close>) writes the reduction out.
  \<^item> C strings: a \<^typ>\<open>string\<close> without the terminating NUL; \<open>c_str\<close> is what a C function
    sees of a byte buffer, \<open>snprintf_s\<close> the effect of \<open>snprintf(dst, cap, "%s", src)\<close>.
  \<^item> Outcomes: \<open>UB\<close> marks a run of the C code into undefined behaviour (a write out of
    bounds), so that a theorem can say that it does not happen.
  \<^item> Generic lemmas on ring indices, lists and words, and the collections of facts the
    component theories share.
\<close>

named_theorems inv_intros "operations that keep a component's invariant"

unbundle bit_operations_syntax

section \<open>Machine types\<close>

type_synonym uint8 = "8 word"
type_synonym int16 = "16 word"
type_synonym uint32 = "32 word"
type_synonym uint64 = "64 word"
type_synonym bytes = "uint8 list"

abbreviation size_max :: nat where
  "size_max \<equiv> 2 ^ 64"

datatype 'a c_exec = UB | Ret 'a

definition exec_bind :: "'a c_exec \<Rightarrow> ('a \<Rightarrow> 'b c_exec) \<Rightarrow> 'b c_exec" where
  "exec_bind m f = (case m of UB \<Rightarrow> UB | Ret x \<Rightarrow> f x)"

lemma exec_bind_simps [simp]:
  "exec_bind UB f = UB"
  "exec_bind (Ret x) f = f x"
  by (simp_all add: exec_bind_def)

lemma exec_bind_not_UB:
  "exec_bind m f \<noteq> UB \<longleftrightarrow> (\<exists>x. m = Ret x \<and> f x \<noteq> UB)"
  by (cases m) auto

section \<open>C strings\<close>

abbreviation NUL :: char where
  "NUL \<equiv> CHR 0x00"

definition c_str :: "string \<Rightarrow> string" where
  "c_str s = takeWhile (\<lambda>c. c \<noteq> NUL) s"

definition snprintf_s :: "nat \<Rightarrow> string \<Rightarrow> string" where
  "snprintf_s cap src = take (cap - 1) src"

lemma c_str_no_nul [simp]: "NUL \<notin> set s \<Longrightarrow> c_str s = s"
  by (auto simp: c_str_def takeWhile_eq_all_conv)

lemma nul_notin_c_str [simp]: "NUL \<notin> set (c_str s)"
  by (auto simp: c_str_def dest: set_takeWhileD)

lemma length_snprintf_s [simp]: "0 < cap \<Longrightarrow> length (snprintf_s cap s) < cap"
  by (auto simp: snprintf_s_def)

lemma snprintf_s_fits: "length s < cap \<Longrightarrow> snprintf_s cap s = s"
  by (simp add: snprintf_s_def)

lemma nul_notin_snprintf_s [simp]: "NUL \<notin> set s \<Longrightarrow> NUL \<notin> set (snprintf_s cap s)"
  by (auto simp: snprintf_s_def dest: in_set_takeD)

section \<open>Ring indices\<close>

text \<open>
  The window of \<open>n\<close> cells that starts at \<open>h\<close> in a circular array: both ring buffers of the
  sources (the outbound queue and the playout buffer) hold their contents in such a window.
\<close>

definition ring_window :: "'a list \<Rightarrow> nat \<Rightarrow> nat \<Rightarrow> 'a list" where
  "ring_window xs h n = map (\<lambda>i. xs ! ((h + i) mod length xs)) [0..<n]"

lemma length_ring_window [simp]: "length (ring_window xs h n) = n"
  by (simp add: ring_window_def)

lemma ring_window_0 [simp]: "ring_window xs h 0 = []"
  by (simp add: ring_window_def)

lemma nth_ring_window [simp]:
  "i < n \<Longrightarrow> ring_window xs h n ! i = xs ! ((h + i) mod length xs)"
  by (simp add: ring_window_def)

lemma ring_window_mod [simp]: "ring_window xs (h mod length xs) n = ring_window xs h n"
  by (simp add: ring_window_def mod_add_left_eq)

lemma ring_window_Suc:
  "ring_window xs h (Suc n) = xs ! (h mod length xs) # ring_window xs (Suc h) n"
  by (rule nth_equalityI) (auto simp: nth_Cons' less_Suc_eq_0_disj)

lemma ring_window_snoc:
  "ring_window xs h (Suc n) = ring_window xs h n @ [xs ! ((h + n) mod length xs)]"
  by (simp add: ring_window_def)

lemma ring_window_add:
  "ring_window xs h (m + n) = ring_window xs h m @ ring_window xs (h + m) n"
  by (induction n) (simp_all add: ring_window_snoc add.assoc)

lemma ring_index_inj:
  fixes i j L :: nat
  assumes "i < L" "j < L" "(h + i) mod L = (h + j) mod L"
  shows "i = j"
proof -
  have "i mod L = j mod L"
    using assms(3) by (simp add: nat_mod_eq_iff)
  then show ?thesis using assms by simp
qed

text \<open>Writing just behind the window leaves the window alone and extends it.\<close>

lemma ring_window_update:
  assumes "n \<le> k" "k < length xs"
  shows "ring_window (xs[(h + k) mod length xs := v]) h n = ring_window xs h n"
proof (rule nth_equalityI)
  fix i assume "i < length (ring_window (xs[(h + k) mod length xs := v]) h n)"
  then have i: "i < n" by simp
  then have "(h + k) mod length xs \<noteq> (h + i) mod length xs"
    using assms ring_index_inj [of k "length xs" i h] by auto
  then show "ring_window (xs[(h + k) mod length xs := v]) h n ! i = ring_window xs h n ! i"
    using i by simp
qed simp

lemma ring_window_push:
  assumes "n < length xs"
  shows "ring_window (xs[(h + n) mod length xs := v]) h (Suc n) = ring_window xs h n @ [v]"
proof -
  have "(h + n) mod length xs < length xs"
    using assms by (intro mod_less_divisor) auto
  then show ?thesis
    using assms by (simp add: ring_window_snoc ring_window_update)
qed

lemma ring_window_drop: "m \<le> n \<Longrightarrow> ring_window xs (h + m) (n - m) = drop m (ring_window xs h n)"
  by (rule nth_equalityI) (auto simp: add.assoc)

lemma ring_window_take: "m \<le> n \<Longrightarrow> ring_window xs h m = take m (ring_window xs h n)"
  by (rule nth_equalityI) auto

text \<open>
  The whole ring read from \<open>h\<close> on: overwriting the cell at distance \<open>k\<close> updates position \<open>k\<close>;
  overwriting the head and advancing it moves the first cell to the end.
\<close>

lemma ring_window_set:
  assumes "k < length xs"
  shows "ring_window (xs[(h + k) mod length xs := v]) h (length xs) = (ring_window xs h (length xs))[k := v]"
proof (rule nth_equalityI)
  fix i assume "i < length (ring_window (xs[(h + k) mod length xs := v]) h (length xs))"
  then have i: "i < length xs" by simp
  have "(h + k) mod length xs < length xs" using assms by (intro mod_less_divisor) auto
  moreover have "(h + k) mod length xs \<noteq> (h + i) mod length xs" if "i \<noteq> k"
    using that ring_index_inj [of k "length xs" i h] assms i by auto
  ultimately show "ring_window (xs[(h + k) mod length xs := v]) h (length xs) ! i =
      (ring_window xs h (length xs))[k := v] ! i"
    using i by (cases "i = k") simp_all
qed simp

lemma ring_window_rotate:
  assumes "h < length xs"
  shows "ring_window (xs[h := v]) (Suc h) (length xs) = tl (ring_window xs h (length xs)) @ [v]"
proof -
  obtain n where n: "length xs = Suc n" using assms by (cases "length xs") auto
  have len: "length (xs[h := v]) = Suc n" using n by simp
  have "ring_window (xs[h := v]) (Suc h) (Suc n) =
      ring_window (xs[h := v]) (Suc h) n @ [xs[h := v] ! ((h + Suc n) mod Suc n)]"
    by (simp add: ring_window_snoc n)
  also have "(h + Suc n) mod Suc n = h" using assms n by (simp only: mod_add_self2 mod_less)
  also have "ring_window (xs[h := v]) (Suc h) n = tl (ring_window (xs[h := v]) h (Suc n))"
    by (simp add: ring_window_Suc)
  also have "ring_window (xs[h := v]) h (Suc n) = (ring_window xs h (Suc n))[0 := v]"
    using ring_window_set [of 0 xs h v] assms n by simp
  finally show ?thesis using assms n by (simp add: ring_window_Suc)
qed

section \<open>Lists\<close>

lemma take_drop_update_swap:
  "i < length xs \<Longrightarrow> take i xs @ v # drop (Suc i) xs = xs[i := v]"
  by (simp add: upd_conv_take_nth_drop)

lemma replicate_numeral_rec: "replicate (numeral n) x = x # replicate (pred_numeral n) x"
  by (simp add: numeral_eq_Suc)

text \<open>\<open>last_n k xs\<close> is what a drop-oldest buffer of \<open>k\<close> cells keeps of a sequence of writes.\<close>

definition last_n :: "nat \<Rightarrow> 'a list \<Rightarrow> 'a list" where
  "last_n k xs = drop (length xs - k) xs"

lemma length_last_n [simp]: "length (last_n k xs) = min k (length xs)"
  by (simp add: last_n_def min_def)

lemma last_n_all [simp]: "length xs \<le> k \<Longrightarrow> last_n k xs = xs"
  by (simp add: last_n_def)

lemma last_n_last_n_append: "last_n k (last_n k xs @ ys) = last_n k (xs @ ys)"
proof (cases "length xs \<le> k")
  case False
  then show ?thesis by (simp add: last_n_def add.commute)
qed simp

lemma last_n_snoc_full:
  assumes "0 < k" "length xs = k"
  shows "last_n k (xs @ [y]) = tl xs @ [y]"
  using assms by (cases xs) (auto simp: last_n_def)

section \<open>Integers and words\<close>

lemma and_mask_int:
  fixes x :: int
  shows "x AND 7 = x mod 8" "x AND 15 = x mod 16" "x AND 63 = x mod 64" "x AND 255 = x mod 256"
  using take_bit_eq_mask [of 3 x] take_bit_eq_mask [of 4 x]
    take_bit_eq_mask [of 6 x] take_bit_eq_mask [of 8 x]
  by (simp_all add: take_bit_eq_mod mask_numeral)

lemma and_128_int: "(x::int) AND 128 = (if bit x 7 then 128 else 0)"
proof -
  have "x AND 2 ^ 7 = (if bit x 7 then 2 ^ 7 else 0)"
    by (rule bit_eqI) (auto simp: bit_and_iff bit_exp_iff simp del: power_numeral power_Suc)
  then show ?thesis by simp
qed

lemma or_disjoint_int: "(a::int) AND b = 0 \<Longrightarrow> a OR b = a + b"
  using plus_and_or [of a b] by simp

lemma or_low_bits: "0 \<le> b \<Longrightarrow> b < 2 ^ n \<Longrightarrow> (push_bit n a :: int) OR b = a * 2 ^ n + b"
proof -
  assume "0 \<le> b" "b < 2 ^ n"
  then have "take_bit n b = b" by (simp add: take_bit_int_eq_self)
  then have "\<not> bit b k" if "n \<le> k" for k
    using that by (metis bit_take_bit_iff not_le)
  then have "push_bit n a AND b = 0"
    by (intro bit_eqI) (auto simp: bit_and_iff bit_push_bit_iff)
  then show ?thesis by (simp add: or_disjoint_int push_bit_eq_mult)
qed

lemma not_word_of_int_not: "NOT (word_of_int (NOT x) :: 'a::len word) = word_of_int x"
  by (rule bit_word_eqI) (simp add: bit_simps)

lemma uint_word_of_int8: "0 \<le> x \<Longrightarrow> x < 256 \<Longrightarrow> uint (word_of_int x :: uint8) = x"
  by (simp add: uint_word_of_int)

lemma int_div_bounds:
  assumes "(0::int) < S" "k * S \<le> b" "b < l * S"
  shows "k \<le> b div S" "b div S < l"
proof -
  show "k \<le> b div S"
    using zdiv_mono1 [OF assms(2,1)] assms(1) by simp
  have "b div S * S \<le> b" using assms(1) by (simp add: minus_mod_eq_div_mult [symmetric])
  then have "b div S * S < l * S" using assms(3) by simp
  then show "b div S < l" using assms(1) by (simp add: mult_less_cancel_right)
qed

lemma sint_range16: "- 32768 \<le> sint (s::int16)" "sint (s::int16) \<le> 32767"
  using sint_greater_eq [of s] sint_lt [of s] by simp_all

lemma sint_word_of_int16:
  "- 32768 \<le> x \<Longrightarrow> x \<le> 32767 \<Longrightarrow> sint (word_of_int x :: int16) = x"
  by (simp add: sint_sbintrunc' signed_take_bit_int_eq_self)

lemma and_take_bit_word:
  fixes n :: "'a::len word"
  shows "n AND 63 = take_bit 6 n" "n AND 255 = take_bit 8 n"
  using take_bit_eq_mask [of 6 n] take_bit_eq_mask [of 8 n] by (simp_all add: mask_numeral)

text \<open>A character that cJSON copies into a string literal as it is.\<close>

definition plain_char :: "char \<Rightarrow> bool" where
  "plain_char c \<longleftrightarrow> 32 \<le> (of_char c :: nat) \<and> c \<noteq> CHR 0x22 \<and> c \<noteq> CHR 0x5C"

lemma plain_char_not_nul: "plain_char c \<Longrightarrow> c \<noteq> NUL"
  by (auto simp: plain_char_def)

end
