(* ===== verification/Fs_Stub.thy ===== *)
theory Fs_Stub
  imports Rtw_Prelude
begin

text \<open>
  The stand-in for FreeSWITCH, \<open>src/mod/fs_stub/switch.h\<close>, against which the module and its harness are
  built when FreeSWITCH is not there: sessions with one channel, eight named private values per
  channel, media bugs with their frames, and the splitting of a command.
  \<^item> A private value is a pointer; its type is the parameter \<open>'p\<close>, and NULL is \<open>None\<close>.
  \<^item> The locale \<open>private_values\<close> is what the module relies on of the private values of a channel,
    interpreted as \<open>stub_channel\<close>.
  \<^item> The functions that ignore their arguments (logging, the event subclasses, the completions of the
    console) have no counterpart.
\<close>

section \<open>Definitions\<close>

datatype switch_status_t = SWITCH_STATUS_SUCCESS | SWITCH_STATUS_FALSE | SWITCH_STATUS_TERM

datatype switch_abc_type_t =
    SWITCH_ABC_TYPE_INIT
  | SWITCH_ABC_TYPE_CLOSE
  | SWITCH_ABC_TYPE_READ
  | SWITCH_ABC_TYPE_WRITE
  | SWITCH_ABC_TYPE_WRITE_REPLACE
  | SWITCH_ABC_TYPE_READ_REPLACE

type_synonym switch_media_bug_flag_t = uint32

definition SMBF_READ_STREAM :: switch_media_bug_flag_t where "SMBF_READ_STREAM = push_bit 0 1"
definition SMBF_WRITE_STREAM :: switch_media_bug_flag_t where "SMBF_WRITE_STREAM = push_bit 1 1"
definition SMBF_WRITE_REPLACE :: switch_media_bug_flag_t where "SMBF_WRITE_REPLACE = push_bit 2 1"
definition SMBF_STEREO :: switch_media_bug_flag_t where "SMBF_STEREO = push_bit 4 1"

record 'p switch_channel =
  ch_name :: string
  ch_privates :: "'p option list"
  ch_private_keys :: "string option list"
  ch_pre_answered :: bool

record 'p switch_core_session =
  ses_uuid :: string
  ses_channel :: "'p switch_channel option"

text \<open>A media bug without the pointer back to its session, which nothing follows. The data of a frame is a
  list, whose length is the frame's \<open>datalen\<close>.\<close>

record switch_frame_t =
  fr_data :: bytes
  fr_buflen :: uint32
  fr_samples :: uint32
  fr_rate :: uint32
  fr_channels :: uint32

record 'p switch_media_bug =
  bug_user_data :: "'p option"
  bug_write_replace_frame_in :: "switch_frame_t option"
  bug_write_replace_frame_out :: "switch_frame_t option"

definition switch_core_session_get_channel :: "'p switch_core_session option \<Rightarrow> 'p switch_channel option" where
  "switch_core_session_get_channel ses = (case ses of Some s \<Rightarrow> ses_channel s | None \<Rightarrow> None)"

definition switch_core_session_get_uuid :: "'p switch_core_session option \<Rightarrow> string" where
  "switch_core_session_get_uuid ses = (case ses of Some s \<Rightarrow> ses_uuid s | None \<Rightarrow> [])"

subsection \<open>Private values\<close>

fun get_private :: "string option list \<Rightarrow> 'p option list \<Rightarrow> string \<Rightarrow> 'p option" where
  "get_private (k # ks) (v # vs) key = (if k = Some key then v else get_private ks vs key)"
| "get_private ks vs key = None"

definition switch_channel_get_private :: "'p switch_channel option \<Rightarrow> string option \<Rightarrow> 'p option" where
  "switch_channel_get_private channel key =
     (case (channel, key) of
        (Some ch, Some k) \<Rightarrow> get_private (ch_private_keys ch) (ch_privates ch) k
      | _ \<Rightarrow> None)"

text \<open>The first slot that is free or has the key is overwritten; without one the value is not stored.\<close>

fun set_private ::
  "string option list \<Rightarrow> 'p option list \<Rightarrow> string \<Rightarrow> 'p option \<Rightarrow> string option list \<times> 'p option list" where
  "set_private (k # ks) (v # vs) key val =
     (if k = None \<or> k = Some key then (Some key # ks, val # vs)
      else case set_private ks vs key val of (ks', vs') \<Rightarrow> (k # ks', v # vs'))"
| "set_private ks vs key val = (ks, vs)"

definition switch_channel_set_private :: "'p switch_channel \<Rightarrow> string \<Rightarrow> 'p option \<Rightarrow> 'p switch_channel" where
  "switch_channel_set_private channel key val =
     (case set_private (ch_private_keys channel) (ch_privates channel) key val of
        (ks, vs) \<Rightarrow> channel\<lparr>ch_private_keys := ks, ch_privates := vs\<rparr>)"

definition switch_channel_pre_answer ::
  "'p switch_channel option \<Rightarrow> switch_status_t \<times> 'p switch_channel option" where
  "switch_channel_pre_answer channel =
     (case channel of
        None \<Rightarrow> (SWITCH_STATUS_FALSE, None)
      | Some ch \<Rightarrow> (SWITCH_STATUS_SUCCESS, Some (ch\<lparr>ch_pre_answered := True\<rparr>)))"

subsection \<open>Sessions and bugs\<close>

text \<open>The two arguments at the end are the outcomes of the allocations.\<close>

definition rtw_stub_session_create :: "string option \<Rightarrow> bool \<Rightarrow> bool \<Rightarrow> 'p switch_core_session option" where
  "rtw_stub_session_create uuid calloc_session calloc_channel =
     (if \<not> calloc_session \<or> \<not> calloc_channel then None
      else let id = snprintf_s 64 (case uuid of Some u \<Rightarrow> u | None \<Rightarrow> ''stub-uuid'')
        in Some \<lparr>ses_uuid = id,
             ses_channel = Some \<lparr>ch_name = snprintf_s 128 (''stub/'' @ id), ch_privates = replicate 8 None,
                             ch_private_keys = replicate 8 None, ch_pre_answered = False\<rparr>\<rparr>)"

definition switch_core_media_bug_get_write_replace_frame :: "'p switch_media_bug option \<Rightarrow> switch_frame_t option" where
  "switch_core_media_bug_get_write_replace_frame bug =
     (case bug of Some b \<Rightarrow> bug_write_replace_frame_in b | None \<Rightarrow> None)"

definition switch_core_media_bug_set_write_replace_frame ::
  "'p switch_media_bug option \<Rightarrow> switch_frame_t option \<Rightarrow> 'p switch_media_bug option" where
  "switch_core_media_bug_set_write_replace_frame bug frame =
     map_option (\<lambda>b. b\<lparr>bug_write_replace_frame_out := frame\<rparr>) bug"

subsection \<open>Splitting a command\<close>

text \<open>
  The tokens of a buffer, at most \<open>arraylen\<close>, and the buffer as it is left: each delimiter it cut at is
  a NUL. The callers pass a buffer, never NULL.
\<close>

fun switch_separate_string :: "string \<Rightarrow> char \<Rightarrow> nat \<Rightarrow> string list \<times> string" where
  "switch_separate_string buf delim 0 = ([], buf)"
| "switch_separate_string buf delim (Suc n) =
     (if delim \<in> set buf
      then let tok = takeWhile (\<lambda>c. c \<noteq> delim) buf; rest = tl (dropWhile (\<lambda>c. c \<noteq> delim) buf)
        in case switch_separate_string rest delim n of (toks, buf') \<Rightarrow> (tok # toks, tok @ NUL # buf')
      else ([buf], buf))"

section \<open>Private values of a channel\<close>

text \<open>
  What the module relies on: a value stored under a key for which there is room is what the key
  gives, and no other key is touched.
\<close>

locale private_values =
  fixes get :: "'c \<Rightarrow> 'k \<Rightarrow> 'v option"
    and put :: "'c \<Rightarrow> 'k \<Rightarrow> 'v option \<Rightarrow> 'c"
    and room :: "'c \<Rightarrow> 'k \<Rightarrow> bool"
  assumes get_put: "room c k \<Longrightarrow> get (put c k v) k = v"
    and get_put_other: "k' \<noteq> k \<Longrightarrow> get (put c k v) k' = get c k'"
    and room_put: "room c k \<Longrightarrow> room (put c k v) k"
begin

lemma room_puts: "room c k \<Longrightarrow> room (fold (\<lambda>v c. put c k v) vs c) k"
  by (induction vs arbitrary: c) (auto simp: room_put)

text \<open>Under one key only the last value counts.\<close>

lemma get_puts:
  assumes "room c k" "vs \<noteq> []"
  shows "get (fold (\<lambda>v c. put c k v) vs c) k = last vs"
  using assms(2)
proof (cases vs rule: rev_cases)
  case (snoc us v)
  then show ?thesis using get_put [OF room_puts [OF assms(1)]] by simp
qed simp

lemma get_puts_other: "k' \<noteq> k \<Longrightarrow> get (fold (\<lambda>v c. put c k v) vs c) k' = get c k'"
  by (induction vs arbitrary: c) (auto simp: get_put_other)

end

text \<open>There is room for a key that has a slot already, and for any key while a slot is free.\<close>

definition private_room :: "'p switch_channel \<Rightarrow> string \<Rightarrow> bool" where
  "private_room ch key \<longleftrightarrow> length (ch_privates ch) = length (ch_private_keys ch) \<and>
     (Some key \<in> set (ch_private_keys ch) \<or> None \<in> set (ch_private_keys ch))"

lemma set_private_length [simp]:
  "length (fst (set_private ks vs key val)) = length ks"
  "length (snd (set_private ks vs key val)) = length vs"
  by (induction ks vs key val rule: set_private.induct) (auto simp: case_prod_beta)

lemma set_private_key:
  "length vs = length ks \<Longrightarrow> Some key \<in> set ks \<or> None \<in> set ks \<Longrightarrow>
     Some key \<in> set (fst (set_private ks vs key val)) \<and>
     get_private (fst (set_private ks vs key val)) (snd (set_private ks vs key val)) key = val"
  by (induction ks vs key val rule: set_private.induct) (auto simp: case_prod_beta)

lemma set_private_other:
  "key' \<noteq> key \<Longrightarrow>
     get_private (fst (set_private ks vs key val)) (snd (set_private ks vs key val)) key' = get_private ks vs key'"
  by (induction ks vs key val rule: set_private.induct) (auto simp: case_prod_beta)

interpretation stub_channel: private_values
  "\<lambda>ch k. switch_channel_get_private (Some ch) (Some k)" switch_channel_set_private private_room
proof unfold_locales
  fix c :: "'p switch_channel" and k k' v
  show "private_room c k \<Longrightarrow> switch_channel_get_private (Some (switch_channel_set_private c k v)) (Some k) = v"
    and "private_room c k \<Longrightarrow> private_room (switch_channel_set_private c k v) k"
    using set_private_key [of "ch_privates c" "ch_private_keys c" k v]
    by (auto simp: private_room_def switch_channel_get_private_def switch_channel_set_private_def case_prod_beta)
  show "k' \<noteq> k \<Longrightarrow> switch_channel_get_private (Some (switch_channel_set_private c k v)) (Some k') =
      switch_channel_get_private (Some c) (Some k')"
    using set_private_other [of k' k "ch_private_keys c" "ch_privates c" v]
    by (simp add: switch_channel_get_private_def switch_channel_set_private_def case_prod_beta)
qed

lemma set_private_fields [simp]:
  "ch_name (switch_channel_set_private ch key val) = ch_name ch"
  "ch_pre_answered (switch_channel_set_private ch key val) = ch_pre_answered ch"
  by (simp_all add: switch_channel_set_private_def case_prod_beta)

lemma session_create_room:
  assumes "rtw_stub_session_create uuid a b = Some ses" "ses_channel ses = Some ch"
  shows "private_room ch key" "switch_channel_get_private (Some ch) (Some key) = None"
  using assms
  by (auto simp: rtw_stub_session_create_def private_room_def switch_channel_get_private_def Let_def numeral_eq_Suc
      split: if_splits)

section \<open>Splitting what was joined\<close>

text \<open>Words joined by a delimiter that none of them contains are the tokens again.\<close>

fun join_with :: "char \<Rightarrow> string list \<Rightarrow> string" where
  "join_with d [] = []"
| "join_with d [w] = w"
| "join_with d (w # v # ws) = w @ d # join_with d (v # ws)"

lemma separate_join:
  assumes "ws \<noteq> []" "length ws \<le> n" "\<forall>w \<in> set ws. d \<notin> set w"
  shows "fst (switch_separate_string (join_with d ws) d n) = ws"
  using assms
proof (induction d ws arbitrary: n rule: join_with.induct)
  case (2 d w)
  then show ?case by (cases n) auto
next
  case (3 d w v ws)
  then obtain m where n: "n = Suc m" by (cases n) auto
  have "takeWhile (\<lambda>c. c \<noteq> d) (w @ d # join_with d (v # ws)) = w"
    "dropWhile (\<lambda>c. c \<noteq> d) (w @ d # join_with d (v # ws)) = d # join_with d (v # ws)"
    using 3(4) by (auto simp: takeWhile_append dropWhile_append)
  then show ?case using 3 by (simp add: n case_prod_beta)
qed simp

lemma cut_at_char:
  "c \<notin> set xs \<Longrightarrow> takeWhile (\<lambda>x. x \<noteq> c) (xs @ c # ys) = xs"
  "c \<notin> set xs \<Longrightarrow> dropWhile (\<lambda>x. x \<noteq> c) (xs @ c # ys) = c # ys"
  by (induction xs) auto

lemma last_join: "ws \<noteq> [] \<Longrightarrow> last ws \<noteq> [] \<Longrightarrow> join_with d ws \<noteq> [] \<and> last (join_with d ws) = last (last ws)"
  by (induction d ws rule: join_with.induct) auto

lemma set_join: "set (join_with d ws) \<subseteq> insert d (\<Union> (set ` set ws))"
  by (induction d ws rule: join_with.induct) auto

lemma separate_buffer:
  assumes "ws \<noteq> []" "length ws \<le> n" "\<forall>w \<in> set ws. d \<notin> set w"
  shows "snd (switch_separate_string (join_with d ws @ d # rest) d n) =
    join_with NUL ws @ NUL # snd (switch_separate_string rest d (n - length ws))"
  using assms
proof (induction d ws arbitrary: n rule: join_with.induct)
  case (2 d w)
  then obtain m where n: "n = Suc m" by (cases n) auto
  have "d \<notin> set w" using 2 by simp
  from cut_at_char [OF this, of rest] show ?case by (simp add: n case_prod_beta)
next
  case (3 d w v ws)
  then obtain m where n: "n = Suc m" by (cases n) auto
  have "d \<notin> set w" using 3 by simp
  from cut_at_char [OF this, of "join_with d (v # ws) @ d # rest"] 3 show ?case by (simp add: n case_prod_beta)
qed simp

lemma separate_length: "fst (switch_separate_string buf d n) = toks \<Longrightarrow> length toks \<le> n"
  by (induction buf d n arbitrary: toks rule: switch_separate_string.induct) (auto simp: case_prod_beta Let_def)

end
