(* ===== verification/C_Number.thy ===== *)
theory C_Number
  imports Complex_Main Rtw_Prelude
begin

text \<open>
  What the sources use of the numeric part of the C library: decimal output of integers
  (\<open>%u\<close>, \<open>%d\<close>), \<open>strtoul\<close> in base 10, IEEE double precision with \<open>strtod\<close> (round to nearest,
  ties to even, gradual underflow, overflow to infinity) and the output format \<open>%1.<p>g\<close>. A finite
  double is represented by its value; the sign of zero and NaN are never observable in the
  sources. \<open>unsigned long\<close> has 64 bits.
\<close>

section \<open>Decimal digits\<close>

definition digit_char :: "nat \<Rightarrow> char" where
  "digit_char d = char_of (48 + d)"

definition is_digit :: "char \<Rightarrow> bool" where
  "is_digit c \<longleftrightarrow> 48 \<le> (of_char c :: nat) \<and> (of_char c :: nat) \<le> 57"

definition digit_val :: "char \<Rightarrow> nat" where
  "digit_val c = of_char c - 48"

fun show_nat :: "nat \<Rightarrow> string" where
  "show_nat n = (if n < 10 then [digit_char n] else show_nat (n div 10) @ [digit_char (n mod 10)])"

declare show_nat.simps [simp del]

definition show_int :: "int \<Rightarrow> string" where
  "show_int i = (if i < 0 then CHR ''-'' # show_nat (nat (- i)) else show_nat (nat i))"

definition nat_of_digits :: "string \<Rightarrow> nat" where
  "nat_of_digits ds = foldl (\<lambda>n c. 10 * n + digit_val c) 0 ds"

lemma is_digit_digit_char [simp]: "d < 10 \<Longrightarrow> is_digit (digit_char d)"
  by (simp add: is_digit_def digit_char_def)

lemma digit_val_digit_char [simp]: "d < 10 \<Longrightarrow> digit_val (digit_char d) = d"
  by (simp add: digit_val_def digit_char_def)

lemma nat_of_digits_show_nat [simp]: "nat_of_digits (show_nat n) = n"
  by (induction n rule: show_nat.induct)
    (subst show_nat.simps, auto simp: nat_of_digits_def)

lemma show_nat_digits: "c \<in> set (show_nat n) \<Longrightarrow> is_digit c"
  by (induction n rule: show_nat.induct) (subst (asm) show_nat.simps, auto split: if_splits)

lemma show_nat_not_Nil [simp]: "show_nat n \<noteq> []"
  by (subst show_nat.simps) simp

lemma length_show_nat: "n < 10 ^ Suc k \<Longrightarrow> length (show_nat n) \<le> Suc k"
proof (induction k arbitrary: n)
  case 0
  then show ?case by (subst show_nat.simps) simp
next
  case (Suc k)
  have "n div 10 < 10 ^ Suc k" using Suc.prems by (simp add: less_mult_imp_div_less)
  from Suc.IH [OF this] show ?case by (subst show_nat.simps) simp
qed

lemma plain_digit: "is_digit c \<Longrightarrow> plain_char c"
  by (auto simp: is_digit_def plain_char_def)

text \<open>\<open>strtoul(s, NULL, 10)\<close>: white space, an optional sign, the longest run of digits; a value out
  of range saturates and a minus sign negates modulo the width.\<close>

definition is_space :: "char \<Rightarrow> bool" where
  "is_space c \<longleftrightarrow> (of_char c :: nat) = 32 \<or> (9 \<le> (of_char c :: nat) \<and> (of_char c :: nat) \<le> 13)"

definition strtoul10 :: "string \<Rightarrow> uint64" where
  "strtoul10 s =
     (let s1 = dropWhile is_space s;
          (neg, s2) = (case s1 of
             c # r \<Rightarrow> if c = CHR ''-'' then (True, r) else if c = CHR ''+'' then (False, r) else (False, s1)
           | [] \<Rightarrow> (False, []));
          n = nat_of_digits (takeWhile is_digit s2)
      in if 2 ^ 64 \<le> n then - 1 else if neg then - of_nat n else of_nat n)"

lemma strtoul10_show_nat:
  assumes "n < 2 ^ 64" shows "strtoul10 (show_nat n) = of_nat n"
proof -
  obtain c r where s: "show_nat n = c # r" by (cases "show_nat n") simp_all
  have dig: "\<forall>x \<in> set (show_nat n). is_digit x" by (simp add: show_nat_digits)
  then have "is_digit c" by (simp add: s)
  then have "\<not> is_space c" "c \<noteq> CHR ''-''" "c \<noteq> CHR ''+''"
    by (auto simp: is_digit_def is_space_def)
  moreover have "takeWhile is_digit (show_nat n) = show_nat n" using dig by (simp add: takeWhile_eq_all_conv)
  ultimately show ?thesis
    using assms nat_of_digits_show_nat [of n] by (simp add: strtoul10_def s Let_def)
qed

section \<open>Double precision\<close>

datatype double = Finite rat | Infinite bool

definition pow_int :: "rat \<Rightarrow> int \<Rightarrow> rat" where
  "pow_int b k = (if 0 \<le> k then b ^ nat k else 1 / b ^ nat (- k))"

definition round_even :: "rat \<Rightarrow> int" where
  "round_even x =
     (let f = \<lfloor>x\<rfloor>; r = x - of_int f
      in if r < 1 / 2 then f else if 1 / 2 < r then f + 1 else if even f then f else f + 1)"

fun num_digits :: "nat \<Rightarrow> nat \<Rightarrow> nat" where
  "num_digits b n = (if n = 0 \<or> b < 2 then 0 else Suc (num_digits b (n div b)))"

declare num_digits.simps [simp del]

text \<open>The exponent of the leading digit of a positive number.\<close>

definition lead_exp :: "nat \<Rightarrow> rat \<Rightarrow> int" where
  "lead_exp b x =
     (case quotient_of x of (n, d) \<Rightarrow>
        let k = int (num_digits b (nat n)) - int (num_digits b (nat d))
        in if pow_int (of_nat b) k \<le> x then k else k - 1)"

definition round_double :: "rat \<Rightarrow> double" where
  "round_double x =
     (if x = 0 then Finite 0
      else let e = max (lead_exp 2 \<bar>x\<bar> - 52) (- 1074);
               v = of_int (round_even (\<bar>x\<bar> / pow_int 2 e)) * pow_int 2 e
           in if 2 ^ 1024 \<le> v then Infinite (x < 0)
              else Finite (if x < 0 then - v else v))"

text \<open>
  \<open>strtod\<close> on a string of digits, signs, points and exponent letters: the value of the longest
  prefix that is a number, with its length; \<open>None\<close> when there is none.
\<close>

definition scan_sign :: "string \<Rightarrow> string" where
  "scan_sign s = (case s of [] \<Rightarrow> [] | c # _ \<Rightarrow> (if c = CHR ''+'' \<or> c = CHR ''-'' then [c] else []))"

definition scan_fraction :: "string \<Rightarrow> string \<times> nat" where
  "scan_fraction s = (case s of
     [] \<Rightarrow> ([], 0)
   | c # r \<Rightarrow> (if c = CHR ''.'' then (takeWhile is_digit r, 1 + length (takeWhile is_digit r)) else ([], 0)))"

definition scan_exponent :: "string \<Rightarrow> int \<times> nat" where
  "scan_exponent s = (case s of
     [] \<Rightarrow> (0, 0)
   | c # r \<Rightarrow>
       (if c \<noteq> CHR ''e'' \<and> c \<noteq> CHR ''E'' then (0, 0)
        else let sg = scan_sign r; ds = takeWhile is_digit (drop (length sg) r)
             in if ds = [] then (0, 0)
                else ((if sg = ''-'' then - int (nat_of_digits ds) else int (nat_of_digits ds)),
                      1 + length sg + length ds)))"

definition strtod :: "string \<Rightarrow> (double \<times> nat) option" where
  "strtod s =
     (let sg = scan_sign s;
          s1 = drop (length sg) s;
          ints = takeWhile is_digit s1;
          s2 = drop (length ints) s1;
          (fr, flen) = scan_fraction s2;
          (x10, elen) = scan_exponent (drop flen s2);
          v = of_nat (nat_of_digits (ints @ fr)) * pow_int 10 (x10 - int (length fr))
      in if ints = [] \<and> fr = [] then None
         else Some (round_double (if sg = ''-'' then - v else v), length sg + length ints + flen + elen))"

text \<open>\<open>sprintf\<close> with \<open>%1.<p>g\<close>.\<close>

definition strip_zeros :: "string \<Rightarrow> string" where
  "strip_zeros s = rev (dropWhile (\<lambda>c. c = CHR ''0'') (rev s))"

definition fmt_g :: "nat \<Rightarrow> rat \<Rightarrow> string" where
  "fmt_g p x =
     (if x = 0 then ''0''
      else let e0 = lead_exp 10 \<bar>x\<bar>;
               m0 = nat (round_even (\<bar>x\<bar> / pow_int 10 (e0 - int p + 1)));
               (m, e) = (if m0 = 10 ^ p then (10 ^ (p - 1), e0 + 1) else (m0, e0));
               ds = show_nat m;
               body = (if - 4 \<le> e \<and> e < int p then
                         (if 0 \<le> e then
                            (let fr = strip_zeros (drop (nat e + 1) ds)
                             in take (nat e + 1) ds @ (if fr = [] then [] else CHR ''.'' # fr))
                          else ''0.'' @ replicate (nat (- e) - 1) (CHR ''0'') @ strip_zeros ds)
                       else
                         (let fr = strip_zeros (drop 1 ds)
                          in take 1 ds @ (if fr = [] then [] else CHR ''.'' # fr) @
                             (if e < 0 then ''e-'' else ''e+'') @
                             (if \<bar>e\<bar> < 10 then ''0'' else []) @ show_nat (nat \<bar>e\<bar>)))
           in (if x < 0 then CHR ''-'' # body else body))"

section \<open>Integers are exact\<close>

lemma num_digits_le: "n < b ^ k \<Longrightarrow> num_digits b n \<le> k"
proof (induction k arbitrary: n)
  case 0
  then show ?case by (simp add: num_digits.simps)
next
  case (Suc k)
  then have "n div b < b ^ k" by (metis less_mult_imp_div_less mult.commute power_Suc)
  then show ?case using Suc.IH [of "n div b"] by (subst num_digits.simps) simp
qed

lemma round_even_of_int [simp]: "round_even (of_int k) = k"
  by (simp add: round_even_def)

lemma pow_int_pos: "0 < b \<Longrightarrow> 0 < pow_int b k"
  by (simp add: pow_int_def)

lemma lead_exp_le:
  assumes "n < 2 ^ k" shows "lead_exp 2 (of_nat n) < int k"
proof -
  have q: "quotient_of (of_nat n) = (int n, 1)" using quotient_of_int [of "int n"] by (simp del: quotient_of_int)
  have "num_digits 2 1 = 1" by (subst num_digits.simps, subst num_digits.simps) simp
  moreover have "num_digits 2 n \<le> k" using num_digits_le [OF assms] .
  ultimately show ?thesis by (simp add: lead_exp_def q Let_def)
qed

lemma round_double_int:
  assumes "\<bar>i\<bar> < 2 ^ 53" shows "round_double (of_int i) = Finite (of_int i)"
proof (cases "i = 0")
  case False
  define e where "e = max (lead_exp 2 (of_int \<bar>i\<bar>) - 52) (- 1074)"
  have "lead_exp 2 (of_nat (nat \<bar>i\<bar>)) < 53" using assms by (intro order_less_le_trans [OF lead_exp_le [of _ 53]]) auto
  then have e: "e \<le> 0" by (simp add: e_def)
  have p: "pow_int 2 e = 1 / 2 ^ nat (- e)" using e by (cases "e = 0") (simp_all add: pow_int_def)
  have "round_even (of_int \<bar>i\<bar> / pow_int 2 e) = \<bar>i\<bar> * 2 ^ nat (- e)"
    using round_even_of_int [of "\<bar>i\<bar> * 2 ^ nat (- e)"] unfolding p by simp
  then have v: "of_int (round_even (of_int \<bar>i\<bar> / pow_int 2 e)) * pow_int 2 e = (of_int \<bar>i\<bar> :: rat)"
    unfolding p by simp
  have "(of_int \<bar>i\<bar> :: rat) < of_int (2 ^ 53)" using assms by (simp only: of_int_less_iff)
  then have "\<not> 2 ^ 1024 \<le> (of_int \<bar>i\<bar> :: rat)" by simp
  then have "round_double (of_int i) = Finite (if i < 0 then - of_int \<bar>i\<bar> else of_int \<bar>i\<bar>)"
    using False unfolding round_double_def Let_def of_int_abs [symmetric] e_def [symmetric] v by simp
  then show ?thesis by simp
qed (simp add: round_double_def)

end
