(* ===== verification/Cjson.thy ===== *)
theory Cjson
  imports C_Number
begin

text \<open>
  The part of the bundled JSON library \<open>third_party/cJSON/cJSON.c\<close> that the program uses:
  \<open>cJSON_Parse\<close>, \<open>cJSON_PrintUnformatted\<close>, object lookup, construction and removal.
  \<^item> An item is a value of the datatype below; the doubly linked list of children is a list, the
    names of an object's children are kept with the children. \<open>valueint\<close> is a function of
    \<open>valuedouble\<close> (\<open>int_of_double\<close>), because the sources set both together. A string is kept as
    the C string its readers see: a NUL produced by an escape ends it.
  \<^item> A \<open>parse_buffer\<close> is the rest of the input at its offset, the nesting depth an argument.
    Reading the error position is not modelled (the program never asks for it), nor is the
    failure of an allocation inside the library.
  \<^item> The parser recurses with fuel; \<open>P_Fuel\<close> is a result of its own, and the fuel \<open>cJSON_Parse\<close>
    supplies is proved to be enough for every input.
\<close>

section \<open>Items\<close>

datatype cJSON =
    J_Null
  | J_False
  | J_True
  | J_Number double
  | J_String string
  | J_Array "cJSON list"
  | J_Object "(string \<times> cJSON) list"

definition INT_MAX :: int where "INT_MAX = 2147483647"

definition INT_MIN :: int where "INT_MIN = - 2147483648"

definition int_of_double :: "double \<Rightarrow> int" where
  "int_of_double d = (case d of
     Infinite neg \<Rightarrow> (if neg then INT_MIN else INT_MAX)
   | Finite x \<Rightarrow> (if of_int INT_MAX \<le> x then INT_MAX
                 else if x \<le> of_int INT_MIN then INT_MIN
                 else if 0 \<le> x then \<lfloor>x\<rfloor> else \<lceil>x\<rceil>))"

definition cJSON_CreateNumber :: "double \<Rightarrow> cJSON" where
  "cJSON_CreateNumber num = J_Number num"

definition cJSON_CreateString :: "string \<Rightarrow> cJSON" where
  "cJSON_CreateString s = J_String s"

definition cJSON_CreateObject :: cJSON where
  "cJSON_CreateObject = J_Object []"

definition cJSON_CreateArray :: cJSON where
  "cJSON_CreateArray = J_Array []"

text \<open>A NULL item is \<open>None\<close>.\<close>

definition cJSON_IsString :: "cJSON option \<Rightarrow> bool" where
  "cJSON_IsString it = (case it of Some (J_String _) \<Rightarrow> True | _ \<Rightarrow> False)"

definition cJSON_IsNumber :: "cJSON option \<Rightarrow> bool" where
  "cJSON_IsNumber it = (case it of Some (J_Number _) \<Rightarrow> True | _ \<Rightarrow> False)"

definition cJSON_IsObject :: "cJSON option \<Rightarrow> bool" where
  "cJSON_IsObject it = (case it of Some (J_Object _) \<Rightarrow> True | _ \<Rightarrow> False)"

section \<open>Parsing\<close>

datatype 'a parse_result = P_Ok 'a | P_Fail | P_Fuel

definition CJSON_NESTING_LIMIT :: nat where "CJSON_NESTING_LIMIT = 1000"

abbreviation QUOTE :: char where "QUOTE \<equiv> CHR 0x22"

abbreviation BSLASH :: char where "BSLASH \<equiv> CHR 0x5C"

definition ws_char :: "char \<Rightarrow> bool" where
  "ws_char c \<longleftrightarrow> (of_char c :: nat) \<le> 32"

text \<open>Skipping to the end of the buffer steps back onto its last character.\<close>

definition buffer_skip_whitespace :: "string \<Rightarrow> string" where
  "buffer_skip_whitespace s =
     (if s = [] then []
      else case dropWhile ws_char s of [] \<Rightarrow> [last s] | r \<Rightarrow> r)"

definition skip_utf8_bom :: "string \<Rightarrow> string" where
  "skip_utf8_bom s = (if 4 < length s \<and> take 3 s = [CHR 0xEF, CHR 0xBB, CHR 0xBF] then drop 3 s else s)"

definition hex_digit :: "char \<Rightarrow> nat option" where
  "hex_digit c = (let k = (of_char c :: nat) in
     if 48 \<le> k \<and> k \<le> 57 then Some (k - 48)
     else if 65 \<le> k \<and> k \<le> 70 then Some (10 + k - 65)
     else if 97 \<le> k \<and> k \<le> 102 then Some (10 + k - 97)
     else None)"

fun hex4_loop :: "nat \<Rightarrow> string \<Rightarrow> nat" where
  "hex4_loop h [] = h"
| "hex4_loop h (c # cs) =
     (case hex_digit c of None \<Rightarrow> 0
      | Some v \<Rightarrow> hex4_loop (if cs = [] then h + v else 16 * (h + v)) cs)"

definition parse_hex4 :: "string \<Rightarrow> nat" where
  "parse_hex4 s = hex4_loop 0 (take 4 s)"

text \<open>The marks of the UTF-8 lead bytes and the 6-bit groups occupy disjoint bits, so \<open>|\<close> is \<open>+\<close>.\<close>

definition utf8_encode :: "nat \<Rightarrow> string option" where
  "utf8_encode cp =
     (if cp < 0x80 then Some [char_of cp]
      else if cp < 0x800 then Some [char_of (0xC0 + cp div 64), char_of (0x80 + cp mod 64)]
      else if cp < 0x10000 then
        Some [char_of (0xE0 + cp div 4096), char_of (0x80 + cp div 64 mod 64), char_of (0x80 + cp mod 64)]
      else if cp \<le> 0x10FFFF then
        Some [char_of (0xF0 + cp div 262144), char_of (0x80 + cp div 4096 mod 64),
              char_of (0x80 + cp div 64 mod 64), char_of (0x80 + cp mod 64)]
      else None)"

text \<open>The bytes written and the number of input bytes used (6 or 12); \<open>None\<close> is the length 0.\<close>

definition utf16_literal_to_utf8 :: "string \<Rightarrow> (string \<times> nat) option" where
  "utf16_literal_to_utf8 s =
     (if length s < 6 then None
      else let first_code = parse_hex4 (drop 2 s)
        in if 0xDC00 \<le> first_code \<and> first_code \<le> 0xDFFF then None
           else if 0xD800 \<le> first_code \<and> first_code \<le> 0xDBFF then
             (let s2 = drop 6 s in
              if length s2 < 6 then None
              else if s2 ! 0 \<noteq> BSLASH \<or> s2 ! 1 \<noteq> CHR ''u'' then None
              else let second_code = parse_hex4 (drop 2 s2)
                in if second_code < 0xDC00 \<or> 0xDFFF < second_code then None
                   else map_option (\<lambda>out. (out, 12))
                     (utf8_encode (0x10000 + (first_code mod 1024 * 1024 + second_code mod 1024))))
           else map_option (\<lambda>out. (out, 6)) (utf8_encode first_code))"

lemma utf16_literal_length: "utf16_literal_to_utf8 s = Some (out, n) \<Longrightarrow> 6 \<le> n \<and> n \<le> length s"
  by (auto simp: utf16_literal_to_utf8_def Let_def split: if_splits)

text \<open>The end of the literal: its raw characters and the input behind the closing quote.\<close>

fun scan_string :: "string \<Rightarrow> (string \<times> string) option" where
  "scan_string [] = None"
| "scan_string (c # r) =
     (if c = QUOTE then Some ([], r)
      else if c = BSLASH then
        (case r of [] \<Rightarrow> None
         | d # r' \<Rightarrow> map_option (\<lambda>(raw, rest). (c # d # raw, rest)) (scan_string r'))
      else map_option (\<lambda>(raw, rest). (c # raw, rest)) (scan_string r))"

definition simple_escape :: "char \<Rightarrow> char option" where
  "simple_escape d =
     (if d = CHR ''b'' then Some (CHR 0x08)
      else if d = CHR ''f'' then Some (CHR 0x0C)
      else if d = CHR ''n'' then Some (CHR 0x0A)
      else if d = CHR ''r'' then Some (CHR 0x0D)
      else if d = CHR ''t'' then Some (CHR 0x09)
      else if d = QUOTE \<or> d = BSLASH \<or> d = CHR ''/'' then Some d
      else None)"

text \<open>
  A backslash can be the last character of the literal (after an escape \<open>\u\<close> whose four characters
  were not hexadecimal and contained a backslash): the loop then reads the closing quote behind it.
\<close>

function unescape :: "string \<Rightarrow> string option" where
  "unescape [] = Some []"
| "unescape (c # r) =
     (if c \<noteq> BSLASH then map_option (Cons c) (unescape r)
      else case r of
        [] \<Rightarrow> Some [QUOTE]
      | d # r' \<Rightarrow>
          (if d = CHR ''u'' then
             (case utf16_literal_to_utf8 (c # r) of
                None \<Rightarrow> None
              | Some (out, n) \<Rightarrow> map_option (append out) (unescape (drop n (c # r))))
           else case simple_escape d of
               None \<Rightarrow> None
             | Some x \<Rightarrow> map_option (Cons x) (unescape r')))"
  by pat_completeness auto
termination
  by (relation "measure length") (auto dest: utf16_literal_length)

definition parse_string :: "string \<Rightarrow> (string \<times> string) option" where
  "parse_string s =
     (case s of
        [] \<Rightarrow> None
      | c # r \<Rightarrow>
          if c \<noteq> QUOTE then None
          else case scan_string r of
            None \<Rightarrow> None
          | Some (raw, rest) \<Rightarrow> map_option (\<lambda>out. (c_str out, rest)) (unescape raw))"

definition number_char :: "char \<Rightarrow> bool" where
  "number_char c \<longleftrightarrow> is_digit c \<or> c \<in> {CHR ''+'', CHR ''-'', CHR ''e'', CHR ''E'', CHR ''.''}"

definition parse_number :: "string \<Rightarrow> (cJSON \<times> string) parse_result" where
  "parse_number s =
     (case strtod (takeWhile number_char (take 63 s)) of
        None \<Rightarrow> P_Fail
      | Some (number, used) \<Rightarrow> P_Ok (J_Number number, drop used s))"

text \<open>
  The recursion of the parser is open: the loops over the elements of an array and the members of
  an object take the function that parses a value as their first argument, and \<open>parse_value\<close> ties
  the knot with one unit of fuel less.
\<close>

type_synonym value_parser = "string \<Rightarrow> (cJSON \<times> string) parse_result"

primrec parse_elements :: "value_parser \<Rightarrow> nat \<Rightarrow> string \<Rightarrow> (cJSON list \<times> string) parse_result" where
  "parse_elements pv 0 s = P_Fuel"
| "parse_elements pv (Suc n) s =
     (case pv (buffer_skip_whitespace s) of
        P_Fail \<Rightarrow> P_Fail | P_Fuel \<Rightarrow> P_Fuel
      | P_Ok (v, r) \<Rightarrow>
          (case buffer_skip_whitespace r of
             [] \<Rightarrow> P_Fail
           | c # r1 \<Rightarrow>
               if c = CHR '','' then
                 (case parse_elements pv n r1 of
                    P_Ok (vs, rest) \<Rightarrow> P_Ok (v # vs, rest) | P_Fail \<Rightarrow> P_Fail | P_Fuel \<Rightarrow> P_Fuel)
               else if c = CHR '']'' then P_Ok ([v], r1)
               else P_Fail))"

definition parse_array :: "(nat \<Rightarrow> value_parser) \<Rightarrow> nat \<Rightarrow> nat \<Rightarrow> value_parser" where
  "parse_array pv n depth s =
     (if CJSON_NESTING_LIMIT \<le> depth then P_Fail
      else case s of
        [] \<Rightarrow> P_Fail
      | c # r \<Rightarrow>
          if c \<noteq> CHR ''['' then P_Fail
          else case buffer_skip_whitespace r of
            [] \<Rightarrow> P_Fail
          | e # r1 \<Rightarrow>
              if e = CHR '']'' then P_Ok (J_Array [], r1)
              else case parse_elements (pv (depth + 1)) n (e # r1) of
                P_Ok (vs, rest) \<Rightarrow> P_Ok (J_Array vs, rest) | P_Fail \<Rightarrow> P_Fail | P_Fuel \<Rightarrow> P_Fuel)"

primrec parse_members :: "value_parser \<Rightarrow> nat \<Rightarrow> string \<Rightarrow> ((string \<times> cJSON) list \<times> string) parse_result" where
  "parse_members pv 0 s = P_Fuel"
| "parse_members pv (Suc n) s =
     (if s = [] then P_Fail
      else case parse_string (buffer_skip_whitespace s) of
        None \<Rightarrow> P_Fail
      | Some (name, r0) \<Rightarrow>
          (case buffer_skip_whitespace r0 of
             [] \<Rightarrow> P_Fail
           | c0 # r \<Rightarrow>
               if c0 \<noteq> CHR '':'' then P_Fail
               else case pv (buffer_skip_whitespace r) of
                 P_Fail \<Rightarrow> P_Fail | P_Fuel \<Rightarrow> P_Fuel
               | P_Ok (v, r') \<Rightarrow>
                   (case buffer_skip_whitespace r' of
                      [] \<Rightarrow> P_Fail
                    | c # r1 \<Rightarrow>
                        if c = CHR '','' then
                          (case parse_members pv n r1 of
                             P_Ok (ms, rest) \<Rightarrow> P_Ok ((name, v) # ms, rest)
                           | P_Fail \<Rightarrow> P_Fail | P_Fuel \<Rightarrow> P_Fuel)
                        else if c = CHR ''}'' then P_Ok ([(name, v)], r1)
                        else P_Fail)))"

definition parse_object :: "(nat \<Rightarrow> value_parser) \<Rightarrow> nat \<Rightarrow> nat \<Rightarrow> value_parser" where
  "parse_object pv n depth s =
     (if CJSON_NESTING_LIMIT \<le> depth then P_Fail
      else case s of
        [] \<Rightarrow> P_Fail
      | c # r \<Rightarrow>
          if c \<noteq> CHR ''{'' then P_Fail
          else case buffer_skip_whitespace r of
            [] \<Rightarrow> P_Fail
          | e # r1 \<Rightarrow>
              if e = CHR ''}'' then P_Ok (J_Object [], r1)
              else case parse_members (pv (depth + 1)) n (e # r1) of
                P_Ok (ms, rest) \<Rightarrow> P_Ok (J_Object ms, rest) | P_Fail \<Rightarrow> P_Fail | P_Fuel \<Rightarrow> P_Fuel)"

primrec parse_value :: "nat \<Rightarrow> nat \<Rightarrow> value_parser" where
  "parse_value 0 = (\<lambda>depth s. P_Fuel)"
| "parse_value (Suc n) = (\<lambda>depth s.
     (if take 4 s = ''null'' then P_Ok (J_Null, drop 4 s)
      else if take 5 s = ''false'' then P_Ok (J_False, drop 5 s)
      else if take 4 s = ''true'' then P_Ok (J_True, drop 4 s)
      else case s of
        [] \<Rightarrow> P_Fail
      | c # _ \<Rightarrow>
          if c = QUOTE then
            (case parse_string s of None \<Rightarrow> P_Fail | Some (v, rest) \<Rightarrow> P_Ok (J_String v, rest))
          else if c = CHR ''-'' \<or> is_digit c then parse_number s
          else if c = CHR ''['' then parse_array (parse_value n) n depth s
          else if c = CHR ''{'' then parse_object (parse_value n) n depth s
          else P_Fail))"

text \<open>The buffer of \<open>cJSON_Parse\<close> includes the terminating NUL; what follows the value is ignored.\<close>

definition cJSON_ParseWithOpts :: "string \<Rightarrow> (cJSON \<times> string) parse_result" where
  "cJSON_ParseWithOpts s =
     (let buffer = buffer_skip_whitespace (skip_utf8_bom (s @ [NUL]))
      in parse_value (length buffer + 1) 0 buffer)"

definition cJSON_Parse :: "string \<Rightarrow> cJSON option" where
  "cJSON_Parse s = (case cJSON_ParseWithOpts s of P_Ok (v, _) \<Rightarrow> Some v | _ \<Rightarrow> None)"

section \<open>Printing\<close>

definition hex_lower :: "nat \<Rightarrow> char" where
  "hex_lower d = (if d < 10 then char_of (48 + d) else char_of (87 + d))"

definition escape_char :: "char \<Rightarrow> string" where
  "escape_char c =
     (if plain_char c then [c]
      else if c = BSLASH then [BSLASH, BSLASH]
      else if c = QUOTE then [BSLASH, QUOTE]
      else if c = CHR 0x08 then [BSLASH, CHR ''b'']
      else if c = CHR 0x0C then [BSLASH, CHR ''f'']
      else if c = CHR 0x0A then [BSLASH, CHR ''n'']
      else if c = CHR 0x0D then [BSLASH, CHR ''r'']
      else if c = CHR 0x09 then [BSLASH, CHR ''t'']
      else [BSLASH, CHR ''u'', CHR ''0'', CHR ''0'',
            hex_lower (of_char c div 16), hex_lower (of_char c mod 16)])"

definition print_string_ptr :: "string \<Rightarrow> string" where
  "print_string_ptr s = QUOTE # concat (map escape_char s) @ [QUOTE]"

definition DBL_EPSILON :: rat where "DBL_EPSILON = 1 / 2 ^ 52"

definition compare_double :: "double \<Rightarrow> rat \<Rightarrow> bool" where
  "compare_double test d = (case test of
     Infinite _ \<Rightarrow> True
   | Finite a \<Rightarrow>
       (case (round_double \<bar>a - d\<bar>, round_double (max \<bar>a\<bar> \<bar>d\<bar> * DBL_EPSILON)) of
          (Finite u, Finite v) \<Rightarrow> u \<le> v
        | (_, Infinite _) \<Rightarrow> True
        | (Infinite _, Finite _) \<Rightarrow> False))"

definition print_number :: "double \<Rightarrow> string option" where
  "print_number d =
     (let number_buffer = (case d of
            Infinite _ \<Rightarrow> ''null''
          | Finite x \<Rightarrow>
              if x = of_int (int_of_double d) then show_int (int_of_double d)
              else (case strtod (fmt_g 15 x) of
                      Some (test, _) \<Rightarrow> if compare_double test x then fmt_g 15 x else fmt_g 17 x
                    | None \<Rightarrow> fmt_g 17 x))
      in if 25 < length number_buffer then None else Some number_buffer)"

fun print_value :: "cJSON \<Rightarrow> string option"
  and print_elements :: "cJSON list \<Rightarrow> string option"
  and print_members :: "(string \<times> cJSON) list \<Rightarrow> string option"
where
  "print_value J_Null = Some ''null''"
| "print_value J_False = Some ''false''"
| "print_value J_True = Some ''true''"
| "print_value (J_Number d) = print_number d"
| "print_value (J_String s) = Some (print_string_ptr s)"
| "print_value (J_Array vs) =
     map_option (\<lambda>out. ''['' @ out @ '']'') (print_elements vs)"
| "print_value (J_Object ms) =
     map_option (\<lambda>out. ''{'' @ out @ ''}'') (print_members ms)"
| "print_elements [] = Some []"
| "print_elements (v # vs) =
     (case (print_value v, print_elements vs) of
        (Some out, Some outs) \<Rightarrow> Some (out @ (if vs = [] then [] else '','' @ outs))
      | _ \<Rightarrow> None)"
| "print_members [] = Some []"
| "print_members ((key, v) # ms) =
     (case (print_value v, print_members ms) of
        (Some out, Some outs) \<Rightarrow>
          Some (print_string_ptr key @ '':'' @ out @ (if ms = [] then [] else '','' @ outs))
      | _ \<Rightarrow> None)"

definition cJSON_PrintUnformatted :: "cJSON \<Rightarrow> string option" where
  "cJSON_PrintUnformatted item = print_value item"

section \<open>Objects\<close>

definition ascii_lower :: "char \<Rightarrow> char" where
  "ascii_lower c = (if 65 \<le> (of_char c :: nat) \<and> (of_char c :: nat) \<le> 90 then char_of ((of_char c :: nat) + 32) else c)"

definition case_insensitive_eq :: "string \<Rightarrow> string \<Rightarrow> bool" where
  "case_insensitive_eq s t \<longleftrightarrow> map ascii_lower s = map ascii_lower t"

text \<open>Children of an array have no name, so a lookup finds nothing in it.\<close>

definition get_object_item :: "cJSON option \<Rightarrow> string \<Rightarrow> bool \<Rightarrow> cJSON option" where
  "get_object_item obj name case_sensitive =
     (case obj of
        Some (J_Object ms) \<Rightarrow>
          map_option snd (find (\<lambda>(k, _). if case_sensitive then name = k else case_insensitive_eq name k) ms)
      | _ \<Rightarrow> None)"

definition cJSON_GetObjectItem :: "cJSON option \<Rightarrow> string \<Rightarrow> cJSON option" where
  "cJSON_GetObjectItem obj name = get_object_item obj name False"

definition cJSON_GetObjectItemCaseSensitive :: "cJSON option \<Rightarrow> string \<Rightarrow> cJSON option" where
  "cJSON_GetObjectItemCaseSensitive obj name = get_object_item obj name True"

definition cJSON_AddItemToObject :: "cJSON \<Rightarrow> string \<Rightarrow> cJSON \<Rightarrow> cJSON" where
  "cJSON_AddItemToObject obj name item = (case obj of J_Object ms \<Rightarrow> J_Object (ms @ [(name, item)]) | _ \<Rightarrow> obj)"

definition cJSON_AddItemToArray :: "cJSON \<Rightarrow> cJSON \<Rightarrow> cJSON" where
  "cJSON_AddItemToArray arr item = (case arr of J_Array vs \<Rightarrow> J_Array (vs @ [item]) | _ \<Rightarrow> arr)"

definition cJSON_AddStringToObject :: "cJSON \<Rightarrow> string \<Rightarrow> string \<Rightarrow> cJSON" where
  "cJSON_AddStringToObject obj name s = cJSON_AddItemToObject obj name (cJSON_CreateString s)"

definition cJSON_AddNumberToObject :: "cJSON \<Rightarrow> string \<Rightarrow> double \<Rightarrow> cJSON" where
  "cJSON_AddNumberToObject obj name num = cJSON_AddItemToObject obj name (cJSON_CreateNumber num)"

text \<open>\<open>cJSON_DeleteItemFromObject\<close> removes the first child whose name matches without regard to case.\<close>

fun remove_first :: "('a \<Rightarrow> bool) \<Rightarrow> 'a list \<Rightarrow> 'a list" where
  "remove_first P [] = []"
| "remove_first P (x # xs) = (if P x then xs else x # remove_first P xs)"

definition cJSON_DeleteItemFromObject :: "cJSON \<Rightarrow> string \<Rightarrow> cJSON" where
  "cJSON_DeleteItemFromObject obj name =
     (case obj of J_Object ms \<Rightarrow> J_Object (remove_first (\<lambda>(k, _). case_insensitive_eq name k) ms) | _ \<Rightarrow> obj)"

section \<open>The parser consumes its input and has enough fuel\<close>

lemma skip_whitespace_length [simp]: "length (buffer_skip_whitespace s) \<le> length s"
  using length_dropWhile_le [of ws_char s]
  by (cases s) (auto simp: buffer_skip_whitespace_def Suc_le_eq split: list.splits)

lemma skip_whitespace_Nil [simp]: "buffer_skip_whitespace [] = []"
  by (simp add: buffer_skip_whitespace_def)

lemma scan_string_length: "scan_string s = Some (raw, r) \<Longrightarrow> length raw + length r < length s"
  by (induction s arbitrary: raw r rule: scan_string.induct) (auto split: if_splits list.splits)

lemma parse_string_length: "parse_string s = Some (v, r) \<Longrightarrow> length r < length s"
  by (auto simp: parse_string_def split: list.splits if_splits option.splits dest!: scan_string_length)

lemma strtod_used: "strtod s = Some (d, n) \<Longrightarrow> 0 < n \<and> s \<noteq> []"
  by (auto simp: strtod_def Let_def scan_fraction_def split: if_splits prod.splits list.splits)

lemma parse_number_length: "parse_number s = P_Ok (v, r) \<Longrightarrow> length r < length s"
  by (cases s) (auto simp: parse_number_def split: option.splits dest!: strtod_used)

definition shrinks :: "(string \<Rightarrow> ('a \<times> string) parse_result) \<Rightarrow> bool" where
  "shrinks p \<longleftrightarrow> (\<forall>s v r. p s = P_Ok (v, r) \<longrightarrow> length r < length s)"

lemma shrinksD: "shrinks p \<Longrightarrow> p s = P_Ok (v, r) \<Longrightarrow> length r < length s"
  by (auto simp: shrinks_def)

lemma shrinks_skip: "shrinks p \<Longrightarrow> p (buffer_skip_whitespace s) = P_Ok (v, r) \<Longrightarrow> length r < length s"
  using shrinksD [of p "buffer_skip_whitespace s" v r] skip_whitespace_length [of s] by linarith

lemma skip_whitespace_Cons: "buffer_skip_whitespace s = c # r \<Longrightarrow> length r < length s"
  using skip_whitespace_length [of s] by simp

lemma parse_elements_shrinks:
  assumes "shrinks pv" shows "shrinks (parse_elements pv n)"
proof -
  have "parse_elements pv n s = P_Ok (vs, r) \<Longrightarrow> length r < length s" for vs r s
  proof (induction n arbitrary: s vs)
    case (Suc n)
    obtain v r0 where v: "pv (buffer_skip_whitespace s) = P_Ok (v, r0)"
      using Suc.prems by (auto split: parse_result.splits)
    obtain c r1 where c: "buffer_skip_whitespace r0 = c # r1"
      using Suc.prems v by (auto split: list.splits)
    have "length r1 < length s"
      using shrinks_skip [OF assms v] skip_whitespace_Cons [OF c] by simp
    then show ?case
      using Suc.prems Suc.IH v c by (fastforce split: if_splits parse_result.splits prod.splits)
  qed simp
  then show ?thesis by (simp add: shrinks_def)
qed

lemma parse_members_shrinks:
  assumes "shrinks pv" shows "shrinks (parse_members pv n)"
proof -
  have "parse_members pv n s = P_Ok (ms, r) \<Longrightarrow> length r < length s" for ms r s
  proof (induction n arbitrary: s ms)
    case (Suc n)
    obtain name r0 where nm: "parse_string (buffer_skip_whitespace s) = Some (name, r0)"
      using Suc.prems by (auto split: if_splits option.splits)
    obtain c0 r' where c0: "buffer_skip_whitespace r0 = c0 # r'" "c0 = CHR '':''"
      using Suc.prems nm by (auto split: if_splits list.splits)
    obtain v r2 where v: "pv (buffer_skip_whitespace r') = P_Ok (v, r2)"
      using Suc.prems nm c0 by (auto split: if_splits parse_result.splits)
    obtain c r1 where c: "buffer_skip_whitespace r2 = c # r1"
      using Suc.prems nm c0 v by (auto split: if_splits list.splits)
    have "length r1 < length s"
      using parse_string_length [OF nm] skip_whitespace_Cons [OF c0(1)] shrinks_skip [OF assms v]
        skip_whitespace_Cons [OF c] skip_whitespace_length [of s] by linarith
    then show ?case
      using Suc.prems Suc.IH nm c0 v c by (fastforce split: if_splits parse_result.splits prod.splits)
  qed simp
  then show ?thesis by (simp add: shrinks_def)
qed

lemma parse_array_shrinks:
  assumes "\<And>d. shrinks (pv d)" shows "shrinks (parse_array pv n depth)"
  unfolding shrinks_def
proof (intro allI impI)
  fix s v r assume p: "parse_array pv n depth s = P_Ok (v, r)"
  obtain c r0 where s: "s = c # r0" using p by (cases s) (auto simp: parse_array_def split: if_splits)
  obtain e r1 where e: "buffer_skip_whitespace r0 = e # r1"
    using p by (auto simp: parse_array_def s split: if_splits list.splits)
  show "length r < length s"
    using p skip_whitespace_length [of r0] skip_whitespace_Cons [OF e]
      shrinksD [OF parse_elements_shrinks [OF assms], of "depth + 1" n "e # r1"]
    by (fastforce simp: parse_array_def s e split: if_splits parse_result.splits prod.splits)
qed

lemma parse_object_shrinks:
  assumes "\<And>d. shrinks (pv d)" shows "shrinks (parse_object pv n depth)"
  unfolding shrinks_def
proof (intro allI impI)
  fix s v r assume p: "parse_object pv n depth s = P_Ok (v, r)"
  obtain c r0 where s: "s = c # r0" using p by (cases s) (auto simp: parse_object_def split: if_splits)
  obtain e r1 where e: "buffer_skip_whitespace r0 = e # r1"
    using p by (auto simp: parse_object_def s split: if_splits list.splits)
  show "length r < length s"
    using p skip_whitespace_length [of r0] skip_whitespace_Cons [OF e]
      shrinksD [OF parse_members_shrinks [OF assms], of "depth + 1" n "e # r1"]
    by (fastforce simp: parse_object_def s e split: if_splits parse_result.splits prod.splits)
qed

lemma parse_value_shrinks: "shrinks (parse_value n depth)"
proof (induction n arbitrary: depth)
  case 0
  show ?case by (simp add: shrinks_def)
next
  case (Suc n)
  show ?case
    unfolding shrinks_def
  proof (intro allI impI)
    fix s v r assume p: "parse_value (Suc n) depth s = P_Ok (v, r)"
    have drops: "length (drop k s) < length s" if "take k s = x # xs" "0 < k" for k x xs
      using that by (cases s) auto
    show "length r < length s"
      using p drops shrinksD [OF parse_array_shrinks [where pv = "parse_value n", OF Suc], of n depth s]
        shrinksD [OF parse_object_shrinks [where pv = "parse_value n", OF Suc], of n depth s] parse_number_length [of s] parse_string_length [of s]
      by (auto split: if_splits list.splits option.splits prod.splits)
  qed
qed

lemma parse_elements_fuel:
  assumes "shrinks pv" "\<And>t. length t \<le> length s \<Longrightarrow> pv t \<noteq> P_Fuel" "length s < n"
  shows "parse_elements pv n s \<noteq> P_Fuel"
  using assms(2,3)
proof (induction n arbitrary: s)
  case (Suc n)
  have "pv (buffer_skip_whitespace s) \<noteq> P_Fuel" using Suc.prems(1) by simp
  moreover have "parse_elements pv n r1 \<noteq> P_Fuel"
    if v: "pv (buffer_skip_whitespace s) = P_Ok (v, r0)" and c: "buffer_skip_whitespace r0 = c # r1" for v r0 c r1
  proof (rule Suc.IH)
    have len: "length r1 < length s"
      using shrinks_skip [OF assms(1) v] skip_whitespace_Cons [OF c] by simp
    then show "length r1 < n" using Suc.prems(2) by simp
    show "pv t \<noteq> P_Fuel" if "length t \<le> length r1" for t using that len Suc.prems(1) [of t] by simp
  qed
  ultimately show ?case
    by (auto split: parse_result.splits list.splits if_splits prod.splits)
qed simp

lemma parse_members_fuel:
  assumes "shrinks pv" "\<And>t. length t < length s \<Longrightarrow> pv t \<noteq> P_Fuel" "length s < n"
  shows "parse_members pv n s \<noteq> P_Fuel"
  using assms(2,3)
proof (induction n arbitrary: s)
  case (Suc n)
  show ?case
  proof (cases "parse_string (buffer_skip_whitespace s)")
    case (Some nr)
    then obtain name r0 where nm: "parse_string (buffer_skip_whitespace s) = Some (name, r0)" by (cases nr) simp
    show ?thesis
    proof (cases "buffer_skip_whitespace r0")
      case c0: (Cons c0 r)
      have r: "length r < length s"
        using parse_string_length [OF nm] skip_whitespace_Cons [OF c0] skip_whitespace_length [of s] by linarith
      then have pv: "pv (buffer_skip_whitespace r) \<noteq> P_Fuel"
        using skip_whitespace_length [of r] by (intro Suc.prems(1)) linarith
      have "parse_members pv n r1 \<noteq> P_Fuel"
        if v: "pv (buffer_skip_whitespace r) = P_Ok (v, r2)" and c: "buffer_skip_whitespace r2 = c # r1" for v r2 c r1
      proof (rule Suc.IH)
        have len: "length r1 < length s"
          using r shrinks_skip [OF assms(1) v] skip_whitespace_Cons [OF c] by simp
        then show "length r1 < n" using Suc.prems(2) by simp
        show "pv t \<noteq> P_Fuel" if "length t < length r1" for t using that len Suc.prems(1) [of t] by simp
      qed
      with pv nm c0 show ?thesis
        by (auto split: parse_result.splits list.splits if_splits prod.splits)
    qed (simp add: nm)
  qed simp
qed simp

lemma parse_value_fuel: "length s < n \<Longrightarrow> parse_value n depth s \<noteq> P_Fuel"
proof (induction n arbitrary: depth s)
  case (Suc n)
  have els: "parse_elements (parse_value n d) n (e # r1) \<noteq> P_Fuel"
    and mems: "parse_members (parse_value n d) n (e # r1) \<noteq> P_Fuel"
    if "s = c # r" "buffer_skip_whitespace r = e # r1" for c r e r1 d
  proof -
    have "length (e # r1) < n" using that Suc.prems skip_whitespace_length [of r] by simp
    then show "parse_elements (parse_value n d) n (e # r1) \<noteq> P_Fuel"
      "parse_members (parse_value n d) n (e # r1) \<noteq> P_Fuel"
      using Suc.IH by (intro parse_elements_fuel parse_members_fuel parse_value_shrinks; simp)+
  qed
  have "parse_array (parse_value n) n depth s \<noteq> P_Fuel" "parse_object (parse_value n) n depth s \<noteq> P_Fuel"
    using els mems
    by (auto simp: parse_array_def parse_object_def split: list.splits if_splits parse_result.splits prod.splits)
  moreover have "parse_number s \<noteq> P_Fuel" by (auto simp: parse_number_def split: option.splits)
  ultimately show ?case by (auto split: list.splits option.splits)
qed simp

section \<open>Printing and parsing back\<close>

lemma hex_digit_hex_lower: "d < 16 \<Longrightarrow> hex_digit (hex_lower d) = Some d"
  by (auto simp: hex_digit_def hex_lower_def Let_def)

lemma not_plain_char: "\<not> plain_char c \<longleftrightarrow> (of_char c :: nat) < 32 \<or> c = QUOTE \<or> c = BSLASH"
  by (auto simp: plain_char_def)

lemma escape_char_cases:
  obtains "plain_char c" "escape_char c = [c]"
  | d where "escape_char c = [BSLASH, d]" "simple_escape d = Some c" "d \<noteq> CHR ''u''"
  | "(of_char c :: nat) < 32" "escape_char c = [BSLASH, CHR ''u'', CHR ''0'', CHR ''0'',
       hex_lower (of_char c div 16), hex_lower (of_char c mod 16)]"
proof -
  consider "plain_char c" | "\<not> plain_char c" "c \<in> {BSLASH, QUOTE, CHR 0x08, CHR 0x0C, CHR 0x0A, CHR 0x0D, CHR 0x09}"
    | "\<not> plain_char c" "c \<notin> {BSLASH, QUOTE, CHR 0x08, CHR 0x0C, CHR 0x0A, CHR 0x0D, CHR 0x09}" by blast
  then show ?thesis
  proof cases
    case 1
    then show ?thesis using that(1) by (simp add: escape_char_def)
  next
    case 2
    then show ?thesis using that(2) [of "escape_char c ! 1"]
      by (elim insertE) (simp_all add: escape_char_def simple_escape_def)
  next
    case 3
    then show ?thesis using that(3) by (simp add: escape_char_def not_plain_char)
  qed
qed

lemma hex_lower_not_special: "d < 16 \<Longrightarrow> hex_lower d \<noteq> QUOTE \<and> hex_lower d \<noteq> BSLASH"
  using hex_digit_hex_lower [of d] by (auto simp: hex_digit_def)

lemma of_char_div_mod: "(of_char c :: nat) < 32 \<Longrightarrow> of_char c div 16 < (16 :: nat)" "of_char c mod 16 < (16 :: nat)"
  by (simp_all add: less_mult_imp_div_less)

lemma scan_string_escape:
  "scan_string (escape_char c @ s) = map_option (\<lambda>(raw, r). (escape_char c @ raw, r)) (scan_string s)"
proof (cases rule: escape_char_cases [of c])
  case 1
  then have "c \<noteq> QUOTE" "c \<noteq> BSLASH" by (auto simp: plain_char_def)
  then show ?thesis using 1 by simp
next
  case (2 d)
  then show ?thesis by simp
next
  case 3
  then show ?thesis
    using hex_lower_not_special [OF of_char_div_mod(1) [OF 3(1)]] hex_lower_not_special [OF of_char_div_mod(2)]
    by (cases "scan_string s") auto
qed

lemma parse_hex4_control:
  assumes "(of_char c :: nat) < 32"
  shows "parse_hex4 (CHR ''0'' # CHR ''0'' # hex_lower (of_char c div 16) # hex_lower (of_char c mod 16) # s) = of_char c"
proof -
  have z: "hex_digit (CHR ''0'') = Some 0" by (simp add: hex_digit_def)
  have "numeral_class.numeral (num.Bit0 (num.Bit0 num.One)) = Suc (Suc (Suc (Suc 0)))" by simp
  then show ?thesis
    using hex_digit_hex_lower [OF of_char_div_mod(1) [OF assms]] hex_digit_hex_lower [OF of_char_div_mod(2), of c]
    by (simp add: parse_hex4_def z mult.commute)
qed

lemma unescape_escape: "unescape (escape_char c @ s) = map_option (Cons c) (unescape s)"
proof (cases rule: escape_char_cases [of c])
  case 1
  then have "c \<noteq> BSLASH" by (auto simp: plain_char_def)
  then show ?thesis using 1 by simp
next
  case (2 d)
  then show ?thesis by simp
next
  case 3
  have "utf8_encode (of_char c) = Some [c]" using 3(1) by (simp add: utf8_encode_def)
  then have "utf16_literal_to_utf8 (escape_char c @ s) = Some ([c], 6)"
    using 3(1) parse_hex4_control [OF 3(1)] by (simp add: utf16_literal_to_utf8_def 3(2) numeral_2_eq_2)
  then show ?thesis by (simp add: 3(2) append_Cons [abs_def])
qed

lemma parse_print_string: "NUL \<notin> set s \<Longrightarrow> parse_string (print_string_ptr s @ rest) = Some (s, rest)"
proof -
  assume "NUL \<notin> set s"
  have "scan_string (concat (map escape_char t) @ QUOTE # rest) = Some (concat (map escape_char t), rest)" for t
    by (induction t) (simp_all add: scan_string_escape)
  moreover have "unescape (concat (map escape_char t)) = Some t" for t
    by (induction t) (simp_all add: unescape_escape)
  ultimately show ?thesis using \<open>NUL \<notin> set s\<close> by (simp add: print_string_ptr_def parse_string_def)
qed

text \<open>Integers of the range of \<open>int\<close>, which are printed with \<open>%d\<close>.\<close>

definition int_number :: "double \<Rightarrow> bool" where
  "int_number d \<longleftrightarrow> d = Finite (of_int (int_of_double d))"

lemma int_of_double_range: "INT_MIN \<le> int_of_double d \<and> int_of_double d \<le> INT_MAX"
proof (cases d)
  case (Finite x)
  then show ?thesis by (auto simp: int_of_double_def INT_MAX_def INT_MIN_def floor_le_iff le_floor_iff ceiling_le_iff le_ceiling_iff)
qed (auto simp: int_of_double_def INT_MAX_def INT_MIN_def)

lemma digits_number_char: "is_digit c \<Longrightarrow> number_char c"
  by (simp add: number_char_def)

lemma length_show_int: "INT_MIN \<le> i \<Longrightarrow> i \<le> INT_MAX \<Longrightarrow> length (show_int i) \<le> 11"
proof -
  assume "INT_MIN \<le> i" "i \<le> INT_MAX"
  then have "nat \<bar>i\<bar> < 10 ^ Suc 9" by (simp add: INT_MAX_def INT_MIN_def)
  from length_show_nat [OF this] show ?thesis by (auto simp: show_int_def)
qed

lemma strtod_show_int:
  assumes "\<bar>i\<bar> < 2 ^ 53"
  shows "strtod (show_int i) = Some (Finite (of_int i), length (show_int i))"
proof -
  have all: "takeWhile is_digit (show_nat n) = show_nat n" for n
    using show_nat_digits by (auto simp: takeWhile_eq_all_conv)
  have sg: "scan_sign (show_int i) = (if i < 0 then ''-'' else '''')"
  proof (cases "show_nat (nat i)")
    case (Cons c r)
    then have "is_digit c" using show_nat_digits [of c "nat i"] by simp
    then have "c \<noteq> CHR ''+'' \<and> c \<noteq> CHR ''-''" by (auto simp: is_digit_def)
    then show ?thesis using Cons by (simp add: scan_sign_def show_int_def)
  qed simp
  have "drop (length (scan_sign (show_int i))) (show_int i) = show_nat (nat \<bar>i\<bar>)"
    unfolding sg by (simp add: show_int_def)
  then show ?thesis
    using round_double_int [OF assms]
    by (simp add: strtod_def Let_def all sg scan_fraction_def scan_exponent_def pow_int_def)
      (simp add: show_int_def all)
qed

definition ends_number :: "string \<Rightarrow> bool" where
  "ends_number s \<longleftrightarrow> (case s of [] \<Rightarrow> True | c # _ \<Rightarrow> \<not> number_char c)"

lemma parse_print_number:
  assumes "int_number d" "ends_number rest"
  shows "print_number d = Some (show_int (int_of_double d))"
    "parse_number (show_int (int_of_double d) @ rest) = P_Ok (J_Number d, rest)"
proof -
  let ?i = "int_of_double d"
  have len: "length (show_int ?i) \<le> 11" using length_show_int int_of_double_range by simp
  have d: "d = Finite (of_int ?i)" using assms(1) by (simp add: int_number_def)
  have "print_number (Finite x) = Some (show_int k)"
    if "int_of_double (Finite x) = k" "x = of_int k" "length (show_int k) \<le> 11" for x k
    using that by (simp add: print_number_def)
  from this [of "of_int ?i" ?i] show "print_number d = Some (show_int ?i)" using d len by simp
  have "number_char c" if "c \<in> set (show_int ?i)" for c
    using that show_nat_digits by (auto simp: show_int_def number_char_def split: if_splits)
  moreover have "takeWhile number_char (take k rest) = []" for k
    using assms(2) by (cases rest; cases k) (auto simp: ends_number_def)
  ultimately have "takeWhile number_char (take 63 (show_int ?i @ rest)) = show_int ?i"
    using len by (simp add: takeWhile_append2)
  moreover have "\<bar>?i\<bar> < 2 ^ 53" using int_of_double_range [of d] by (auto simp: INT_MAX_def INT_MIN_def)
  note strtod_show_int [OF this]
  ultimately show "parse_number (show_int ?i @ rest) = P_Ok (J_Number d, rest)"
    using d by (simp add: parse_number_def)
qed

fun json_ok :: "cJSON \<Rightarrow> bool" where
  "json_ok (J_Number d) = int_number d"
| "json_ok (J_String s) = (NUL \<notin> set s)"
| "json_ok (J_Array vs) = (\<forall>v \<in> set vs. json_ok v)"
| "json_ok (J_Object ms) = (\<forall>m \<in> set ms. NUL \<notin> set (fst m) \<and> json_ok (snd m))"
| "json_ok _ = True"

fun nesting :: "cJSON \<Rightarrow> nat" where
  "nesting (J_Array vs) = Suc (foldr max (map nesting vs) 0)"
| "nesting (J_Object ms) = Suc (foldr max (map (\<lambda>m. nesting (snd m)) ms) 0)"
| "nesting _ = 0"

lemma foldr_max_ge: "x \<in> set xs \<Longrightarrow> x \<le> foldr max xs (k :: nat)"
  by (induction xs) auto

lemma skip_whitespace_id [simp]: "\<not> ws_char c \<Longrightarrow> buffer_skip_whitespace (c # s) = c # s"
  by (simp add: buffer_skip_whitespace_def)

lemma ws_char_simps [simp]:
  "\<not> ws_char QUOTE" "\<not> ws_char (CHR '','')" "\<not> ws_char (CHR '':'')" "\<not> ws_char (CHR ''['')"
  "\<not> ws_char (CHR '']'')" "\<not> ws_char (CHR ''{'')" "\<not> ws_char (CHR ''}'')"
  by (simp_all add: ws_char_def)

lemma ends_number_simps [simp]: "ends_number (CHR '','' # s)" "ends_number (CHR '']'' # s)" "ends_number (CHR ''}'' # s)"
  by (simp_all add: ends_number_def number_char_def is_digit_def)

lemma show_int_hd: "\<exists>c r. show_int i = c # r \<and> (c = CHR ''-'' \<or> is_digit c)"
proof (cases "show_nat (nat i)")
  case (Cons c r)
  then show ?thesis using show_nat_digits [of c "nat i"] by (auto simp: show_int_def)
qed simp

text \<open>The first character of a printed value is neither white space nor a closing bracket.\<close>

lemma print_value_hd:
  assumes "json_ok v" "print_value v = Some out"
  shows "\<exists>c r. out = c # r \<and> \<not> ws_char c \<and> c \<noteq> CHR '']'' \<and> c \<noteq> CHR ''}'' \<and> c \<noteq> CHR 0xEF"
proof (cases v)
  case (J_Number d)
  then have "out = show_int (int_of_double d)"
    using assms parse_print_number(1) [of d "[]"] by (simp add: ends_number_def)
  then show ?thesis using show_int_hd [of "int_of_double d"] by (auto simp: ws_char_def is_digit_def)
next
  case (J_String s)
  then have "out = QUOTE # concat (map escape_char s) @ [QUOTE]" using assms by (simp add: print_string_ptr_def)
  then show ?thesis by simp
next
  case (J_Array vs)
  with assms(2) obtain o1 where "out = CHR ''['' # o1" by auto
  then show ?thesis by simp
next
  case (J_Object ms)
  with assms(2) obtain o1 where "out = CHR ''{'' # o1" by auto
  then show ?thesis by simp
next
  case J_Null
  then have "out = ''null''" using assms(2) by simp
  then show ?thesis by (simp add: ws_char_def)
next
  case J_False
  then have "out = ''false''" using assms(2) by simp
  then show ?thesis by (simp add: ws_char_def)
next
  case J_True
  then have "out = ''true''" using assms(2) by simp
  then show ?thesis by (simp add: ws_char_def)
qed

lemma parse_print_elements:
  assumes "vs \<noteq> []" "\<forall>v \<in> set vs. json_ok v" "print_elements vs = Some out" "length vs \<le> n"
    and "\<And>v o1 r. v \<in> set vs \<Longrightarrow> print_value v = Some o1 \<Longrightarrow> ends_number r \<Longrightarrow>
      length (o1 @ r) \<le> length (out @ CHR '']'' # rest) \<Longrightarrow> pv (o1 @ r) = P_Ok (v, r)"
  shows "parse_elements pv n (out @ CHR '']'' # rest) = P_Ok (vs, rest)"
  using assms
proof (induction vs arbitrary: out n)
  case (Cons v vs)
  obtain o1 where o1: "print_value v = Some o1" using Cons.prems(3) by (auto split: option.splits)
  obtain o2 where o2: "print_elements vs = Some o2" using Cons.prems(3) o1 by (auto split: option.splits)
  have out: "out = o1 @ (if vs = [] then [] else '','' @ o2)" using Cons.prems(3) o1 o2 by simp
  obtain m where n: "n = Suc m" using Cons.prems(4) by (cases n) auto
  obtain c r where c: "o1 = c # r" "\<not> ws_char c" using print_value_hd [OF _ o1] Cons.prems(2) by auto
  let ?t = "(if vs = [] then [] else '','' @ o2) @ CHR '']'' # rest"
  have "pv (o1 @ ?t) = P_Ok (v, ?t)"
    by (rule Cons.prems(5)) (use o1 out in \<open>auto simp: ends_number_def number_char_def is_digit_def\<close>)
  then have first: "pv (buffer_skip_whitespace (out @ CHR '']'' # rest)) = P_Ok (v, ?t)"
    using out c by simp
  show ?case
  proof (cases "vs = []")
    case True
    then show ?thesis using first by (simp add: n)
  next
    case False
    have "parse_elements pv m (o2 @ CHR '']'' # rest) = P_Ok (vs, rest)"
      using False o2 Cons.prems(2,4) n by (intro Cons.IH) (auto intro!: Cons.prems(5) simp: out)
    then show ?thesis using first False by (simp add: n)
  qed
qed simp

lemma parse_print_members:
  assumes "ms \<noteq> []" "\<forall>m \<in> set ms. NUL \<notin> set (fst m) \<and> json_ok (snd m)" "print_members ms = Some out" "length ms \<le> n"
    and "\<And>k v o1 r. (k, v) \<in> set ms \<Longrightarrow> print_value v = Some o1 \<Longrightarrow> ends_number r \<Longrightarrow>
      length (o1 @ r) \<le> length (out @ CHR ''}'' # rest) \<Longrightarrow> pv (o1 @ r) = P_Ok (v, r)"
  shows "parse_members pv n (out @ CHR ''}'' # rest) = P_Ok (ms, rest)"
  using assms
proof (induction ms arbitrary: out n)
  case (Cons m0 ms)
  obtain k v where kv: "m0 = (k, v)" by (cases m0)
  obtain o1 where o1: "print_value v = Some o1" using Cons.prems(3) kv by (auto split: option.splits)
  obtain o2 where o2: "print_members ms = Some o2" using Cons.prems(3) kv o1 by (auto split: option.splits)
  have out: "out = print_string_ptr k @ '':'' @ o1 @ (if ms = [] then [] else '','' @ o2)"
    using Cons.prems(3) kv o1 o2 by simp
  obtain m where n: "n = Suc m" using Cons.prems(4) by (cases n) auto
  obtain c r where c: "o1 = c # r" "\<not> ws_char c" using print_value_hd [OF _ o1] Cons.prems(2) kv by auto
  let ?t = "(if ms = [] then [] else '','' @ o2) @ CHR ''}'' # rest"
  have val: "pv (o1 @ ?t) = P_Ok (v, ?t)"
    by (rule Cons.prems(5)) (use o1 out kv in \<open>auto simp: ends_number_def number_char_def is_digit_def\<close>)
  have key: "parse_string (buffer_skip_whitespace (out @ CHR ''}'' # rest)) = Some (k, '':'' @ o1 @ ?t)"
    using parse_print_string [of k "'':'' @ o1 @ ?t"] Cons.prems(2) kv out by (simp add: print_string_ptr_def)
  show ?case
  proof (cases "ms = []")
    case True
    then show ?thesis using key val c by (simp add: n kv out print_string_ptr_def)
  next
    case False
    have "parse_members pv m (o2 @ CHR ''}'' # rest) = P_Ok (ms, rest)"
      using False o2 Cons.prems(2,4) n by (intro Cons.IH) (auto intro!: Cons.prems(5) simp: out)
    then show ?thesis using key val c False by (simp add: n kv out print_string_ptr_def)
  qed
qed simp

lemma print_elements_length: "print_elements vs = Some out \<Longrightarrow> \<forall>v \<in> set vs. json_ok v \<Longrightarrow> length vs \<le> length out"
proof (induction vs arbitrary: out)
  case (Cons v vs)
  then obtain o1 o2 where "print_value v = Some o1" "print_elements vs = Some o2"
    "out = o1 @ (if vs = [] then [] else '','' @ o2)"
    by (auto split: option.splits)
  then show ?case using Cons print_value_hd [of v o1] by (cases vs) fastforce+
qed simp

lemma print_members_length: "print_members ms = Some out \<Longrightarrow> length ms \<le> length out"
proof (induction ms arbitrary: out)
  case (Cons m ms)
  then show ?case by (cases m) (auto simp: print_string_ptr_def split: option.splits if_splits)
qed simp

lemma parse_print_value:
  assumes "json_ok v" "print_value v = Some out" "depth + nesting v \<le> CJSON_NESTING_LIMIT"
    and "length (out @ rest) < n" "ends_number rest"
  shows "parse_value n depth (out @ rest) = P_Ok (v, rest)"
  using assms
proof (induction v arbitrary: out depth rest n rule: cJSON.induct)
  case J_Null
  then show ?case by (cases n) auto
next
  case J_False
  then show ?case by (cases n) auto
next
  case J_True
  then show ?case by (cases n) auto
next
  case (J_Number d)
  have num: "out = show_int (int_of_double d)" "parse_number (out @ rest) = P_Ok (J_Number d, rest)"
    using parse_print_number [of d rest] J_Number.prems by auto
  obtain c r where "out = c # r" "c = CHR ''-'' \<or> is_digit c" using show_int_hd num(1) by blast
  then show ?case using num(2) J_Number.prems(4) by (cases n) (auto simp: is_digit_def)
next
  case (J_String s)
  then show ?case using parse_print_string [of s rest]
    by (cases n) (auto simp: print_string_ptr_def)
next
  case (J_Array vs)
  obtain m where n: "n = Suc m" using J_Array.prems(4) by (cases n) auto
  obtain o1 where o1: "print_elements vs = Some o1" "out = ''['' @ o1 @ '']''" using J_Array.prems(2) by auto
  have d: "depth < CJSON_NESTING_LIMIT" using J_Array.prems(3) by simp
  have "parse_array (parse_value m) m depth (out @ rest) = P_Ok (J_Array vs, rest)"
  proof (cases "vs = []")
    case True
    then show ?thesis using o1 d by (simp add: parse_array_def)
  next
    case False
    have "parse_elements (parse_value m (depth + 1)) m (o1 @ CHR '']'' # rest) = P_Ok (vs, rest)"
    proof (rule parse_print_elements [OF False _ o1(1)])
      show "\<forall>v \<in> set vs. json_ok v" using J_Array.prems(1) by simp
      then show "length vs \<le> m" using print_elements_length [OF o1(1)] J_Array.prems(4) o1(2) n by simp
      fix v o' r
      assume a: "v \<in> set vs" "print_value v = Some o'" "ends_number r" "length (o' @ r) \<le> length (o1 @ CHR '']'' # rest)"
      then show "parse_value m (depth + 1) (o' @ r) = P_Ok (v, r)"
        using J_Array.prems J_Array.IH [OF a(1)] foldr_max_ge [of "nesting v" "map nesting vs" 0] o1(2) n by simp
    qed
    moreover obtain v ws where vs: "vs = v # ws" using False by (cases vs) auto
    then obtain o' where "print_value v = Some o'" "\<exists>t. o1 = o' @ t" using o1(1) by (auto split: option.splits)
    then obtain c r where "o1 = c # r" "\<not> ws_char c" "c \<noteq> CHR '']''"
      using print_value_hd [of v o'] J_Array.prems(1) vs by fastforce
    ultimately show ?thesis using o1(2) d by (simp add: parse_array_def)
  qed
  then show ?case by (simp add: n o1(2) is_digit_def)
next
  case (J_Object ms)
  obtain m where n: "n = Suc m" using J_Object.prems(4) by (cases n) auto
  obtain o1 where o1: "print_members ms = Some o1" "out = ''{'' @ o1 @ ''}''" using J_Object.prems(2) by auto
  have d: "depth < CJSON_NESTING_LIMIT" using J_Object.prems(3) by simp
  have "parse_object (parse_value m) m depth (out @ rest) = P_Ok (J_Object ms, rest)"
  proof (cases "ms = []")
    case True
    then show ?thesis using o1 d by (simp add: parse_object_def)
  next
    case False
    have "parse_members (parse_value m (depth + 1)) m (o1 @ CHR ''}'' # rest) = P_Ok (ms, rest)"
    proof (rule parse_print_members [OF False _ o1(1)])
      show "\<forall>m \<in> set ms. NUL \<notin> set (fst m) \<and> json_ok (snd m)" using J_Object.prems(1) by simp
      show "length ms \<le> m" using print_members_length [OF o1(1)] J_Object.prems(4) o1(2) n by simp
      fix k v o' r
      assume a: "(k, v) \<in> set ms" "print_value v = Some o'" "ends_number r" "length (o' @ r) \<le> length (o1 @ CHR ''}'' # rest)"
      have "nesting v \<in> set (map (\<lambda>m. nesting (snd m)) ms)" using a(1) by force
      then have "nesting v \<le> foldr max (map (\<lambda>m. nesting (snd m)) ms) 0" by (rule foldr_max_ge)
      moreover have "json_ok v" using J_Object.prems(1) a(1) by auto
      ultimately show "parse_value m (depth + 1) (o' @ r) = P_Ok (v, r)"
        using J_Object.IH [of "(k, v)" v, OF a(1) _ _ a(2) _ _ a(3)] J_Object.prems(3,4) a(4) o1(2) n by simp
    qed
    moreover obtain k v ws where ms: "ms = (k, v) # ws" using False by (cases ms) auto
    then obtain t where "o1 = QUOTE # t" using o1(1) by (auto simp: print_string_ptr_def split: option.splits)
    ultimately show ?thesis using o1(2) d by (simp add: parse_object_def)
  qed
  then show ?case by (simp add: n o1(2) is_digit_def)
qed

lemma print_value_total:
  "json_ok v \<Longrightarrow> \<exists>out. print_value v = Some out"
  "\<forall>v \<in> set vs. json_ok v \<Longrightarrow> \<exists>out. print_elements vs = Some out"
  "\<forall>m \<in> set ms. NUL \<notin> set (fst m) \<and> json_ok (snd m) \<Longrightarrow> \<exists>out. print_members ms = Some out"
proof (induction v and vs and ms rule: print_value_print_elements_print_members.induct)
  case (4 d)
  then show ?case using parse_print_number(1) [of d "[]"] by (simp add: ends_number_def)
qed (auto split: option.splits)

lemma parse_elements_first:
  "(\<And>v r. pv (buffer_skip_whitespace s) \<noteq> P_Ok (v, r)) \<Longrightarrow> parse_elements pv m s \<noteq> P_Ok x"
  by (cases m) (auto split: parse_result.splits)

text \<open>No array is opened below the nesting limit.\<close>

lemma parse_deep_array:
  "CJSON_NESTING_LIMIT \<le> depth + k \<Longrightarrow>
   parse_value n depth (replicate (Suc k) (CHR ''['') @ s) \<noteq> P_Ok (v, r)"
proof (induction k arbitrary: n depth v r)
  case 0
  then show ?case by (cases n) (auto simp: parse_array_def is_digit_def)
next
  case (Suc k)
  show ?case
  proof (cases n)
    case (Suc m)
    let ?t = "replicate (Suc k) (CHR ''['') @ s"
    have "parse_elements (parse_value m (depth + 1)) m ?t \<noteq> P_Ok (vs, r')" for vs r'
      using Suc.IH [of "depth + 1" m] Suc.prems by (intro parse_elements_first) simp
    then have "parse_array (parse_value m) m depth (CHR ''['' # ?t) \<noteq> P_Ok (v, r)"
      by (auto simp: parse_array_def split: parse_result.splits)
    then show ?thesis by (simp add: Suc is_digit_def)
  qed simp
qed

declare parse_value.simps [simp del]

lemma cJSON_Parse_print:
  assumes "json_ok v" "nesting v \<le> CJSON_NESTING_LIMIT" "print_value v = Some out"
  shows "cJSON_Parse out = Some v"
proof -
  obtain c r where c: "out = c # r" "\<not> ws_char c" "c \<noteq> CHR 0xEF" using print_value_hd [OF assms(1,3)] by blast
  then have "buffer_skip_whitespace (skip_utf8_bom (out @ [NUL])) = out @ [NUL]"
    by (simp add: skip_utf8_bom_def)
  moreover have "ends_number [NUL]" by (simp add: ends_number_def number_char_def is_digit_def)
  then have "parse_value (length (out @ [NUL]) + 1) 0 (out @ [NUL]) = P_Ok (v, [NUL])"
    using assms by (intro parse_print_value) simp_all
  ultimately show ?thesis
    by (simp only: cJSON_Parse_def cJSON_ParseWithOpts_def Let_def parse_result.case prod.case)
qed

section \<open>Strings of a parsed value\<close>

text \<open>No string in a parsed value is longer than the text it was parsed from, and none has a NUL.\<close>

fun str_bound :: "nat \<Rightarrow> cJSON \<Rightarrow> bool" where
  "str_bound k (J_String s) \<longleftrightarrow> length s \<le> k \<and> NUL \<notin> set s"
| "str_bound k (J_Array vs) \<longleftrightarrow> (\<forall>v \<in> set vs. str_bound k v)"
| "str_bound k (J_Object ms) \<longleftrightarrow> (\<forall>m \<in> set ms. str_bound k (snd m))"
| "str_bound k _ \<longleftrightarrow> True"

lemma str_bound_mono: "str_bound k v \<Longrightarrow> k \<le> l \<Longrightarrow> str_bound l v"
  by (induction k v rule: str_bound.induct) auto

lemma utf8_encode_length: "utf8_encode cp = Some out \<Longrightarrow> length out \<le> 4"
  by (auto simp: utf8_encode_def split: if_splits)

lemma unescape_length: "unescape raw = Some out \<Longrightarrow> length out \<le> length raw"
proof (induction raw arbitrary: out rule: unescape.induct)
  case (2 c r)
  show ?case
  proof (cases "c = BSLASH \<and> r \<noteq> [] \<and> hd r = CHR ''u''")
    case True
    then obtain r' where r: "r = CHR ''u'' # r'" by (cases r) auto
    obtain o1 n where u: "utf16_literal_to_utf8 (c # r) = Some (o1, n)"
      using 2(4) True r by (auto split: option.splits)
    then obtain o2 where o2: "unescape (drop n (c # r)) = Some o2" "out = o1 @ o2"
      using 2(4) True r by auto
    have "length o1 \<le> 4" using u utf8_encode_length
      by (auto simp: utf16_literal_to_utf8_def Let_def split: if_splits)
    moreover have "length o2 \<le> length (drop n (c # r))"
      using 2(2) [of "CHR ''u''" r' "(o1, n)" o1 n] True r u o2(1) by simp
    ultimately show ?thesis using utf16_literal_length [OF u] o2(2) by auto
  next
    case False
    then show ?thesis using 2 by (auto split: if_splits list.splits option.splits) (use le_SucI in blast)
  qed
qed simp

lemma parse_string_bound: "parse_string s = Some (v, r) \<Longrightarrow> length v + length r \<le> length s \<and> NUL \<notin> set v"
proof -
  assume p: "parse_string s = Some (v, r)"
  then obtain t raw out where "s = QUOTE # t" "scan_string t = Some (raw, r)" "unescape raw = Some out" "v = c_str out"
    by (auto simp: parse_string_def split: list.splits if_splits option.splits)
  moreover have "length (c_str out) \<le> length out" by (simp add: c_str_def length_takeWhile_le)
  ultimately show ?thesis using scan_string_length [of t raw r] unescape_length [of raw out] by simp
qed

definition bounded_parser :: "value_parser \<Rightarrow> bool" where
  "bounded_parser pv \<longleftrightarrow> (\<forall>s v r. pv s = P_Ok (v, r) \<longrightarrow> str_bound (length s) v)"

lemma bounded_parser_skip:
  "bounded_parser pv \<Longrightarrow> pv (buffer_skip_whitespace s) = P_Ok (v, r) \<Longrightarrow> length s \<le> k \<Longrightarrow> str_bound k v"
  using str_bound_mono [of "length (buffer_skip_whitespace s)" v k] skip_whitespace_length [of s]
  unfolding bounded_parser_def by (meson order_trans)

lemma parse_elements_bound:
  assumes "bounded_parser pv" "shrinks pv"
  shows "parse_elements pv n s = P_Ok (vs, r) \<Longrightarrow> length s \<le> k \<Longrightarrow> \<forall>v \<in> set vs. str_bound k v"
proof (induction n arbitrary: s vs)
  case (Suc n)
  obtain v r0 where v: "pv (buffer_skip_whitespace s) = P_Ok (v, r0)"
    using Suc.prems by (auto split: parse_result.splits)
  obtain c r1 where c: "buffer_skip_whitespace r0 = c # r1"
    using Suc.prems v by (auto split: list.splits)
  have "length r1 \<le> k"
    using shrinks_skip [OF assms(2) v] skip_whitespace_Cons [OF c] Suc.prems(2) by simp
  then show ?case
    using Suc.prems Suc.IH [of r1] v c bounded_parser_skip [OF assms(1) v Suc.prems(2)]
    by (auto split: if_splits parse_result.splits)
qed simp

lemma parse_members_bound:
  assumes "bounded_parser pv" "shrinks pv"
  shows "parse_members pv n s = P_Ok (ms, r) \<Longrightarrow> length s \<le> k \<Longrightarrow> \<forall>m \<in> set ms. str_bound k (snd m)"
proof (induction n arbitrary: s ms)
  case (Suc n)
  obtain name r0 where nm: "parse_string (buffer_skip_whitespace s) = Some (name, r0)"
    using Suc.prems by (auto split: if_splits option.splits)
  obtain c0 r' where c0: "buffer_skip_whitespace r0 = c0 # r'" "c0 = CHR '':''"
    using Suc.prems nm by (auto split: if_splits list.splits)
  obtain v r2 where v: "pv (buffer_skip_whitespace r') = P_Ok (v, r2)"
    using Suc.prems nm c0 by (auto split: if_splits parse_result.splits)
  obtain c r1 where c: "buffer_skip_whitespace r2 = c # r1"
    using Suc.prems nm c0 v by (auto split: if_splits list.splits)
  have r': "length r' \<le> k"
    using parse_string_length [OF nm] skip_whitespace_Cons [OF c0(1)] skip_whitespace_length [of s] Suc.prems(2) by linarith
  then have "length r1 \<le> k"
    using shrinks_skip [OF assms(2) v] skip_whitespace_Cons [OF c] by simp
  then show ?case
    using Suc.prems Suc.IH [of r1] nm c0 v c bounded_parser_skip [OF assms(1) v r']
    by (fastforce split: if_splits parse_result.splits)
qed simp

lemma parse_value_cases:
  assumes "parse_value (Suc n) depth s = P_Ok (v, r)"
  obtains "v = J_Null \<or> v = J_False \<or> v = J_True" | t where "v = J_String t" "parse_string s = Some (t, r)"
  | d where "v = J_Number d" | "parse_array (parse_value n) n depth s = P_Ok (v, r)"
  | "parse_object (parse_value n) n depth s = P_Ok (v, r)"
proof (cases "take 4 s = ''null'' \<or> take 5 s = ''false'' \<or> take 4 s = ''true''")
  case True
  have "v = J_Null \<or> v = J_False \<or> v = J_True"
    using assms True unfolding parse_value.simps by (elim disjE) (simp_all split: if_splits)
  then show ?thesis by (rule that(1))
next
  case False
  then have p: "(case s of [] \<Rightarrow> P_Fail | c # _ \<Rightarrow>
      if c = QUOTE then (case parse_string s of None \<Rightarrow> P_Fail | Some (v, rest) \<Rightarrow> P_Ok (J_String v, rest))
      else if c = CHR ''-'' \<or> is_digit c then parse_number s
      else if c = CHR ''['' then parse_array (parse_value n) n depth s
      else if c = CHR ''{'' then parse_object (parse_value n) n depth s else P_Fail) = P_Ok (v, r)"
    using assms by (simp add: parse_value.simps)
  then obtain c t where s: "s = c # t" by (cases s) simp_all
  consider "c = QUOTE" | "c \<noteq> QUOTE" "c = CHR ''-'' \<or> is_digit c"
    | "c \<noteq> QUOTE" "\<not> (c = CHR ''-'' \<or> is_digit c)" "c = CHR ''[''"
    | "c \<noteq> QUOTE" "\<not> (c = CHR ''-'' \<or> is_digit c)" "c \<noteq> CHR ''[''" by blast
  then show ?thesis
  proof cases
    case 1
    then show ?thesis using p s that(2) by (auto split: option.splits)
  next
    case 2
    then have "parse_number s = P_Ok (v, r)" using p s by simp
    then show ?thesis using that(3) by (auto simp: parse_number_def split: option.splits)
  next
    case 3
    then have "parse_array (parse_value n) n depth s = P_Ok (v, r)" using p s by simp
    then show ?thesis by (rule that(4))
  next
    case 4
    then have "parse_object (parse_value n) n depth s = P_Ok (v, r)"
      using p s by (simp split: if_splits)
    then show ?thesis by (rule that(5))
  qed
qed

lemma parse_value_bound: "bounded_parser (parse_value n depth)"
proof (induction n arbitrary: depth)
  case 0
  show ?case by (simp add: bounded_parser_def parse_value.simps)
next
  case (Suc n)
  have arr: "str_bound (length s) v" if p: "parse_array (parse_value n) n depth s = P_Ok (v, r)" for s v r
  proof -
    obtain c t where s: "s = c # t" using p by (cases s) (auto simp: parse_array_def split: if_splits)
    obtain e t1 where e: "buffer_skip_whitespace t = e # t1"
      using p s by (auto simp: parse_array_def split: if_splits list.splits)
    have "length (e # t1) \<le> length s" using e skip_whitespace_length [of t] s by simp
    then show ?thesis
      using p s e parse_elements_bound [OF Suc parse_value_shrinks, of "depth + 1" n "e # t1"]
      by (fastforce simp: parse_array_def split: if_splits parse_result.splits prod.splits)
  qed
  have obj: "str_bound (length s) v" if p: "parse_object (parse_value n) n depth s = P_Ok (v, r)" for s v r
  proof -
    obtain c t where s: "s = c # t" using p by (cases s) (auto simp: parse_object_def split: if_splits)
    obtain e t1 where e: "buffer_skip_whitespace t = e # t1"
      using p s by (auto simp: parse_object_def split: if_splits list.splits)
    have "length (e # t1) \<le> length s" using e skip_whitespace_length [of t] s by simp
    then show ?thesis
      using p s e parse_members_bound [OF Suc parse_value_shrinks, of "depth + 1" n "e # t1"]
      by (fastforce simp: parse_object_def split: if_splits parse_result.splits prod.splits)
  qed
  show ?case
    unfolding bounded_parser_def
  proof (intro allI impI)
    fix s v r assume p: "parse_value (Suc n) depth s = P_Ok (v, r)"
    show "str_bound (length s) v"
      by (rule parse_value_cases [OF p]) (use arr obj parse_string_bound [of s] in auto)
  qed
qed

lemma cJSON_Parse_bound: "cJSON_Parse s = Some v \<Longrightarrow> str_bound (Suc (length s)) v"
proof -
  assume p: "cJSON_Parse s = Some v"
  let ?b = "buffer_skip_whitespace (skip_utf8_bom (s @ [NUL]))"
  obtain r where "parse_value (length ?b + 1) 0 ?b = P_Ok (v, r)"
    using p by (auto simp: cJSON_Parse_def cJSON_ParseWithOpts_def Let_def split: parse_result.splits)
  then have "str_bound (length ?b) v" using parse_value_bound unfolding bounded_parser_def by blast
  moreover have "length (skip_utf8_bom (s @ [NUL])) \<le> Suc (length s)" by (simp add: skip_utf8_bom_def)
  then have "length ?b \<le> Suc (length s)" using skip_whitespace_length order_trans by blast
  ultimately show ?thesis using str_bound_mono by blast
qed

section \<open>Properties\<close>

text \<open>
  C36: the parser always reaches a verdict. The recursion, which is bounded by the length of the
  buffer, never runs out: every input is either a value or rejected.
\<close>

theorem cjson_parse_total: "cJSON_ParseWithOpts s \<noteq> P_Fuel"
  unfolding cJSON_ParseWithOpts_def Let_def by (rule parse_value_fuel) simp



text \<open>
  The nesting limit. A text that opens more than a thousand arrays at its beginning is
  rejected, whatever follows, so the recursion of the parser is bounded on hostile input.
\<close>

lemma cjson_nesting_limit:
  assumes "CJSON_NESTING_LIMIT < k"
  shows "cJSON_Parse (replicate k (CHR ''['') @ s) = None"
proof -
  obtain j where k: "k = Suc j" using assms by (cases k) auto
  have "buffer_skip_whitespace (skip_utf8_bom ((replicate k (CHR ''['') @ s) @ [NUL])) = replicate (Suc j) (CHR ''['') @ s @ [NUL]"
    by (simp add: k skip_utf8_bom_def)
  then show ?thesis
    using parse_deep_array [of 0 j _ "s @ [NUL]"] assms k
    by (auto simp: cJSON_Parse_def cJSON_ParseWithOpts_def Let_def simp del: replicate_Suc append_assoc split: parse_result.splits)
qed

end
