(* ===== verification/Rtw_Base64.thy ===== *)
theory Rtw_Base64
  imports Rtw_Prelude
begin

text \<open>
  The base64 transport of the audio payload, \<open>src/core/rtw_base64.c\<close>.
\<close>

section \<open>Definitions\<close>

definition kEnc :: string where
  "kEnc = ''ABCDEFGHIJKLMNOPQRSTUVWXYZabcdefghijklmnopqrstuvwxyz0123456789+/''"

text \<open>\<open>dec_val\<close>: the value of a base64 digit, \<open>-1\<close> for any other character.\<close>

definition dec_val :: "char \<Rightarrow> int" where
  "dec_val c =
     (let n = (of_char c :: int) in
      if 65 \<le> n \<and> n \<le> 90 then n - 65
      else if 97 \<le> n \<and> n \<le> 122 then n - 97 + 26
      else if 48 \<le> n \<and> n \<le> 57 then n - 48 + 52
      else if c = CHR ''+'' then 62
      else if c = CHR ''/'' then 63
      else - 1)"

definition rtw_base64_encoded_len :: "nat \<Rightarrow> nat" where
  "rtw_base64_encoded_len in_len = 4 * ((in_len + 2) div 3) + 1"

text \<open>\<open>kEnc[(n >> k) & 63]\<close>\<close>

definition enc_digit :: "uint32 \<Rightarrow> nat \<Rightarrow> char" where
  "enc_digit n k = kEnc ! unat (drop_bit k n AND 63)"

text \<open>
  The loop of \<open>rtw_base64_encode\<close> (three input bytes per turn) and the tail of one or two bytes
  behind it.
\<close>

fun encode_groups :: "bytes \<Rightarrow> string" where
  "encode_groups (a # b # c # rest) =
     (let n = push_bit 16 (ucast a) OR push_bit 8 (ucast b) OR (ucast c :: uint32) in
      enc_digit n 18 # enc_digit n 12 # enc_digit n 6 # enc_digit n 0 # encode_groups rest)"
| "encode_groups [a, b] =
     (let n = push_bit 16 (ucast a) OR (push_bit 8 (ucast b) :: uint32) in
      [enc_digit n 18, enc_digit n 12, enc_digit n 6, CHR ''=''])"
| "encode_groups [a] =
     (let n = (push_bit 16 (ucast a) :: uint32) in
      [enc_digit n 18, enc_digit n 12, CHR ''='', CHR ''=''])"
| "encode_groups [] = []"

text \<open>
  \<open>rtw_base64_encode\<close> into a buffer of \<open>out_cap\<close> bytes: the text it writes (without the NUL),
  \<open>None\<close> for the return value 0 of its capacity check. The C function returns the length of
  the text.
\<close>

definition rtw_base64_encode :: "bytes \<Rightarrow> nat \<Rightarrow> string option" where
  "rtw_base64_encode inp out_cap =
     (if out_cap < rtw_base64_encoded_len (length inp) then None
      else Some (encode_groups inp))"

text \<open>
  The inner loop of \<open>rtw_base64_decode\<close>: collect up to four digits, skipping white space and
  counting the padding characters. The result is the rest of the input, the digit values
  (fewer than four at the end of the input) and the padding count; \<open>None\<close> for the early return
  on an invalid character.
\<close>

definition b64_space :: "char \<Rightarrow> bool" where
  "b64_space c \<longleftrightarrow> c = CHR '' '' \<or> c = CHR 0x0A \<or> c = CHR 0x0D \<or> c = CHR 0x09"

fun gather :: "string \<Rightarrow> int list \<Rightarrow> nat \<Rightarrow> (string \<times> int list \<times> nat) option" where
  "gather [] val pad = Some ([], val, pad)"
| "gather (c # cs) val pad =
     (if length val = 4 then Some (c # cs, val, pad)
      else if b64_space c then gather cs val pad
      else if c = CHR ''='' then gather cs (val @ [0]) (Suc pad)
      else if dec_val c < 0 then None
      else gather cs (val @ [dec_val c]) pad)"

text \<open>
  The outer loop. \<open>out\<close> holds the bytes written so far (\<open>o\<close> is its length). The bound check
  \<open>o + (size_t)(3 - pad) > out_cap\<close> is computed in \<open>size_t\<close>, so with a padding count of four it
  wraps around; a byte written at an index of at least \<open>out_cap\<close> is outside the buffer of the
  caller, outcome \<^const>\<open>UB\<close>. \<open>Ret None\<close> is the return value \<open>(size_t)-1\<close>.
\<close>

definition put :: "nat \<Rightarrow> bytes \<Rightarrow> uint8 \<Rightarrow> bytes c_exec" where
  "put out_cap out b = (if length out < out_cap then Ret (out @ [b]) else UB)"

definition put_if :: "bool \<Rightarrow> nat \<Rightarrow> bytes \<Rightarrow> uint8 \<Rightarrow> bytes c_exec" where
  "put_if p out_cap out b = (if p then put out_cap out b else Ret out)"

definition group_word :: "int list \<Rightarrow> uint32" where
  "group_word val =
     push_bit 18 (word_of_int (val ! 0)) OR push_bit 12 (word_of_int (val ! 1)) OR
     push_bit 6 (word_of_int (val ! 2)) OR word_of_int (val ! 3)"

definition check_sum :: "nat \<Rightarrow> nat \<Rightarrow> nat" where
  "check_sum l pad = nat ((int l + (3 - int pad)) mod int size_max)"

definition write_group :: "nat \<Rightarrow> bytes \<Rightarrow> int list \<Rightarrow> nat \<Rightarrow> bytes c_exec" where
  "write_group out_cap out val pad =
     (let n = group_word val in
      exec_bind (put out_cap out (ucast (drop_bit 16 n AND 0xFF))) (\<lambda>out1.
      exec_bind (put_if (pad < 2) out_cap out1 (ucast (drop_bit 8 n AND 0xFF))) (\<lambda>out2.
      put_if (pad < 1) out_cap out2 (ucast (n AND 0xFF)))))"

lemma gather_length: "gather cs val pad = Some (rest, val', pad') \<Longrightarrow> length rest \<le> length cs"
  by (induction cs val pad rule: gather.induct) (auto split: if_splits)

lemma gather_progress:
  assumes "gather cs [] 0 = Some (rest, val', pad')" "cs \<noteq> []"
  shows "length rest < length cs"
proof (cases cs)
  case (Cons c cs')
  then have "\<exists>val pad. gather cs' val pad = Some (rest, val', pad')"
    using assms(1) by (auto split: if_splits)
  then show ?thesis using Cons by (auto dest: gather_length)
qed (use assms in simp)

function decode_loop :: "nat \<Rightarrow> string \<Rightarrow> bytes \<Rightarrow> bytes option c_exec" where
  "decode_loop out_cap inp out =
     (if inp = [] then Ret (Some out)
      else case gather inp [] 0 of
        None \<Rightarrow> Ret None
      | Some (rest, val, pad) \<Rightarrow>
          if val = [] then Ret (Some out)
          else if length val \<noteq> 4 then Ret None
          else if check_sum (length out) pad > out_cap then Ret None
          else exec_bind (write_group out_cap out val pad) (\<lambda>out'. decode_loop out_cap rest out'))"
  by pat_completeness auto
termination
  by (relation "measure (\<lambda>(out_cap, inp, out). length inp)") (auto intro: gather_progress)

declare decode_loop.simps [simp del]

definition rtw_base64_decode :: "string \<Rightarrow> nat \<Rightarrow> bytes option c_exec" where
  "rtw_base64_decode inp out_cap = decode_loop out_cap inp []"

section \<open>Words of a group\<close>

lemma regroup:
  fixes n :: uint32
  assumes "take_bit 24 n = n"
  shows "push_bit 18 (drop_bit 18 n AND 63) OR push_bit 12 (drop_bit 12 n AND 63) OR
    push_bit 6 (drop_bit 6 n AND 63) OR (n AND 63) = n"
proof (rule bit_word_eqI)
  fix i
  have low: "bit n i \<Longrightarrow> i < 24"
    by (metis assms bit_take_bit_iff)
  show "bit (push_bit 18 (drop_bit 18 n AND 63) OR push_bit 12 (drop_bit 12 n AND 63) OR
    push_bit 6 (drop_bit 6 n AND 63) OR (n AND 63)) i = bit n i" if "i < LENGTH(32)"
    using that low
    by (cases "i < 6"; cases "i < 12"; cases "i < 18")
      (auto simp: and_take_bit_word bit_simps)
qed

lemma word24:
  fixes a b c :: uint8
  defines "n \<equiv> push_bit 16 (ucast a) OR push_bit 8 (ucast b) OR (ucast c :: uint32)"
  shows "take_bit 24 n = n" "ucast (drop_bit 16 n AND 0xFF) = a" "ucast (drop_bit 8 n AND 0xFF) = b"
    "ucast (n AND 0xFF) = c"
  unfolding n_def
  by (rule bit_word_eqI; auto simp: and_take_bit_word bit_simps not_less dest: bit_imp_le_length)+

lemma length_kEnc: "length kEnc = 64"
  by (simp add: kEnc_def)

lemma kEnc_digit:
  assumes "i < 64"
  shows "dec_val (kEnc ! i) = int i" "\<not> b64_space (kEnc ! i)" "kEnc ! i \<noteq> CHR ''=''"
proof -
  let ?P = "\<lambda>(i, c). dec_val c = int i \<and> \<not> b64_space c \<and> c \<noteq> CHR ''=''"
  note len = length_kEnc
  have "list_all ?P (enumerate 0 kEnc)"
    by (simp add: kEnc_def dec_val_def b64_space_def)
  then have "?P (enumerate 0 kEnc ! i)"
    unfolding list_all_length using assms len by simp
  then show "dec_val (kEnc ! i) = int i" "\<not> b64_space (kEnc ! i)" "kEnc ! i \<noteq> CHR ''=''"
    using assms len by (simp_all add: nth_enumerate_eq)
qed

lemma unat_and_63: "unat (w AND 63 :: uint32) < 64"
  using take_bit_nat_less_exp [of 6 "unat w"] by (simp add: and_take_bit_word unsigned_take_bit_eq)

declare gather.simps(2) [simp del]

lemma gather_full [simp]: "length val = 4 \<Longrightarrow> gather cs val pad = Some (cs, val, pad)"
  by (cases cs) (auto simp: gather.simps)

lemma gather_digit:
  "length val < 4 \<Longrightarrow>
    gather (enc_digit n k # cs) val pad = gather cs (val @ [uint (drop_bit k n AND 63)]) pad"
  by (simp add: gather.simps enc_digit_def kEnc_digit unat_and_63)

lemma gather_pad:
  "length val < 4 \<Longrightarrow> gather (CHR ''='' # cs) val pad = gather cs (val @ [0]) (Suc pad)"
  by (simp add: gather.simps b64_space_def)

lemma group_word_regroup:
  assumes "take_bit 24 n = n"
  shows "group_word [uint (drop_bit 18 n AND 63), uint (drop_bit 12 n AND 63),
     uint (drop_bit 6 n AND 63), uint (n AND 63)] = n"
  using regroup [OF assms] by (simp add: group_word_def)

lemma exec_put [simp]: "length out < cap \<Longrightarrow> put cap out b = Ret (out @ [b])"
  by (simp add: put_def)

lemma check_sum_small: "pad \<le> 3 \<Longrightarrow> l + 3 < size_max \<Longrightarrow> check_sum l pad = l + 3 - pad"
  by (simp add: check_sum_def)

lemma decode_loop_Nil [simp]: "decode_loop cap [] out = Ret (Some out)"
  by (simp add: decode_loop.simps)

lemma decode_loop_group:
  assumes "gather inp [] 0 = Some (rest, val, pad)" "inp \<noteq> []" "length val = 4"
    "pad \<le> 3" "length out + 3 < size_max" "length out + 3 - pad \<le> cap"
  shows "decode_loop cap inp out = exec_bind (write_group cap out val pad) (decode_loop cap rest)"
proof -
  have "val \<noteq> []" using assms(3) by auto
  then show ?thesis
    using assms by (subst decode_loop.simps) (simp add: check_sum_small)
qed

lemma decode_loop_triple:
  assumes "length out + 3 \<le> cap" "cap + 3 < size_max"
  shows "decode_loop cap (encode_groups [a, b, c] @ rest) out = decode_loop cap rest (out @ [a, b, c])"
proof -
  define n where "n = push_bit 16 (ucast a) OR push_bit 8 (ucast b) OR (ucast c :: uint32)"
  note w = word24 [of a b c, folded n_def]
  have "gather (encode_groups [a, b, c] @ rest) [] 0 =
     Some (rest, [uint (drop_bit 18 n AND 63), uint (drop_bit 12 n AND 63),
       uint (drop_bit 6 n AND 63), uint (n AND 63)], 0)"
    by (simp add: n_def [symmetric] gather_digit)
  from decode_loop_group [OF this] show ?thesis
    using assms by (simp add: write_group_def group_word_regroup w put_if_def Let_def)
qed

lemma encode_groups_triple: "encode_groups (a # b # c # rest) = encode_groups [a, b, c] @ encode_groups rest"
  by (simp add: Let_def)

lemma decode_loop_triples:
  "length inp mod 3 = 0 \<Longrightarrow> length out + length inp \<le> cap \<Longrightarrow> cap + 3 < size_max \<Longrightarrow>
    decode_loop cap (encode_groups inp @ suffix) out = decode_loop cap suffix (out @ inp)"
proof (induction inp arbitrary: out rule: encode_groups.induct)
  case (1 a b c rest)
  have "length rest mod 3 = 0" using 1(2) by (simp add: mod_Suc split: if_splits)
  then show ?case
    unfolding encode_groups_triple [of a b c rest] append_assoc
    using 1(1) [OF refl, of "out @ [a, b, c]"] 1(3,4) by (simp add: decode_loop_triple del: encode_groups.simps(1))
qed (simp_all add: mod_Suc)

lemma decode_encode_loop:
  "length out + length inp \<le> cap \<Longrightarrow> cap + 3 < size_max \<Longrightarrow>
    decode_loop cap (encode_groups inp) out = Ret (Some (out @ inp))"
proof (induction inp arbitrary: out rule: encode_groups.induct)
  case (1 a b c rest)
  then show ?case
    unfolding encode_groups_triple [of a b c rest] by (simp add: decode_loop_triple del: encode_groups.simps(1))
next
  case (2 a b)
  define n where "n = push_bit 16 (ucast a) OR push_bit 8 (ucast b) OR (ucast (0::uint8) :: uint32)"
  note w = word24 [of a b 0, folded n_def]
  have n6: "n AND 63 = 0"
    by (rule bit_word_eqI) (auto simp: and_take_bit_word n_def bit_simps)
  then have n0: "uint (n AND 63) = 0" by simp
  have enc: "encode_groups [a, b] = [enc_digit n 18, enc_digit n 12, enc_digit n 6, CHR ''='']"
    by (simp add: n_def Let_def)
  have "gather (encode_groups [a, b]) [] 0 =
     Some ([], [uint (drop_bit 18 n AND 63), uint (drop_bit 12 n AND 63),
       uint (drop_bit 6 n AND 63), uint (n AND 63)], 1)"
    unfolding n0 enc by (simp add: gather_digit gather_pad)
  from decode_loop_group [OF this] show ?case
    using 2 by (simp add: write_group_def group_word_regroup w put_if_def Let_def)
next
  case (3 a)
  define n where "n = push_bit 16 (ucast a) OR push_bit 8 (ucast (0::uint8)) OR (ucast (0::uint8) :: uint32)"
  note w = word24 [of a 0 0, folded n_def]
  have "n AND 63 = 0" "drop_bit 6 n AND 63 = 0"
    by (rule bit_word_eqI; auto simp: and_take_bit_word n_def bit_simps)+
  then have n0: "uint (n AND 63) = 0" "uint (drop_bit 6 n AND 63) = 0" by simp_all
  have enc: "encode_groups [a] = [enc_digit n 18, enc_digit n 12, CHR ''='', CHR ''='']"
    by (simp add: n_def Let_def)
  have "gather (encode_groups [a]) [] 0 =
     Some ([], [uint (drop_bit 18 n AND 63), uint (drop_bit 12 n AND 63),
       uint (drop_bit 6 n AND 63), uint (n AND 63)], 2)"
    unfolding n0 enc by (simp add: gather_digit gather_pad)
  from decode_loop_group [OF this] show ?case
    using 3 by (simp add: write_group_def group_word_regroup w put_if_def Let_def)
qed simp

lemma length_encode_groups: "length (encode_groups inp) = 4 * ((length inp + 2) div 3)"
proof (induction inp rule: encode_groups.induct)
  case (1 a b c rest)
  have "(length (a # b # c # rest) + 2) div 3 = Suc ((length rest + 2) div 3)" by simp
  then show ?case using 1 by (simp add: Let_def)
qed (simp_all add: Let_def)

lemma set_encode_groups: "set (encode_groups inp) \<subseteq> set kEnc \<union> {CHR ''=''}"
proof -
  have "enc_digit n k \<in> set kEnc" for n k
    using unat_and_63 [of "drop_bit k n"] by (simp add: enc_digit_def length_kEnc)
  then show ?thesis by (induction inp rule: encode_groups.induct) (auto simp: Let_def)
qed

lemma gather_count:
  "gather cs val pad = Some (rest, val', pad') \<Longrightarrow> length rest + length val' \<le> length cs + length val"
  by (induction cs val pad rule: gather.induct) (auto simp: gather.simps split: if_splits)

lemma write_group_safe:
  "length out + 3 \<le> cap \<Longrightarrow> \<exists>out'. write_group cap out val pad = Ret out' \<and> length out' \<le> length out + 3"
  by (auto simp: write_group_def Let_def put_if_def)

lemma decode_loop_cases:
  obtains (reject) "decode_loop cap inp out = Ret None"
  | (stop) "decode_loop cap inp out = Ret (Some out)"
  | (group) rest val pad where "gather inp [] 0 = Some (rest, val, pad)" "inp \<noteq> []" "length val = 4"
      "check_sum (length out) pad \<le> cap"
      "decode_loop cap inp out = exec_bind (write_group cap out val pad) (decode_loop cap rest)"
proof (cases "inp = [] \<or> gather inp [] 0 = None")
  case True
  then show thesis
    using reject stop by (cases "inp = []") (simp_all add: decode_loop.simps [of cap inp out])
next
  case False
  then obtain rest val pad where g: "gather inp [] 0 = Some (rest, val, pad)" "inp \<noteq> []" by auto
  then show thesis
    using reject stop group [OF g]
    by (cases "val = []"; cases "length val = 4"; cases "check_sum (length out) pad \<le> cap")
      (simp_all add: decode_loop.simps [of cap inp out])
qed

lemma decode_loop_safe:
  "length out + 3 * (length inp div 4) \<le> cap \<Longrightarrow> decode_loop cap inp out \<noteq> UB"
proof (induction "length inp" arbitrary: inp out rule: less_induct)
  case less
  show ?case
  proof (cases rule: decode_loop_cases [of cap inp out])
    case (group rest val pad)
    have l: "length rest + 4 \<le> length inp" using gather_count [OF group(1)] group(3) by simp
    then have "length rest div 4 + 1 \<le> length inp div 4" by linarith
    then have s: "length out + 3 + 3 * (length rest div 4) \<le> cap" using less.prems by linarith
    then obtain out' where out': "write_group cap out val pad = Ret out'" "length out' \<le> length out + 3"
      using write_group_safe [of out cap val pad] by auto
    have "decode_loop cap rest out' \<noteq> UB" using less.hyps [of rest out'] l s out' by simp
    then show ?thesis by (simp add: group(5) out'(1))
  qed simp_all
qed

abbreviation strip_space :: "string \<Rightarrow> string" where
  "strip_space \<equiv> filter (\<lambda>c. \<not> b64_space c)"

text \<open>What is decoded fits into the destination.\<close>

lemma put_fits: "put cap out b = Ret out' \<Longrightarrow> length out' \<le> cap"
  by (auto simp: put_def split: if_splits)

lemma put_if_fits: "put_if p cap out b = Ret out' \<Longrightarrow> length out \<le> cap \<Longrightarrow> length out' \<le> cap"
  by (auto simp: put_if_def dest: put_fits split: if_splits)

lemma write_group_fits: "write_group cap out val pad = Ret out' \<Longrightarrow> length out' \<le> cap"
  by (auto simp: write_group_def Let_def exec_bind_def dest!: put_fits put_if_fits split: c_exec.splits)

lemma decode_loop_fits: "decode_loop cap inp out = Ret (Some b) \<Longrightarrow> length out \<le> cap \<Longrightarrow> length b \<le> cap"
proof (induction "length inp" arbitrary: inp out rule: less_induct)
  case less
  show ?case
  proof (cases rule: decode_loop_cases [of cap inp out])
    case (group rest val pad)
    have "length rest < length inp" using gather_progress [OF group(1,2)] .
    moreover obtain out' where "write_group cap out val pad = Ret out'" "decode_loop cap rest out' = Ret (Some b)"
      using less.prems(1) group(5) by (cases "write_group cap out val pad") auto
    ultimately show ?thesis using less.hyps write_group_fits by blast
  qed (use less.prems in auto)
qed

lemma gather_strip:
  "gather (strip_space cs) val pad = map_option (\<lambda>(r, v, p). (strip_space r, v, p)) (gather cs val pad)"
  by (induction cs val pad rule: gather.induct) (auto simp: gather.simps)

lemma decode_loop_strip: "decode_loop cap (strip_space inp) out = decode_loop cap inp out"
proof (induction "length inp" arbitrary: inp out rule: less_induct)
  case less
  show ?case
  proof (cases "gather inp [] 0")
    case None
    then have "gather (strip_space inp) [] 0 = None" by (simp add: gather_strip)
    with None show ?thesis
      by (cases "strip_space inp = []") (auto simp: decode_loop.simps [of cap inp] decode_loop.simps [of cap "strip_space inp"])
  next
    case (Some g)
    obtain rest val pad where g: "gather inp [] 0 = Some (rest, val, pad)" using Some by (cases g) auto
    then have g': "gather (strip_space inp) [] 0 = Some (strip_space rest, val, pad)"
      by (simp add: gather_strip)
    have IH: "decode_loop cap (strip_space rest) = decode_loop cap rest" if "inp \<noteq> []"
      using less [of rest] gather_progress [OF g that] by (intro ext) simp
    show ?thesis
    proof (cases "strip_space inp = []")
      case True
      then have "val = []" using g' by simp
      then show ?thesis using True g by (simp add: decode_loop.simps [of cap inp])
    next
      case False
      then have "inp \<noteq> []" by auto
      then show ?thesis using False g g' IH
        by (simp add: decode_loop.simps [of cap inp] decode_loop.simps [of cap "strip_space inp"])
    qed
  qed
qed

section \<open>The payload codec as an interface\<close>

text \<open>
  What the message layer needs of the codec that carries audio inside JSON strings: encoded
  text needs no escaping, decoding inverts encoding whenever the destination is large enough,
  and decoding stays inside a destination of three bytes per four characters.
\<close>

locale payload_codec =
  fixes encode :: "bytes \<Rightarrow> string"
    and decode :: "string \<Rightarrow> nat \<Rightarrow> bytes option c_exec"
  assumes decode_encode: "length b \<le> cap \<Longrightarrow> cap + 3 < size_max \<Longrightarrow> decode (encode b) cap = Ret (Some b)"
    and encode_plain: "c \<in> set (encode b) \<Longrightarrow> plain_char c"
    and decode_fits: "decode t cap = Ret (Some b) \<Longrightarrow> length b \<le> cap"
    and decode_in_bounds: "3 * (length t div 4) \<le> cap \<Longrightarrow> decode t cap \<noteq> UB"
begin

lemma encode_no_nul: "NUL \<notin> set (encode b)"
  using encode_plain plain_char_not_nul by blast

lemma encode_inj:
  assumes "length a + 3 < size_max" "length b + 3 < size_max" "encode a = encode b"
  shows "a = b"
proof -
  let ?cap = "max (length a) (length b)"
  have "?cap + 3 < size_max" using assms(1,2) by (simp add: max_def)
  then have "decode (encode a) ?cap = Ret (Some a)" "decode (encode b) ?cap = Ret (Some b)"
    by (intro decode_encode; simp)+
  then show ?thesis using assms(3) by (metis c_exec.inject option.inject)
qed

end

lemma plain_base64: "c \<in> set (encode_groups b) \<Longrightarrow> plain_char c"
proof -
  have "list_all plain_char (CHR ''='' # kEnc)"
    by (simp add: kEnc_def plain_char_def)
  then show "c \<in> set (encode_groups b) \<Longrightarrow> plain_char c"
    using set_encode_groups [of b] by (auto simp: list_all_iff)
qed

interpretation b64: payload_codec encode_groups rtw_base64_decode
  by unfold_locales
    (simp_all add: rtw_base64_decode_def decode_encode_loop plain_base64 decode_loop_safe decode_loop_fits)

section \<open>Properties\<close>

text \<open>
  C28: round trip. What \<open>rtw_base64_encode\<close> writes, \<open>rtw_base64_decode\<close> reads back, for every
  byte string and every destination that holds it.
\<close>

theorem base64_roundtrip:
  assumes "rtw_base64_encode inp enc_cap = Some text" "length inp \<le> cap" "cap + 3 < size_max"
  shows "rtw_base64_decode text cap = Ret (Some inp)"
  using assms b64.decode_encode by (auto simp: rtw_base64_encode_def split: if_splits)

theorem base64_roundtrip_witness:
  "rtw_base64_encode [0, 1, 255, 126, 32] 64 = Some ''AAH/fiA='' \<and>
   rtw_base64_decode ''AAH/fiA='' 8 = Ret (Some [0, 1, 255, 126, 32])"
proof -
  have e: "rtw_base64_encode [0, 1, 255, 126, 32] 64 = Some ''AAH/fiA=''"
    by (simp add: rtw_base64_encode_def rtw_base64_encoded_len_def enc_digit_def kEnc_def)
  then show ?thesis using base64_roundtrip [OF e, of 8] by simp
qed

text \<open>
  Capacity. The encoder refuses a destination exactly when it is smaller than
  \<open>rtw_base64_encoded_len\<close>; otherwise the text and its NUL fill that length exactly, so no byte
  is written outside the destination.
\<close>

lemma base64_encode_fits:
  "(rtw_base64_encode inp cap = None \<longleftrightarrow> cap < rtw_base64_encoded_len (length inp)) \<and>
   (\<forall>text. rtw_base64_encode inp cap = Some text \<longrightarrow>
      length text + 1 = rtw_base64_encoded_len (length inp) \<and> length text + 1 \<le> cap)"
  by (auto simp: rtw_base64_encode_def rtw_base64_encoded_len_def length_encode_groups)

text \<open>
  C34: bounded decoding. With three bytes of destination for every four characters of input, the
  decoder never writes outside the destination, whatever the input is.
\<close>

theorem base64_decode_in_bounds:
  "3 * (length text div 4) \<le> cap \<Longrightarrow> rtw_base64_decode text cap \<noteq> UB"
  by (rule b64.decode_in_bounds)

theorem base64_decode_in_bounds_witness: "rtw_base64_decode ''AAAAA==='' 6 \<noteq> UB"
  by (rule base64_decode_in_bounds) simp

text \<open>
  The bound check of the decoder is not sufficient in general. After any text whose bytes
  fill the destination exactly, a group with three padding characters passes the check (it
  counts no byte) and still writes one byte behind the destination; with four, the
  \<open>size_t\<close> sum wraps around and the same happens.
\<close>

lemma base64_decode_overrun:
  assumes "length inp mod 3 = 0" "0 < length inp" "length inp + 3 < size_max"
  shows "rtw_base64_decode (encode_groups inp @ ''A==='') (length inp) = UB \<and>
    rtw_base64_decode (encode_groups inp @ ''===='') (length inp) = UB"
proof -
  have g: "gather ''A==='' [] 0 = Some ([], [0, 0, 0, 0], 3)" "gather ''===='' [] 0 = Some ([], [0, 0, 0, 0], 4)"
    by (simp_all add: gather.simps b64_space_def dec_val_def)
  have "decode_loop (length inp) ''A==='' inp = UB" "decode_loop (length inp) ''===='' inp = UB"
    using assms(2,3)
    by (subst decode_loop.simps, simp add: g check_sum_def write_group_def put_def Let_def)+
  then show ?thesis
    using decode_loop_triples [of inp "[]" "length inp"] assms by (simp_all add: rtw_base64_decode_def)
qed

lemma base64_decode_overrun_example:
  "rtw_base64_decode ''AAECA==='' 3 = UB \<and> rtw_base64_decode ''AAEC===='' 3 = UB"
  using base64_decode_overrun [of "[0, 1, 2]"] by (simp add: enc_digit_def kEnc_def numeral_3_eq_3)

text \<open>
  White space between the digits does not change the result.
\<close>

lemma base64_decode_ignores_space:
  "rtw_base64_decode (filter (\<lambda>c. \<not> b64_space c) text) cap = rtw_base64_decode text cap"
  by (simp add: rtw_base64_decode_def decode_loop_strip)

end
