(* ===== verification/Rtw_Protocol.thy ===== *)
theory Rtw_Protocol
  imports Cjson Rtw_Base64
begin

text \<open>
  The message codec, \<open>src/core/rtw_protocol.c\<close>: the builders of the five outbound messages and the
  parser of the peer's messages.
  \<^item> A builder returns the JSON text, \<open>None\<close> for NULL. Its last argument is the outcome of its
    allocations: with \<open>False\<close> it returns NULL. An optional string argument is \<open>None\<close> for NULL.
    The sources attach a child object and fill it afterwards; here it is filled first.
  \<^item> \<open>rtw_parse_inbound\<close> returns \<open>UB\<close> when the Base64 decoder writes outside the payload buffer,
    \<open>Ret None\<close> for the return code -1 and the event otherwise; the payload is the decoded prefix
    of the buffer. A number that does not fit \<open>uint32_t\<close> converts to an unspecified value:
    \<open>ev_sequence_number\<close> is then \<open>None\<close>.
\<close>

section \<open>Builders\<close>

definition default_account_sid :: string where
  "default_account_sid = ''AC00000000000000000000000000000000''"

definition default_call_sid :: string where
  "default_call_sid = ''CA00000000000000000000000000000000''"

definition copy_str :: "nat \<Rightarrow> string option \<Rightarrow> string" where
  "copy_str cap src = (case src of None \<Rightarrow> [] | Some s \<Rightarrow> snprintf_s cap s)"

definition seq_str :: "uint32 \<Rightarrow> string" where
  "seq_str seq = snprintf_s 32 (show_nat (unat seq))"

definition connected_json :: "string option \<Rightarrow> cJSON" where
  "connected_json version =
     (let root' = cJSON_AddStringToObject cJSON_CreateObject ''event'' ''connected'';
          root' = cJSON_AddStringToObject root' ''protocol'' ''Call'';
          root' = cJSON_AddStringToObject root' ''version'' (case version of Some v \<Rightarrow> v | None \<Rightarrow> ''1.0.0'');
          ext = cJSON_AddStringToObject cJSON_CreateObject ''compat'' ''twilio-media-streams'';
          ext = cJSON_AddStringToObject ext ''level'' ''L0''
      in cJSON_AddItemToObject root' ''mod_realtime_ws'' ext)"

definition rtw_build_connected :: "string option \<Rightarrow> bool \<Rightarrow> string option" where
  "rtw_build_connected version ok =
     (if \<not> ok then None else cJSON_PrintUnformatted (connected_json version))"

definition custom_json :: "string option \<Rightarrow> cJSON" where
  "custom_json custom_params =
     (case custom_params of
        None \<Rightarrow> cJSON_CreateObject
      | Some p \<Rightarrow> if p = [] then cJSON_CreateObject
                 else (case cJSON_Parse p of Some (J_Object ms) \<Rightarrow> J_Object ms | _ \<Rightarrow> cJSON_CreateObject))"

definition start_json :: "string \<Rightarrow> string option \<Rightarrow> string option \<Rightarrow> string option \<Rightarrow> uint32 \<Rightarrow> cJSON" where
  "start_json stream_sid account_sid call_sid custom_params seq =
     (let root' = cJSON_AddStringToObject cJSON_CreateObject ''event'' ''start'';
          root' = cJSON_AddStringToObject root' ''sequenceNumber'' (seq_str seq);
          root' = cJSON_AddStringToObject root' ''streamSid'' stream_sid;
          start = cJSON_AddStringToObject cJSON_CreateObject ''streamSid'' stream_sid;
          start = cJSON_AddStringToObject start ''accountSid''
                    (case account_sid of Some a \<Rightarrow> a | None \<Rightarrow> default_account_sid);
          start = cJSON_AddStringToObject start ''callSid''
                    (case call_sid of Some c \<Rightarrow> c | None \<Rightarrow> default_call_sid);
          tracks = cJSON_AddItemToArray cJSON_CreateArray (cJSON_CreateString ''inbound'');
          start = cJSON_AddItemToObject start ''tracks'' tracks;
          start = cJSON_AddItemToObject start ''customParameters'' (custom_json custom_params);
          fmt = cJSON_AddStringToObject cJSON_CreateObject ''encoding'' ''audio/x-mulaw'';
          fmt = cJSON_AddNumberToObject fmt ''sampleRate'' (Finite 8000);
          fmt = cJSON_AddNumberToObject fmt ''channels'' (Finite 1);
          start = cJSON_AddItemToObject start ''mediaFormat'' fmt
      in cJSON_AddItemToObject root' ''start'' start)"

definition rtw_build_start ::
  "string \<Rightarrow> string option \<Rightarrow> string option \<Rightarrow> string option \<Rightarrow> uint32 \<Rightarrow> bool \<Rightarrow> string option" where
  "rtw_build_start stream_sid account_sid call_sid custom_params seq ok =
     (if \<not> ok then None
      else cJSON_PrintUnformatted (start_json stream_sid account_sid call_sid custom_params seq))"

definition media_json :: "string \<Rightarrow> string option \<Rightarrow> uint32 \<Rightarrow> uint32 \<Rightarrow> uint32 \<Rightarrow> string \<Rightarrow> cJSON" where
  "media_json stream_sid track chunk timestamp_ms seq b64 =
     (let root' = cJSON_AddStringToObject cJSON_CreateObject ''event'' ''media'';
          root' = cJSON_AddStringToObject root' ''sequenceNumber'' (seq_str seq);
          root' = cJSON_AddStringToObject root' ''streamSid'' stream_sid;
          media = cJSON_AddStringToObject cJSON_CreateObject ''track''
                    (case track of Some t \<Rightarrow> t | None \<Rightarrow> ''inbound'');
          media = cJSON_AddStringToObject media ''chunk'' (seq_str chunk);
          media = cJSON_AddStringToObject media ''timestamp'' (seq_str timestamp_ms);
          media = cJSON_AddStringToObject media ''payload'' b64
      in cJSON_AddItemToObject root' ''media'' media)"

text \<open>The encoder's result 0 means failure to the builder: an empty payload is refused, too.\<close>

definition rtw_build_media ::
  "string \<Rightarrow> string option \<Rightarrow> uint32 \<Rightarrow> uint32 \<Rightarrow> uint32 \<Rightarrow> bytes \<Rightarrow> bool \<Rightarrow> string option" where
  "rtw_build_media stream_sid track chunk timestamp_ms seq mulaw ok =
     (if \<not> ok then None
      else case rtw_base64_encode mulaw (rtw_base64_encoded_len (length mulaw)) of
        None \<Rightarrow> None
      | Some b64 \<Rightarrow>
          if length b64 = 0 then None
          else cJSON_PrintUnformatted (media_json stream_sid track chunk timestamp_ms seq b64))"

definition mark_json :: "string \<Rightarrow> string \<Rightarrow> uint32 \<Rightarrow> cJSON" where
  "mark_json stream_sid name seq =
     (let root' = cJSON_AddStringToObject cJSON_CreateObject ''event'' ''mark'';
          root' = cJSON_AddStringToObject root' ''sequenceNumber'' (seq_str seq);
          root' = cJSON_AddStringToObject root' ''streamSid'' stream_sid;
          mark = cJSON_AddStringToObject cJSON_CreateObject ''name'' name
      in cJSON_AddItemToObject root' ''mark'' mark)"

definition rtw_build_mark :: "string \<Rightarrow> string \<Rightarrow> uint32 \<Rightarrow> bool \<Rightarrow> string option" where
  "rtw_build_mark stream_sid name seq ok =
     (if \<not> ok then None else cJSON_PrintUnformatted (mark_json stream_sid name seq))"

definition stop_json :: "string \<Rightarrow> string option \<Rightarrow> string option \<Rightarrow> uint32 \<Rightarrow> cJSON" where
  "stop_json stream_sid account_sid call_sid seq =
     (let root' = cJSON_AddStringToObject cJSON_CreateObject ''event'' ''stop'';
          root' = cJSON_AddStringToObject root' ''sequenceNumber'' (seq_str seq);
          root' = cJSON_AddStringToObject root' ''streamSid'' stream_sid;
          stop = cJSON_AddStringToObject cJSON_CreateObject ''accountSid''
                   (case account_sid of Some a \<Rightarrow> a | None \<Rightarrow> default_account_sid);
          stop = cJSON_AddStringToObject stop ''callSid''
                   (case call_sid of Some c \<Rightarrow> c | None \<Rightarrow> default_call_sid)
      in cJSON_AddItemToObject root' ''stop'' stop)"

definition rtw_build_stop :: "string \<Rightarrow> string option \<Rightarrow> string option \<Rightarrow> uint32 \<Rightarrow> bool \<Rightarrow> string option" where
  "rtw_build_stop stream_sid account_sid call_sid seq ok =
     (if \<not> ok then None else cJSON_PrintUnformatted (stop_json stream_sid account_sid call_sid seq))"

section \<open>Parsing the peer's messages\<close>

definition RTW_SID_MAX :: nat where "RTW_SID_MAX = 64"

definition RTW_MARK_NAME_MAX :: nat where "RTW_MARK_NAME_MAX = 128"

datatype rtw_event_type_t =
    RTW_EVT_UNKNOWN
  | RTW_EVT_CONNECTED
  | RTW_EVT_START
  | RTW_EVT_MEDIA
  | RTW_EVT_DTMF
  | RTW_EVT_MARK
  | RTW_EVT_CLEAR
  | RTW_EVT_STOP

record rtw_inbound_event_t =
  ev_type :: rtw_event_type_t
  ev_stream_sid :: string
  ev_mark_name :: string
  ev_track :: string
  ev_digit :: string
  ev_payload :: bytes
  ev_sequence_number :: "uint32 option"
  ev_chunk :: uint32
  ev_timestamp_ms :: uint32

definition zero_event :: rtw_inbound_event_t where
  "zero_event = \<lparr>ev_type = RTW_EVT_UNKNOWN, ev_stream_sid = [], ev_mark_name = [], ev_track = [],
     ev_digit = [], ev_payload = [], ev_sequence_number = Some 0, ev_chunk = 0, ev_timestamp_ms = 0\<rparr>"

definition map_event :: "string \<Rightarrow> rtw_event_type_t" where
  "map_event s =
     (if s = ''connected'' then RTW_EVT_CONNECTED
      else if s = ''start'' then RTW_EVT_START
      else if s = ''media'' then RTW_EVT_MEDIA
      else if s = ''dtmf'' then RTW_EVT_DTMF
      else if s = ''mark'' then RTW_EVT_MARK
      else if s = ''clear'' then RTW_EVT_CLEAR
      else if s = ''stop'' then RTW_EVT_STOP
      else RTW_EVT_UNKNOWN)"

definition u32_of_double :: "double \<Rightarrow> uint32 option" where
  "u32_of_double d = (case d of
     Infinite _ \<Rightarrow> None
   | Finite x \<Rightarrow> if - 1 < x \<and> x < 2 ^ 32 then Some (of_int (if 0 \<le> x then \<lfloor>x\<rfloor> else \<lceil>x\<rceil>)) else None)"

definition string_field :: "cJSON option \<Rightarrow> string \<Rightarrow> string option" where
  "string_field obj name =
     (case cJSON_GetObjectItemCaseSensitive obj name of Some (J_String s) \<Rightarrow> Some s | _ \<Rightarrow> None)"

definition u32_field :: "cJSON option \<Rightarrow> string \<Rightarrow> uint32" where
  "u32_field obj name = (case string_field obj name of Some s \<Rightarrow> ucast (strtoul10 s) | None \<Rightarrow> 0)"

definition parse_header :: "cJSON \<Rightarrow> string \<Rightarrow> rtw_inbound_event_t" where
  "parse_header root' event_name =
     zero_event\<lparr>ev_type := map_event event_name,
       ev_stream_sid := copy_str RTW_SID_MAX (string_field (Some root') ''streamSid''),
       ev_sequence_number :=
         (case cJSON_GetObjectItemCaseSensitive (Some root') ''sequenceNumber'' of
            Some (J_String s) \<Rightarrow> Some (ucast (strtoul10 s))
          | Some (J_Number d) \<Rightarrow> u32_of_double d
          | _ \<Rightarrow> Some 0)\<rparr>"

definition parse_media :: "cJSON \<Rightarrow> rtw_inbound_event_t \<Rightarrow> nat \<Rightarrow> rtw_inbound_event_t option c_exec" where
  "parse_media root' out payload_cap =
     (let media = cJSON_GetObjectItemCaseSensitive (Some root') ''media''
      in if \<not> cJSON_IsObject media then Ret None
         else let out = out\<lparr>ev_track := copy_str 32 (string_field media ''track''),
                            ev_chunk := u32_field media ''chunk'',
                            ev_timestamp_ms := u32_field media ''timestamp''\<rparr>
           in case string_field media ''payload'' of
                None \<Rightarrow> Ret None
              | Some payload_b64 \<Rightarrow>
                  exec_bind (rtw_base64_decode payload_b64 payload_cap)
                    (\<lambda>decoded. case decoded of
                       None \<Rightarrow> Ret None
                     | Some payload \<Rightarrow> Ret (Some (out\<lparr>ev_payload := payload\<rparr>))))"

definition rtw_parse_inbound :: "string \<Rightarrow> nat \<Rightarrow> rtw_inbound_event_t option c_exec" where
  "rtw_parse_inbound json payload_cap =
     (case cJSON_Parse json of
        None \<Rightarrow> Ret None
      | Some root' \<Rightarrow>
          (case string_field (Some root') ''event'' of
             None \<Rightarrow> Ret None
           | Some event_name \<Rightarrow>
               (let out = parse_header root' event_name
                in case ev_type out of
                     RTW_EVT_MEDIA \<Rightarrow> parse_media root' out payload_cap
                   | RTW_EVT_MARK \<Rightarrow>
                       Ret (Some (out\<lparr>ev_mark_name := copy_str RTW_MARK_NAME_MAX
                         (string_field (cJSON_GetObjectItemCaseSensitive (Some root') ''mark'') ''name'')\<rparr>))
                   | RTW_EVT_DTMF \<Rightarrow>
                       Ret (Some (out\<lparr>ev_digit := copy_str 8
                         (string_field (cJSON_GetObjectItemCaseSensitive (Some root') ''dtmf'') ''digit'')\<rparr>))
                   | _ \<Rightarrow> Ret (Some out))))"

section \<open>The built trees\<close>

lemmas json_build = cJSON_AddStringToObject_def cJSON_AddNumberToObject_def cJSON_AddItemToObject_def
  cJSON_AddItemToArray_def cJSON_CreateObject_def cJSON_CreateArray_def cJSON_CreateString_def
  cJSON_CreateNumber_def Let_def

lemmas json_get = string_field_def cJSON_GetObjectItemCaseSensitive_def get_object_item_def
  cJSON_IsObject_def u32_field_def

lemma unat_u32_bound: "unat (w :: uint32) < 10 ^ Suc 9"
  using unsigned_less [of w, where 'a = nat] by simp

lemma seq_str_eq: "seq_str w = show_nat (unat w)"
  using length_show_nat [OF unat_u32_bound, of w] by (simp add: seq_str_def snprintf_s_fits)

lemma show_nat_no_nul [simp]: "NUL \<notin> set (show_nat n)"
  using show_nat_digits plain_digit plain_char_not_nul by blast

lemma u32_of_seq_str [simp]: "ucast (strtoul10 (seq_str w)) = w"
proof -
  have "unat w < 2 ^ 64" using unsigned_less [of w, where 'a = nat] by simp
  then have "strtoul10 (seq_str w) = ucast w" by (simp add: seq_str_eq strtoul10_show_nat)
  moreover have "ucast (ucast w :: uint64) = w" by (rule bit_word_eqI) (auto simp: bit_simps)
  ultimately show ?thesis by simp
qed

lemma seq_str_no_nul [simp]: "NUL \<notin> set (seq_str w)"
  by (simp add: seq_str_eq)

lemma media_json_eq:
  "media_json sid track chunk ts seq b64 =
    J_Object [(''event'', J_String ''media''), (''sequenceNumber'', J_String (seq_str seq)), (''streamSid'', J_String sid),
      (''media'', J_Object [(''track'', J_String (case track of Some t \<Rightarrow> t | None \<Rightarrow> ''inbound'')),
         (''chunk'', J_String (seq_str chunk)), (''timestamp'', J_String (seq_str ts)), (''payload'', J_String b64)])]"
  by (simp add: media_json_def json_build)

lemma mark_json_eq:
  "mark_json sid name seq =
    J_Object [(''event'', J_String ''mark''), (''sequenceNumber'', J_String (seq_str seq)), (''streamSid'', J_String sid),
      (''mark'', J_Object [(''name'', J_String name)])]"
  by (simp add: mark_json_def json_build)

text \<open>A tree whose strings have no NUL is printed, and its text parses back to it.\<close>

lemma print_parse:
  assumes "json_ok v" "nesting v \<le> 1000" "cJSON_PrintUnformatted v = Some json"
  shows "cJSON_Parse json = Some v"
  using assms cJSON_Parse_print [of v json] by (simp add: cJSON_PrintUnformatted_def CJSON_NESTING_LIMIT_def)

lemma print_Some:
  assumes "json_ok v" shows "\<exists>json. cJSON_PrintUnformatted v = Some json"
  using print_value_total(1) [OF assms] by (simp add: cJSON_PrintUnformatted_def)

lemma encode_not_Nil: "mulaw \<noteq> [] \<Longrightarrow> encode_groups mulaw \<noteq> []"
  by (induction mulaw rule: encode_groups.induct) (simp_all add: Let_def)

lemma rtw_build_media_eq:
  "mulaw \<noteq> [] \<Longrightarrow> rtw_build_media sid track chunk ts seq mulaw True =
     cJSON_PrintUnformatted (media_json sid track chunk ts seq (encode_groups mulaw))"
  using encode_not_Nil [of mulaw] by (simp add: rtw_build_media_def rtw_base64_encode_def)

lemma media_json_ok:
  assumes "NUL \<notin> set sid" "NUL \<notin> set t"
  shows "json_ok (media_json sid (Some t) chunk ts seq (encode_groups mulaw))"
    "nesting (media_json sid (Some t) chunk ts seq (encode_groups mulaw)) = 2"
  using assms b64.encode_no_nul [of mulaw] by (simp_all add: media_json_eq)

lemma mark_json_ok:
  assumes "NUL \<notin> set sid" "NUL \<notin> set name"
  shows "json_ok (mark_json sid name seq)" "nesting (mark_json sid name seq) = 2"
  using assms by (simp_all add: mark_json_eq)

lemma start_json_eq:
  "start_json sid (Some acc) (Some call) cp seq =
    J_Object [(''event'', J_String ''start''), (''sequenceNumber'', J_String (seq_str seq)), (''streamSid'', J_String sid),
      (''start'', J_Object [(''streamSid'', J_String sid), (''accountSid'', J_String acc), (''callSid'', J_String call),
         (''tracks'', J_Array [J_String ''inbound'']), (''customParameters'', custom_json cp),
         (''mediaFormat'', J_Object [(''encoding'', J_String ''audio/x-mulaw''), (''sampleRate'', J_Number (Finite 8000)),
            (''channels'', J_Number (Finite 1))])])]"
  by (simp add: start_json_def json_build)

lemma stop_json_eq:
  "stop_json sid (Some acc) (Some call) seq =
    J_Object [(''event'', J_String ''stop''), (''sequenceNumber'', J_String (seq_str seq)), (''streamSid'', J_String sid),
      (''stop'', J_Object [(''accountSid'', J_String acc), (''callSid'', J_String call)])]"
  by (simp add: stop_json_def json_build)

lemma connected_json_eq:
  "connected_json (Some v) =
    J_Object [(''event'', J_String ''connected''), (''protocol'', J_String ''Call''), (''version'', J_String v),
      (''mod_realtime_ws'', J_Object [(''compat'', J_String ''twilio-media-streams''), (''level'', J_String ''L0'')])]"
  by (simp add: connected_json_def json_build)

lemma int_number_simps: "int_number (Finite 8000)" "int_number (Finite 1)"
  by (simp_all add: int_number_def int_of_double_def INT_MAX_def INT_MIN_def)

lemma custom_json_object: "\<exists>ms. custom_json cp = J_Object ms"
  by (auto simp: custom_json_def cJSON_CreateObject_def split: option.splits cJSON.splits)

lemma start_json_ok:
  assumes "NUL \<notin> set sid" "NUL \<notin> set acc" "NUL \<notin> set call" "json_ok (custom_json cp)"
  shows "json_ok (start_json sid (Some acc) (Some call) cp seq)"
  using assms by (simp add: start_json_eq int_number_simps)

lemma start_json_nesting: "nesting (custom_json cp) \<le> 998 \<Longrightarrow> nesting (start_json sid (Some acc) (Some call) cp seq) \<le> 1000"
  by (simp add: start_json_eq)

lemma decode_in_bounds_field:
  assumes "string_field obj name = Some t" "obj = Some v" "str_bound k v" "3 * (k div 4) \<le> cap"
  shows "rtw_base64_decode t cap \<noteq> UB"
proof (rule b64.decode_in_bounds)
  obtain ms where v: "v = J_Object ms" "(name, J_String t) \<in> set ms"
    using assms(1,2) by (auto simp: json_get find_Some_iff dest!: nth_mem split: cJSON.splits option.splits)
  then have "length t \<le> k" using assms(3) by fastforce
  then have "3 * (length t div 4) \<le> 3 * (k div 4)" by (simp add: div_le_mono)
  then show "3 * (length t div 4) \<le> cap" using assms(4) by simp
qed

lemma str_bound_get: "str_bound k v \<Longrightarrow> cJSON_GetObjectItemCaseSensitive (Some v) name = Some w \<Longrightarrow> str_bound k w"
  by (auto simp: json_get find_Some_iff dest!: nth_mem split: cJSON.splits)

lemma string_field_no_nul:
  assumes "string_field obj name = Some t" "obj = Some v" "str_bound k v"
  shows "NUL \<notin> set t"
  using assms by (auto simp: json_get find_Some_iff dest!: nth_mem split: cJSON.splits option.splits)

lemma length_copy_str: "0 < cap \<Longrightarrow> length (copy_str cap s) < cap"
  by (auto simp: copy_str_def split: option.splits)

lemma parse_header_fields:
  "ev_type (parse_header v nm) = map_event nm" "length (ev_stream_sid (parse_header v nm)) < RTW_SID_MAX"
  "ev_mark_name (parse_header v nm) = []" "ev_track (parse_header v nm) = []"
  "ev_digit (parse_header v nm) = []" "ev_payload (parse_header v nm) = []"
  by (simp_all add: parse_header_def zero_event_def length_copy_str RTW_SID_MAX_def)

lemma mark_parse:
  assumes "NUL \<notin> set sid" "length sid < RTW_SID_MAX" "NUL \<notin> set name" "length name < RTW_MARK_NAME_MAX"
  shows "\<exists>json. rtw_build_mark sid name seq True = Some json \<and>
    rtw_parse_inbound json cap =
      Ret (Some (zero_event\<lparr>ev_type := RTW_EVT_MARK, ev_stream_sid := sid, ev_mark_name := name,
        ev_sequence_number := Some seq\<rparr>))"
proof -
  note ok = mark_json_ok [OF assms(1,3), of seq]
  obtain json where j: "cJSON_PrintUnformatted (mark_json sid name seq) = Some json" using print_Some [OF ok(1)] by blast
  have "cJSON_Parse json = Some (mark_json sid name seq)" using print_parse [OF ok(1) _ j] ok(2) by simp
  then have "rtw_parse_inbound json cap =
      Ret (Some (zero_event\<lparr>ev_type := RTW_EVT_MARK, ev_stream_sid := sid, ev_mark_name := name,
        ev_sequence_number := Some seq\<rparr>))"
    using assms(2,4)
    by (simp add: rtw_parse_inbound_def mark_json_eq json_get parse_header_def map_event_def zero_event_def
        copy_str_def snprintf_s_fits)
  then show ?thesis using j by (simp add: rtw_build_mark_def)
qed

text \<open>With three bytes of buffer for every four characters the decoder stays within the buffer.\<close>

lemma parse_inbound_safe:
  assumes "3 * ((length json + 1) div 4) \<le> cap"
  shows "rtw_parse_inbound json cap \<noteq> UB"
proof (cases "cJSON_Parse json")
  case (Some v)
  have b: "str_bound (length json + 1) v" using cJSON_Parse_bound [OF Some] by simp
  have "parse_media v out cap \<noteq> UB" for out
    using decode_in_bounds_field [OF _ _ _ assms] str_bound_get [OF b]
    by (auto simp: parse_media_def Let_def cJSON_IsObject_def exec_bind_def split: option.splits c_exec.splits)
  then show ?thesis
    by (auto simp: rtw_parse_inbound_def Some Let_def split: option.splits rtw_event_type_t.splits)
qed (simp add: rtw_parse_inbound_def)

section \<open>Properties\<close>

text \<open>
  A media message survives the wire. What \<open>rtw_build_media\<close> produces for a stream, a track and
  a non-empty block of audio is read back by \<open>rtw_parse_inbound\<close> with every field intact: the
  event type, the identifiers, the three counters and the audio itself.
\<close>

lemma media_roundtrip:
  assumes "NUL \<notin> set sid" "length sid < RTW_SID_MAX" "NUL \<notin> set track" "length track < 32"
    and "mulaw \<noteq> []" "length mulaw \<le> cap" "cap + 3 < size_max"
  shows "\<exists>json. rtw_build_media sid (Some track) chunk ts seq mulaw True = Some json \<and>
    rtw_parse_inbound json cap =
      Ret (Some (zero_event\<lparr>ev_type := RTW_EVT_MEDIA, ev_stream_sid := sid, ev_track := track, ev_payload := mulaw,
        ev_sequence_number := Some seq, ev_chunk := chunk, ev_timestamp_ms := ts\<rparr>))"
proof -
  let ?v = "media_json sid (Some track) chunk ts seq (encode_groups mulaw)"
  note ok = media_json_ok [OF assms(1,3), of chunk ts seq mulaw]
  obtain json where j: "cJSON_PrintUnformatted ?v = Some json" using print_Some [OF ok(1)] by blast
  have "cJSON_Parse json = Some ?v" using print_parse [OF ok(1) _ j] ok(2) by simp
  moreover have "rtw_base64_decode (encode_groups mulaw) cap = Ret (Some mulaw)"
    using b64.decode_encode assms(6,7) by simp
  ultimately have "rtw_parse_inbound json cap =
      Ret (Some (zero_event\<lparr>ev_type := RTW_EVT_MEDIA, ev_stream_sid := sid, ev_track := track, ev_payload := mulaw,
        ev_sequence_number := Some seq, ev_chunk := chunk, ev_timestamp_ms := ts\<rparr>))"
    using assms(2,4)
    by (simp add: rtw_parse_inbound_def media_json_eq json_get parse_header_def map_event_def zero_event_def
        parse_media_def copy_str_def snprintf_s_fits)
  then show ?thesis using j assms(5) by (simp add: rtw_build_media_eq)
qed

lemma media_roundtrip_example:
  "\<exists>json. rtw_build_media ''MZ1'' (Some ''inbound'') 1 0 2 [255, 127] True = Some json \<and>
    rtw_parse_inbound json 65536 =
      Ret (Some (zero_event\<lparr>ev_type := RTW_EVT_MEDIA, ev_stream_sid := ''MZ1'', ev_track := ''inbound'', ev_payload := [255, 127],
        ev_sequence_number := Some 2, ev_chunk := 1, ev_timestamp_ms := 0\<rparr>))"
  by (rule media_roundtrip) (simp_all add: RTW_SID_MAX_def)

text \<open>
  A mark acknowledgement carries the name of the mark. The message built for a mark is read
  back as a mark event with the same stream, name and sequence number.
\<close>

lemma mark_roundtrip:
  assumes "NUL \<notin> set sid" "length sid < RTW_SID_MAX" "NUL \<notin> set name" "length name < RTW_MARK_NAME_MAX"
  shows "\<exists>json. rtw_build_mark sid name seq True = Some json \<and>
    rtw_parse_inbound json cap =
      Ret (Some (zero_event\<lparr>ev_type := RTW_EVT_MARK, ev_stream_sid := sid, ev_mark_name := name,
        ev_sequence_number := Some seq\<rparr>))"
  using assms by (rule mark_parse)

text \<open>
  The start message. It is always printed, and its text parses to the announced object: the
  identifiers, the inbound track, the fixed 8 kHz mu-law format, and as \<open>customParameters\<close> the
  object given by the caller or, when that is absent or not a JSON object, the empty object.
\<close>

lemma start_message:
  assumes "NUL \<notin> set sid" "NUL \<notin> set acc" "NUL \<notin> set call"
    and "json_ok (custom_json cp)" "nesting (custom_json cp) \<le> 998"
  shows "\<exists>json. rtw_build_start sid (Some acc) (Some call) cp seq True = Some json \<and>
    cJSON_Parse json = Some (start_json sid (Some acc) (Some call) cp seq) \<and>
    cJSON_GetObjectItemCaseSensitive
      (cJSON_GetObjectItemCaseSensitive (cJSON_Parse json) ''start'') ''customParameters'' = Some (custom_json cp) \<and>
    (\<exists>ms. custom_json cp = J_Object ms)"
proof -
  note ok = start_json_ok [OF assms(1-4), of seq]
  obtain json where j: "cJSON_PrintUnformatted (start_json sid (Some acc) (Some call) cp seq) = Some json"
    using print_Some [OF ok] by blast
  have "cJSON_Parse json = Some (start_json sid (Some acc) (Some call) cp seq)"
    using print_parse [OF ok start_json_nesting [OF assms(5)] j] .
  then show ?thesis using j custom_json_object [of cp]
    by (simp add: rtw_build_start_def json_get start_json_eq)
qed

text \<open>
  Every field of a parsed event fits its array, terminator included, and the payload fits
  the payload buffer, whatever the peer sends.
\<close>

lemma event_fields_fit:
  assumes "rtw_parse_inbound json cap = Ret (Some ev)"
  shows "length (ev_stream_sid ev) < RTW_SID_MAX \<and> length (ev_mark_name ev) < RTW_MARK_NAME_MAX \<and>
    length (ev_track ev) < 32 \<and> length (ev_digit ev) < 8 \<and> length (ev_payload ev) \<le> cap"
proof -
  have sizes: "0 < RTW_SID_MAX" "0 < RTW_MARK_NAME_MAX" by (simp_all add: RTW_SID_MAX_def RTW_MARK_NAME_MAX_def)
  have m: "length (ev_stream_sid ev) < RTW_SID_MAX \<and> length (ev_mark_name ev) < RTW_MARK_NAME_MAX \<and>
    length (ev_track ev) < 32 \<and> length (ev_digit ev) < 8 \<and> length (ev_payload ev) \<le> cap"
    if "parse_media v (parse_header v nm) cap = Ret (Some ev)" for v nm
    using that b64.decode_fits
    by (auto simp: parse_media_def Let_def exec_bind_def parse_header_fields sizes length_copy_str
        split: if_splits option.splits c_exec.splits)
  show ?thesis
    using assms m
    by (auto simp: rtw_parse_inbound_def Let_def parse_header_fields sizes length_copy_str
        split: option.splits rtw_event_type_t.splits)
qed

end
