(* ===== verification/Rtw_Mulaw.thy ===== *)
theory Rtw_Mulaw
  imports Rtw_Prelude
begin

text \<open>
  The G.711 \<open>\<mu>\<close>-law codec, \<open>src/core/rtw_mulaw.c\<close>.
\<close>

definition BIAS :: int where
  "BIAS = 0x84"

definition CLIP :: int where
  "CLIP = 32635"

definition exp_lut :: "nat list" where
  "exp_lut =
     [0, 0, 1, 1, 2, 2, 2, 2, 3, 3, 3, 3, 3, 3, 3, 3,
      4, 4, 4, 4, 4, 4, 4, 4, 4, 4, 4, 4, 4, 4, 4, 4,
      5, 5, 5, 5, 5, 5, 5, 5, 5, 5, 5, 5, 5, 5, 5, 5,
      5, 5, 5, 5, 5, 5, 5, 5, 5, 5, 5, 5, 5, 5, 5, 5,
      6, 6, 6, 6, 6, 6, 6, 6, 6, 6, 6, 6, 6, 6, 6, 6,
      6, 6, 6, 6, 6, 6, 6, 6, 6, 6, 6, 6, 6, 6, 6, 6,
      6, 6, 6, 6, 6, 6, 6, 6, 6, 6, 6, 6, 6, 6, 6, 6,
      6, 6, 6, 6, 6, 6, 6, 6, 6, 6, 6, 6, 6, 6, 6, 6,
      7, 7, 7, 7, 7, 7, 7, 7, 7, 7, 7, 7, 7, 7, 7, 7,
      7, 7, 7, 7, 7, 7, 7, 7, 7, 7, 7, 7, 7, 7, 7, 7,
      7, 7, 7, 7, 7, 7, 7, 7, 7, 7, 7, 7, 7, 7, 7, 7,
      7, 7, 7, 7, 7, 7, 7, 7, 7, 7, 7, 7, 7, 7, 7, 7,
      7, 7, 7, 7, 7, 7, 7, 7, 7, 7, 7, 7, 7, 7, 7, 7,
      7, 7, 7, 7, 7, 7, 7, 7, 7, 7, 7, 7, 7, 7, 7, 7,
      7, 7, 7, 7, 7, 7, 7, 7, 7, 7, 7, 7, 7, 7, 7, 7,
      7, 7, 7, 7, 7, 7, 7, 7, 7, 7, 7, 7, 7, 7, 7, 7]"

text \<open>
  The C code promotes \<open>sample\<close> to \<open>int\<close> in every expression and converts back to
  \<open>int16_t\<close> at every assignment; \<^const>\<open>sint\<close> is the promotion and \<^const>\<open>word_of_int\<close>
  the conversion (two's complement, as every compiler of the project defines it). The shift
  of a negative \<open>int\<close> to the right is arithmetic, as \<^const>\<open>drop_bit\<close> on \<^typ>\<open>int\<close> is.
\<close>

definition rtw_linear_to_mulaw :: "int16 \<Rightarrow> uint8" where
  "rtw_linear_to_mulaw sample =
     (let sign = drop_bit 8 (sint sample) AND 0x80;
          sample1 = (if sign \<noteq> 0 then word_of_int (- sint sample) else sample);
          sample2 = (if sint sample1 > CLIP then word_of_int CLIP else sample1);
          sample3 = (word_of_int (sint sample2 + BIAS) :: int16);
          exponent = exp_lut ! nat (drop_bit 7 (sint sample3) AND 0xFF);
          mantissa = drop_bit (exponent + 3) (sint sample3) AND 0x0F
      in word_of_int (NOT (sign OR push_bit 4 (int exponent) OR mantissa)))"

definition rtw_mulaw_to_linear :: "uint8 \<Rightarrow> int16" where
  "rtw_mulaw_to_linear mulaw0 =
     (let mulaw = NOT mulaw0;
          sign = uint mulaw AND 0x80;
          exponent = drop_bit 4 (uint mulaw) AND 0x07;
          mantissa = uint mulaw AND 0x0F;
          sample = push_bit (nat exponent) (push_bit 3 mantissa + BIAS) - BIAS
      in word_of_int (if sign \<noteq> 0 then - sample else sample))"

definition rtw_pcm16_to_mulaw :: "int16 list \<Rightarrow> bytes" where
  "rtw_pcm16_to_mulaw pcm = map rtw_linear_to_mulaw pcm"

definition rtw_mulaw_to_pcm16 :: "bytes \<Rightarrow> int16 list" where
  "rtw_mulaw_to_pcm16 mulaw = map rtw_mulaw_to_linear mulaw"

section \<open>The code of a sample: sign, segment and mantissa\<close>

lemma mulaw_code_sum:
  assumes "e < 8" "0 \<le> m" "m < (16::int)"
  shows "(if neg then 0x80 else 0) OR push_bit 4 (int e) OR m = (if neg then 128 else 0) + 16 * int e + m"
proof -
  have 1: "push_bit 4 (int e) OR m = int e * 16 + m"
    using or_low_bits [of m 4 "int e"] assms by simp
  have "push_bit 7 1 OR (int e * 16 + m) = 1 * 2 ^ 7 + (int e * 16 + m)"
    using assms by (intro or_low_bits) auto
  then show ?thesis using 1 by (simp add: or.assoc)
qed

lemma mulaw_fields:
  fixes i m x :: int and neg :: bool
  assumes "0 \<le> i" "i < 8" "0 \<le> m" "m < (16::int)"
  defines "x \<equiv> (if neg then 128 else 0) + 16 * i + m"
  shows "x div 16 mod 8 = i" "x mod 16 = m" "x div 128 = (if neg then 1 else 0)" "0 \<le> x" "x < 256"
proof -
  have x: "x = 16 * ((if neg then 8 else 0) + i) + m" by (simp add: x_def)
  show "x mod 16 = m"
    using assms(3,4) by (simp only: x mod_mult_self4 mod_pos_pos_trivial)
  have d: "x div 16 = (if neg then 8 else 0) + i"
    using assms(3,4) by (simp only: x div_mult_self4 div_pos_pos_trivial)
  show "x div 16 mod 8 = i" using assms(1,2) by (simp add: d)
  have "x div 128 = x div 16 div 8" by (simp add: zdiv_zmult2_eq [symmetric])
  also have "\<dots> = (if neg then 1 else 0)"
    using assms(1,2) div_add_self1 [of 8 i] div_pos_pos_trivial [of i 8] by (simp add: d)
  finally show "x div 128 = (if neg then 1 else 0)" .
  show "0 \<le> x" "x < 256" using assms(1-4) by (simp_all add: x)
qed

lemma mulaw_decode_code:
  assumes "e < 8" "0 \<le> m" "m < (16::int)"
  shows "rtw_mulaw_to_linear (word_of_int (NOT ((if neg then 0x80 else 0) OR push_bit 4 (int e) OR m))) =
     word_of_int (if neg then 132 - (8 * m + 132) * 2 ^ e else (8 * m + 132) * 2 ^ e - 132)"
proof -
  define x where "x = (if neg then 128 else 0) + 16 * int e + m"
  have code: "(if neg then 0x80 else 0) OR push_bit 4 (int e) OR m = x"
    using mulaw_code_sum [OF assms, of neg] by (simp add: x_def)
  note f = mulaw_fields [of "int e" m neg, folded x_def]
  have "uint (word_of_int x :: uint8) = x"
    using f assms by (intro uint_word_of_int8) auto
  moreover have "bit x 7 \<longleftrightarrow> neg"
    using f assms by (simp add: bit_iff_odd)
  moreover have "drop_bit 4 x mod 8 = int e" "x mod 16 = m"
    using f assms by (simp_all add: drop_bit_eq_div)
  ultimately show ?thesis
    unfolding code
    by (simp add: rtw_mulaw_to_linear_def Let_def and_mask_int and_128_int BIAS_def
        push_bit_eq_mult not_word_of_int_not mult.commute)
qed

lemma sign_of_sample: "drop_bit 8 (sint (s::int16)) AND 0x80 = (if sint s < 0 then 0x80 else 0)"
proof -
  have "sint s div 32768 = (if sint s < 0 then - 1 else 0)"
    using sint_range16 [of s] by auto
  then have "bit (drop_bit 8 (sint s)) 7 \<longleftrightarrow> sint s < 0"
    by (simp add: bit_drop_bit_eq bit_iff_odd)
  then show ?thesis by (simp add: and_128_int)
qed

lemma exp_lut_eq:
  "exp_lut = [0,0] @ replicate 2 1 @ replicate 4 2 @ replicate 8 3 @ replicate 16 4 @
     replicate 32 5 @ replicate 64 6 @ replicate 128 7"
  by (simp add: exp_lut_def replicate_numeral_rec)

lemma exp_lut_log2:
  "k < 256 \<Longrightarrow> k \<noteq> 0 \<Longrightarrow> exp_lut ! k < 8 \<and> 2 ^ (exp_lut ! k) \<le> k \<and> k < 2 ^ (exp_lut ! k + 1)"
  by (auto simp: exp_lut_eq nth_append nth_Cons')

lemma segment_of_magnitude:
  assumes "132 \<le> b" "b \<le> (32767::int)"
  defines "e \<equiv> exp_lut ! nat (b div 128)"
  shows "e < 8" "2 ^ (e + 7) \<le> b" "b < 2 ^ (e + 8)"
    "16 \<le> b div 2 ^ (e + 3)" "b div 2 ^ (e + 3) < 32"
proof -
  obtain k where k: "b div 128 = int k"
    using assms(1) by (metis nonneg_int_cases pos_imp_zdiv_nonneg_iff zero_less_numeral order_trans zero_le_numeral)
  have "k < 256" "k \<noteq> 0" using assms(1,2) k by auto
  note l = exp_lut_log2 [OF this]
  have e: "e = exp_lut ! k" by (simp add: e_def k)
  show "e < 8" using l by (simp add: e)
  have "int (2 ^ e) \<le> int k" "int k < int (2 ^ (e + 1))"
    using l unfolding e by (simp_all only: of_nat_le_iff of_nat_less_iff)
  then have "2 ^ e \<le> b div 128" "b div 128 < 2 ^ (e + 1)"
    by (simp_all add: k)
  then show lo: "2 ^ (e + 7) \<le> b" and hi: "b < 2 ^ (e + 8)"
    by (auto simp: power_add)
  show "16 \<le> b div 2 ^ (e + 3)" "b div 2 ^ (e + 3) < 32"
    using int_div_bounds [of "2 ^ (e + 3)" 16 b 32] lo hi by (simp_all add: power_add)
qed

lemma sint_mulaw_decode_code:
  assumes "e < 8" "0 \<le> m" "m < (16::int)"
  shows "sint (rtw_mulaw_to_linear (word_of_int (NOT ((if neg then 0x80 else 0) OR push_bit 4 (int e) OR m)))) =
     (if neg then - ((8 * m + 132) * 2 ^ e - 132) else (8 * m + 132) * 2 ^ e - 132)"
proof -
  have "(2::int) ^ e \<le> 2 ^ 7" using assms(1) by (intro power_increasing) auto
  then have "(8 * m + 132) * 2 ^ e \<le> 252 * 128"
    using assms by (intro mult_mono) auto
  moreover have "132 * 1 \<le> (8 * m + 132) * 2 ^ e"
    using assms by (intro mult_mono) auto
  ultimately show ?thesis
    unfolding mulaw_decode_code [OF assms] by (subst sint_word_of_int16) auto
qed

lemma mulaw_encode:
  assumes "sint s \<noteq> - 32768"
  defines "b \<equiv> min \<bar>sint s\<bar> CLIP + BIAS"
  defines "e \<equiv> exp_lut ! nat (b div 128)"
  defines "m \<equiv> b div 2 ^ (e + 3) - 16"
  shows "rtw_linear_to_mulaw s =
      word_of_int (NOT ((if sint s < 0 then 0x80 else 0) OR push_bit 4 (int e) OR m))"
    "132 \<le> b" "b \<le> 32767" "e < 8" "0 \<le> m" "m < 16"
proof -
  have r: "- 32767 \<le> sint s" "sint s \<le> 32767" using sint_range16 [of s] assms(1) by auto
  show b: "132 \<le> b" "b \<le> 32767" using r by (auto simp: b_def BIAS_def CLIP_def)
  note seg = segment_of_magnitude [OF b, folded e_def]
  show "e < 8" "0 \<le> m" "m < 16" using seg by (auto simp: m_def)
  define s1 :: int16 where
    "s1 = (if (if sint s < 0 then 0x80 else 0) \<noteq> (0::int) then word_of_int (- sint s) else s)"
  define s2 :: int16 where "s2 = (if sint s1 > CLIP then word_of_int CLIP else s1)"
  have "sint (word_of_int (- sint s) :: int16) = - sint s"
    using r by (intro sint_word_of_int16) auto
  then have "sint s1 = \<bar>sint s\<bar>" by (auto simp: s1_def)
  then have "sint s2 = min \<bar>sint s\<bar> CLIP" by (auto simp: s2_def CLIP_def)
  then have "sint s2 + BIAS = b" by (simp add: b_def)
  then have s3: "sint (word_of_int (sint s2 + BIAS) :: int16) = b"
    using b by (simp only: sint_word_of_int16)
  have seven: "drop_bit 7 b mod 256 = b div 128" using b by (simp add: drop_bit_eq_div)
  have mant: "drop_bit (e + 3) b mod 16 = m"
  proof -
    have "q mod 16 = q - 16" if "16 \<le> q" "q < 32" for q :: int
      using that mod_pos_geq [of 16 q] mod_pos_pos_trivial [of "q - 16" 16] by simp
    from this [OF seg(4,5)] show ?thesis by (simp add: drop_bit_eq_div m_def)
  qed
  show "rtw_linear_to_mulaw s =
      word_of_int (NOT ((if sint s < 0 then 0x80 else 0) OR push_bit 4 (int e) OR m))"
    unfolding rtw_linear_to_mulaw_def Let_def sign_of_sample
    by (simp only: s1_def [symmetric] s2_def [symmetric] s3 and_mask_int seven e_def [symmetric] mant)
qed

lemma exp_lut_unique:
  assumes "k < 256" "2 ^ e \<le> k" "k < 2 ^ (e + 1)"
  shows "exp_lut ! k = e"
proof -
  have "k \<noteq> 0" using assms(2) by (metis le_zero_eq power_not_zero zero_neq_numeral)
  note l = exp_lut_log2 [OF assms(1) this]
  have "(2::nat) ^ e < 2 ^ (exp_lut ! k + 1)" "(2::nat) ^ (exp_lut ! k) < 2 ^ (e + 1)"
    using l assms by linarith+
  then show ?thesis by (simp only: power_strict_increasing_iff one_less_numeral_iff semiring_norm)
qed

lemma mulaw_fields_of_byte:
  fixes x :: int
  assumes "0 \<le> x" "x < 256"
  shows "x = (if 128 \<le> x then 128 else 0) + 16 * int (nat (x div 16 mod 8)) + x mod 16"
proof -
  have combine: "x' = (if P then 128 else 0) + 16 * k + r"
    if "16 * q + r = x'" "8 * n + k = q" "n = (if P then 1 else 0)" for x' q r n k :: int and P
    using that by (cases P) auto
  have "x div 16 div 8 = (if 128 \<le> x then 1 else 0)"
    using assms by (auto simp: zdiv_zmult2_eq [symmetric])
  from combine [OF mult_div_mod_eq mult_div_mod_eq this] show ?thesis by simp
qed

lemma mulaw_segment_value:
  assumes "e < 8" "0 \<le> m" "m < (16::int)"
  defines "b \<equiv> (8 * m + 132) * 2 ^ e"
  shows "132 \<le> b" "b \<le> 32256" "exp_lut ! nat (b div 128) = e" "b div 2 ^ (e + 3) - 16 = m"
proof -
  have p: "(1::int) \<le> 2 ^ e" "(2::int) ^ e \<le> 2 ^ 7"
    using assms(1) power_increasing [of e 7 "2::int"] by auto
  have "132 * 1 \<le> b" unfolding b_def using assms p by (intro mult_mono) auto
  then show b1: "132 \<le> b" by simp
  have "b \<le> 252 * 2 ^ 7" unfolding b_def using assms p by (intro mult_mono) auto
  then show b2: "b \<le> 32256" by simp
  have "2 ^ e * 128 \<le> b" "b < 2 ^ (e + 1) * 128"
    using assms(2,3) by (auto simp: b_def algebra_simps)
  note k = int_div_bounds [OF _ this, simplified]
  show "exp_lut ! nat (b div 128) = e"
  proof (rule exp_lut_unique)
    show "nat (b div 128) < 256" using b2 by auto
    show "2 ^ e \<le> nat (b div 128)" using k by (simp add: le_nat_iff)
    show "nat (b div 128) < 2 ^ (e + 1)" using k by (simp add: nat_less_iff)
  qed
  have "b = 4 * 2 ^ e + (m + 16) * 2 ^ (e + 3)" by (simp add: b_def power_add algebra_simps)
  moreover have "4 * 2 ^ e div 2 ^ (e + 3) = (0::int)" by (rule div_pos_pos_trivial) (simp_all add: power_add)
  ultimately show "b div 2 ^ (e + 3) - 16 = m" by simp
qed

section \<open>Properties\<close>



text \<open>
  Every code is a fixed point of decoding followed by encoding, except the second code of
  zero (\<open>0x7F\<close>, negative zero), which is normalised to \<open>0xFF\<close>.
\<close>

lemma mulaw_recode:
  "rtw_linear_to_mulaw (rtw_mulaw_to_linear c) = (if c = 0x7F then 0xFF else c)"
proof -
  define x where "x = uint (NOT c)"
  define neg where "neg \<longleftrightarrow> 128 \<le> x"
  define e where "e = nat (x div 16 mod 8)"
  define m where "m = x mod 16"
  have x: "0 \<le> x" "x < 256" using uint_lt2p [of "NOT c"] by (simp_all add: x_def)
  have em: "e < 8" "0 \<le> m" "m < 16" by (auto simp: e_def m_def)
  have xsum: "x = (if neg then 128 else 0) + 16 * int e + m"
    unfolding neg_def e_def m_def by (rule mulaw_fields_of_byte [OF x])
  then have code: "(if neg then 0x80 else 0) OR push_bit 4 (int e) OR m = x"
    using mulaw_code_sum [OF em, of neg] by simp
  have c: "c = word_of_int (NOT x)"
    using not_word_of_int_not [of "NOT x", where ?'a = 8] by (simp add: x_def)
  define b where "b = (8 * m + 132) * 2 ^ e"
  note seg = mulaw_segment_value [OF em, folded b_def]
  have dec: "sint (rtw_mulaw_to_linear c) = (if neg then - (b - 132) else b - 132)"
    unfolding c b_def code [symmetric] by (rule sint_mulaw_decode_code [OF em])
  then have mag: "min \<bar>sint (rtw_mulaw_to_linear c)\<bar> CLIP + BIAS = b"
    and ne: "sint (rtw_mulaw_to_linear c) \<noteq> - 32768"
    using seg(1,2) by (auto simp: CLIP_def BIAS_def)
  have enc: "rtw_linear_to_mulaw (rtw_mulaw_to_linear c) =
      word_of_int (NOT ((if sint (rtw_mulaw_to_linear c) < 0 then 0x80 else 0) OR push_bit 4 (int e) OR m))"
    using mulaw_encode(1) [OF ne] by (simp only: mag seg)
  show ?thesis
  proof (cases "neg \<and> b = 132")
    case True
    then have "e = 0" "m = 0" using seg(3,4) by (simp_all add: exp_lut_def)
    with True have "x = 128" "sint (rtw_mulaw_to_linear c) = 0" using xsum dec by auto
    then show ?thesis using enc c \<open>e = 0\<close> \<open>m = 0\<close> by simp
  next
    case False
    then have "sint (rtw_mulaw_to_linear c) < 0 \<longleftrightarrow> neg" using dec seg(1) by auto
    then have "rtw_linear_to_mulaw (rtw_mulaw_to_linear c) = c" using enc code c by simp
    moreover have "c \<noteq> 0x7F"
    proof
      assume "c = 0x7F"
      then have "x = 128" by (simp add: x_def)
      then have "neg \<and> b = 132" by (simp add: neg_def b_def e_def m_def)
      with False show False ..
    qed
    ultimately show ?thesis by simp
  qed
qed

text \<open>
  The most negative sample, \<open>INT16_MIN\<close>, is not clipped: its negation overflows
  \<open>int16_t\<close>, and it is encoded as (negative) zero, so that full-scale negative input decodes
  as silence.
\<close>

lemma mulaw_int16_min_is_silence:
  "sint (0x8000 :: int16) = - 32768 \<and> rtw_linear_to_mulaw 0x8000 = 0x7F \<and>
     rtw_mulaw_to_linear (rtw_linear_to_mulaw 0x8000) = 0"
  by (simp add: rtw_linear_to_mulaw_def rtw_mulaw_to_linear_def Let_def CLIP_def BIAS_def exp_lut_def)

end
