(* ===== verification/Rtw_Queue.thy ===== *)
theory Rtw_Queue
  imports Rtw_Prelude "HOL-Library.Multiset"
begin

text \<open>
  The bounded outbound queue with its drop-oldest policy, \<open>src/core/rtw_queue.c\<close>: a ring of
  \<open>capacity\<close> slots, each an owned copy of a message. A slot that holds no message has a NULL
  \<open>data\<close> pointer (\<open>None\<close>). Functions that allocate take the outcome of the allocation as a
  last argument; a pair \<open>(rc, q)\<close> is the return code and the queue after the call. The NULL
  checks of the pointer arguments have no counterpart: the callers pass addresses of objects.
\<close>

section \<open>Definitions\<close>

record rtw_queue_item_t =
  item_data :: "string option"
  item_len :: nat

record rtw_bounded_queue_t =
  q_items :: "rtw_queue_item_t list"
  q_capacity :: nat
  q_head :: nat
  q_tail :: nat
  q_size :: nat
  q_drops :: uint64
  q_enqueued :: uint64

definition null_item :: rtw_queue_item_t where
  "null_item = \<lparr>item_data = None, item_len = 0\<rparr>"

definition zero_queue :: rtw_bounded_queue_t where
  "zero_queue = \<lparr>q_items = [], q_capacity = 0, q_head = 0, q_tail = 0, q_size = 0,
     q_drops = 0, q_enqueued = 0\<rparr>"

text \<open>\<open>None\<close> is the return code -1; \<open>calloc\<close> zeroes the slots.\<close>

definition rtw_queue_init :: "nat \<Rightarrow> bool \<Rightarrow> rtw_bounded_queue_t option" where
  "rtw_queue_init capacity calloc_ok =
     (if capacity = 0 then None
      else if \<not> calloc_ok then None
      else Some (zero_queue\<lparr>q_items := replicate capacity null_item, q_capacity := capacity\<rparr>))"

text \<open>\<open>rtw_queue_destroy\<close>: the messages it frees, in the order of the loop, and the zeroed queue.\<close>

definition rtw_queue_destroy :: "rtw_bounded_queue_t \<Rightarrow> string list \<times> rtw_bounded_queue_t" where
  "rtw_queue_destroy q =
     (List.map_filter item_data (take (q_capacity q) (q_items q)), zero_queue)"

definition free_slot :: "rtw_queue_item_t \<Rightarrow> rtw_queue_item_t" where
  "free_slot it = it\<lparr>item_data := None, item_len := 0\<rparr>"

definition drop_oldest :: "rtw_bounded_queue_t \<Rightarrow> rtw_bounded_queue_t" where
  "drop_oldest q =
     q\<lparr>q_items := (q_items q)[q_head q := free_slot (q_items q ! q_head q)],
       q_head := (q_head q + 1) mod q_capacity q,
       q_size := q_size q - 1\<rparr>"

definition rtw_queue_push :: "rtw_bounded_queue_t \<Rightarrow> string \<Rightarrow> bool \<Rightarrow> int \<times> rtw_bounded_queue_t" where
  "rtw_queue_push q data malloc_ok =
     (let q1 = (if q_size q = q_capacity q
                then (drop_oldest q)\<lparr>q_drops := q_drops q + 1\<rparr> else q)
      in if \<not> malloc_ok then (- 1, q1)
         else (0, q1\<lparr>q_items := (q_items q1)[q_tail q1 := \<lparr>item_data = Some data, item_len = length data\<rparr>],
                     q_tail := (q_tail q1 + 1) mod q_capacity q1,
                     q_size := q_size q1 + 1,
                     q_enqueued := q_enqueued q1 + 1\<rparr>))"

definition rtw_queue_pop :: "rtw_bounded_queue_t \<Rightarrow> rtw_queue_item_t option \<times> rtw_bounded_queue_t" where
  "rtw_queue_pop q =
     (if q_size q = 0 then (None, q)
      else (Some (q_items q ! q_head q),
            q\<lparr>q_items := (q_items q)[q_head q := (q_items q ! q_head q)\<lparr>item_data := None, item_len := 0\<rparr>],
              q_head := (q_head q + 1) mod q_capacity q,
              q_size := q_size q - 1\<rparr>))"

definition rtw_queue_peek :: "rtw_bounded_queue_t \<Rightarrow> (string option \<times> nat) option" where
  "rtw_queue_peek q =
     (if q_size q = 0 then None
      else Some (item_data (q_items q ! q_head q), item_len (q_items q ! q_head q)))"

definition rtw_queue_drop_head :: "rtw_bounded_queue_t \<Rightarrow> int \<times> rtw_bounded_queue_t" where
  "rtw_queue_drop_head q = (if q_size q = 0 then (- 1, q) else (0, drop_oldest q))"

definition rtw_queue_size :: "rtw_bounded_queue_t \<Rightarrow> nat" where
  "rtw_queue_size q = q_size q"

section \<open>Invariant and contents\<close>

text \<open>
  The live slots are the window of \<open>size\<close> slots from \<open>head\<close> on and hold a message with its
  length; every other slot is NULL. Read once around from the head, the ring is therefore the
  queued messages followed by NULL slots: each message is owned by exactly one slot, and
  \<open>rtw_queue_destroy\<close> frees exactly the messages still queued.
\<close>

definition mk_item :: "string \<Rightarrow> rtw_queue_item_t" where
  "mk_item d = \<lparr>item_data = Some d, item_len = length d\<rparr>"

definition queue_contents :: "rtw_bounded_queue_t \<Rightarrow> string list" where
  "queue_contents q = map (\<lambda>it. the (item_data it)) (ring_window (q_items q) (q_head q) (q_size q))"

definition queue_inv :: "rtw_bounded_queue_t \<Rightarrow> bool" where
  "queue_inv q \<longleftrightarrow>
     0 < q_capacity q \<and> length (q_items q) = q_capacity q \<and> q_size q \<le> q_capacity q \<and>
     q_head q < q_capacity q \<and> q_tail q = (q_head q + q_size q) mod q_capacity q \<and>
     ring_window (q_items q) (q_head q) (q_capacity q) =
       map mk_item (queue_contents q) @ replicate (q_capacity q - q_size q) null_item"

lemma length_queue_contents [simp]: "length (queue_contents q) = q_size q"
  by (simp add: queue_contents_def)

lemma queue_invD:
  assumes "queue_inv q"
  shows "0 < q_capacity q" "length (q_items q) = q_capacity q" "q_size q \<le> q_capacity q"
    "q_head q < q_capacity q" "q_tail q = (q_head q + q_size q) mod q_capacity q"
    "ring_window (q_items q) (q_head q) (q_capacity q) =
       map mk_item (queue_contents q) @ replicate (q_capacity q - q_size q) null_item"
  using assms by (simp_all add: queue_inv_def)

text \<open>To establish the invariant, it is enough to know some list of messages in the ring.\<close>

lemma queue_invI:
  assumes "0 < q_capacity q" "length (q_items q) = q_capacity q" "q_head q < q_capacity q"
    "q_tail q = (q_head q + q_size q) mod q_capacity q" "length cs = q_size q" "q_size q \<le> q_capacity q"
    "ring_window (q_items q) (q_head q) (q_capacity q) =
       map mk_item cs @ replicate (q_capacity q - q_size q) null_item"
  shows "queue_inv q \<and> queue_contents q = cs"
proof -
  have "ring_window (q_items q) (q_head q) (q_size q) = map mk_item cs"
    using ring_window_take [OF assms(6), of "q_items q" "q_head q"] assms(5,7) by simp
  then have "queue_contents q = cs" by (simp add: queue_contents_def mk_item_def comp_def)
  then show ?thesis using assms by (simp add: queue_inv_def)
qed

lemma free_slot_null [simp]: "free_slot it = null_item"
  by (simp add: free_slot_def null_item_def)

lemma drop_oldest_inv:
  assumes "queue_inv q" "0 < q_size q"
  shows "queue_inv (drop_oldest q) \<and> queue_contents (drop_oldest q) = tl (queue_contents q)"
proof (rule queue_invI)
  note inv = queue_invD [OF assms(1)]
  show "q_tail (drop_oldest q) = (q_head (drop_oldest q) + q_size (drop_oldest q)) mod q_capacity (drop_oldest q)"
    using inv(5) assms(2) mod_add_left_eq [of "Suc (q_head q)" "q_capacity q" "q_size q - 1"]
    by (cases "q_size q") (simp_all add: drop_oldest_def)
  have "ring_window ((q_items q)[q_head q := null_item]) (Suc (q_head q)) (q_capacity q) =
      tl (ring_window (q_items q) (q_head q) (q_capacity q)) @ [null_item]"
    using ring_window_rotate [of "q_head q" "q_items q" null_item] inv(2,4) by simp
  also have "\<dots> = map mk_item (tl (queue_contents q)) @ replicate (q_capacity q - (q_size q - 1)) null_item"
  proof (cases "queue_contents q")
    case Nil
    then show ?thesis using assms(2) length_queue_contents [of q] by simp
  next
    case (Cons c cs)
    have "q_capacity q - (q_size q - 1) = Suc (q_capacity q - q_size q)" using inv(3) assms(2) by simp
    then show ?thesis using Cons inv(6) by (simp add: replicate_append_same)
  qed
  finally show "ring_window (q_items (drop_oldest q)) (q_head (drop_oldest q)) (q_capacity (drop_oldest q)) =
      map mk_item (tl (queue_contents q)) @ replicate (q_capacity (drop_oldest q) - q_size (drop_oldest q)) null_item"
    using ring_window_mod [of "(q_items q)[q_head q := null_item]" "Suc (q_head q)"] inv(2)
    by (simp add: drop_oldest_def)
qed (use queue_invD [OF assms(1)] assms(2) in \<open>auto simp: drop_oldest_def\<close>)

lemma rtw_queue_push_inv:
  assumes "queue_inv q"
  shows "queue_inv (snd (rtw_queue_push q x ok))"
    "queue_contents (snd (rtw_queue_push q x True)) = last_n (q_capacity q) (queue_contents q @ [x])"
    "queue_contents (snd (rtw_queue_push q x False)) =
       (if q_size q = q_capacity q then tl (queue_contents q) else queue_contents q)"
    "q_capacity (snd (rtw_queue_push q x ok)) = q_capacity q"
proof -
  define q1 where "q1 = (if q_size q = q_capacity q then (drop_oldest q)\<lparr>q_drops := q_drops q + 1\<rparr> else q)"
  have upd: "queue_inv (r\<lparr>q_drops := d\<rparr>) = queue_inv r" "queue_contents (r\<lparr>q_drops := d\<rparr>) = queue_contents r" for r d
    by (simp_all add: queue_inv_def queue_contents_def)
  have q1: "queue_inv q1" "q_capacity q1 = q_capacity q" "q_size q1 < q_capacity q1"
    "queue_contents q1 = (if q_size q = q_capacity q then tl (queue_contents q) else queue_contents q)"
    using drop_oldest_inv [OF assms] queue_invD(1,3) [OF assms] assms
    by (auto simp: q1_def upd) (auto simp: drop_oldest_def)
  note inv = queue_invD [OF q1(1)]
  define q2 where "q2 = q1\<lparr>q_items := (q_items q1)[q_tail q1 := mk_item x],
    q_tail := (q_tail q1 + 1) mod q_capacity q1, q_size := q_size q1 + 1, q_enqueued := q_enqueued q1 + 1\<rparr>"
  have "queue_inv q2 \<and> queue_contents q2 = queue_contents q1 @ [x]"
  proof (rule queue_invI)
    have "q_capacity q1 - q_size q1 = Suc (q_capacity q1 - Suc (q_size q1))" using q1(3) by simp
    then have "(ring_window (q_items q1) (q_head q1) (q_capacity q1))[q_size q1 := mk_item x] =
        map mk_item (queue_contents q1 @ [x]) @ replicate (q_capacity q1 - Suc (q_size q1)) null_item"
      using inv(6) by (simp add: list_update_append)
    then show "ring_window (q_items q2) (q_head q2) (q_capacity q2) =
       map mk_item (queue_contents q1 @ [x]) @ replicate (q_capacity q2 - q_size q2) null_item"
      using ring_window_set [of "q_size q1" "q_items q1" "q_head q1" "mk_item x"] q1(3) inv(2,5)
      by (simp add: q2_def)
    show "q_tail q2 = (q_head q2 + q_size q2) mod q_capacity q2"
      using inv(5) mod_add_left_eq [of "q_head q1 + q_size q1" "q_capacity q1" 1] by (simp add: q2_def)
  qed (use inv q1(3) in \<open>simp_all add: q2_def\<close>)
  moreover have "rtw_queue_push q x True = (0, q2)" "rtw_queue_push q x False = (- 1, q1)"
    by (simp_all add: rtw_queue_push_def q1_def [symmetric] q2_def Let_def mk_item_def)
  moreover have "queue_contents q1 @ [x] = last_n (q_capacity q) (queue_contents q @ [x])"
    using q1(4) queue_invD(1,3) [OF assms] last_n_snoc_full [of "q_capacity q" "queue_contents q" x]
    by auto
  moreover have "q_capacity q2 = q_capacity q" using q1(2) by (simp add: q2_def)
  ultimately show "queue_inv (snd (rtw_queue_push q x ok))"
    "queue_contents (snd (rtw_queue_push q x True)) = last_n (q_capacity q) (queue_contents q @ [x])"
    "queue_contents (snd (rtw_queue_push q x False)) =
       (if q_size q = q_capacity q then tl (queue_contents q) else queue_contents q)"
    "q_capacity (snd (rtw_queue_push q x ok)) = q_capacity q"
    using q1 by (cases ok; simp)+
qed

lemma rtw_queue_init_inv:
  assumes "rtw_queue_init capacity ok = Some q"
  shows "queue_inv q \<and> queue_contents q = []"
proof (rule queue_invI)
  show "ring_window (q_items q) (q_head q) (q_capacity q) =
      map mk_item [] @ replicate (q_capacity q - q_size q) null_item"
    using assms by (auto simp: rtw_queue_init_def zero_queue_def ring_window_def map_replicate_const
        intro!: nth_equalityI split: if_splits)
qed (use assms in \<open>auto simp: rtw_queue_init_def zero_queue_def split: if_splits\<close>)

lemma queue_head_item:
  assumes "queue_inv q" "0 < q_size q"
  shows "q_items q ! q_head q = mk_item (hd (queue_contents q))"
proof -
  have "ring_window (q_items q) (q_head q) (q_capacity q) ! 0 = q_items q ! q_head q"
    using queue_invD(1,2,4) [OF assms(1)] by simp
  moreover have "queue_contents q \<noteq> []" using assms(2) length_queue_contents [of q] by force
  ultimately show ?thesis
    using queue_invD(6) [OF assms(1)] by (cases "queue_contents q") auto
qed

lemma rtw_queue_pop_eq:
  "0 < q_size q \<Longrightarrow> rtw_queue_pop q = (Some (q_items q ! q_head q), drop_oldest q)"
  by (simp add: rtw_queue_pop_def drop_oldest_def free_slot_def del: free_slot_null)

lemma queue_empty_iff: "q_size q = 0 \<longleftrightarrow> queue_contents q = []"
  by (metis length_0_conv length_queue_contents)

section \<open>The queue as an interface\<close>

text \<open>
  What the session and the bridge rely on: a bounded FIFO whose \<open>push\<close> succeeds unless an
  allocation fails and keeps the newest \<open>cap\<close> messages.
\<close>

locale drop_oldest_queue =
  fixes push :: "'q \<Rightarrow> 'a \<Rightarrow> bool \<Rightarrow> int \<times> 'q"
    and front :: "'q \<Rightarrow> 'a option"
    and advance :: "'q \<Rightarrow> int \<times> 'q"
    and contents :: "'q \<Rightarrow> 'a list"
    and cap :: "'q \<Rightarrow> nat"
    and inv :: "'q \<Rightarrow> bool"
  assumes push_inv: "inv q \<Longrightarrow> inv (snd (push q x ok))"
    and push_cap: "inv q \<Longrightarrow> cap (snd (push q x ok)) = cap q"
    and push_rc: "fst (push q x ok) = (if ok then 0 else - 1)"
    and push_ok: "inv q \<Longrightarrow> contents (snd (push q x True)) = last_n (cap q) (contents q @ [x])"
    and push_oom: "inv q \<Longrightarrow> contents (snd (push q x False)) =
      (if length (contents q) = cap q then tl (contents q) else contents q)"
    and bounded: "inv q \<Longrightarrow> length (contents q) \<le> cap q"
    and front: "inv q \<Longrightarrow> front q = (if contents q = [] then None else Some (hd (contents q)))"
    and advance_inv: "inv q \<Longrightarrow> inv (snd (advance q))"
    and advance_cap: "inv q \<Longrightarrow> cap (snd (advance q)) = cap q"
    and advance_contents: "inv q \<Longrightarrow> contents (snd (advance q)) = tl (contents q)"
begin

lemma push_many:
  assumes "inv q"
  shows "inv (fold (\<lambda>x q. snd (push q x True)) xs q)"
    and "cap (fold (\<lambda>x q. snd (push q x True)) xs q) = cap q"
    and "contents (fold (\<lambda>x q. snd (push q x True)) xs q) = last_n (cap q) (contents q @ xs)"
  using assms
  by (induction xs arbitrary: q)
    (simp_all add: push_inv push_cap push_ok bounded last_n_last_n_append)

lemma push_many_room:
  assumes "inv q" "length (contents q) + length xs \<le> cap q"
  shows "contents (fold (\<lambda>x q. snd (push q x True)) xs q) = contents q @ xs"
  using assms by (simp add: push_many(3))

text \<open>Draining with \<open>front\<close> and \<open>advance\<close> yields the contents in order.\<close>

lemma drain_step:
  assumes "inv q" "contents q = x # xs"
  shows "front q = Some x" "contents (snd (advance q)) = xs" "inv (snd (advance q))"
  using assms by (simp_all add: front advance_contents advance_inv)

lemma push_contents_suffix:
  assumes "inv q"
  shows "\<exists>removed. removed @ contents (snd (push q x ok)) = contents q @ (if ok then [x] else [])"
proof (cases ok)
  case True
  then show ?thesis
    using push_ok [OF assms, of x]
    by (intro exI [of _ "take (length (contents q @ [x]) - cap q) (contents q @ [x])"])
      (simp add: last_n_def del: take_append drop_append length_append)
next
  case False
  then show ?thesis
    using push_oom [OF assms, of x] by (cases "contents q") (auto intro: exI [of _ "[]"])
qed

end

definition queue_front :: "rtw_bounded_queue_t \<Rightarrow> string option" where
  "queue_front q = (case rtw_queue_peek q of None \<Rightarrow> None | Some (d, _) \<Rightarrow> d)"

interpretation outq: drop_oldest_queue rtw_queue_push queue_front rtw_queue_drop_head
  queue_contents q_capacity queue_inv
proof unfold_locales
  fix q :: rtw_bounded_queue_t and x :: string and ok :: bool
  show "fst (rtw_queue_push q x ok) = (if ok then 0 else - 1)"
    by (simp add: rtw_queue_push_def Let_def)
  assume inv: "queue_inv q"
  show "queue_inv (snd (rtw_queue_push q x ok))" "q_capacity (snd (rtw_queue_push q x ok)) = q_capacity q"
    "queue_contents (snd (rtw_queue_push q x True)) = last_n (q_capacity q) (queue_contents q @ [x])"
    "queue_contents (snd (rtw_queue_push q x False)) =
      (if length (queue_contents q) = q_capacity q then tl (queue_contents q) else queue_contents q)"
    using rtw_queue_push_inv [OF inv] by simp_all
  show "length (queue_contents q) \<le> q_capacity q" using queue_invD(3) [OF inv] by simp
  show "queue_front q = (if queue_contents q = [] then None else Some (hd (queue_contents q)))"
    using queue_head_item [OF inv]
    using queue_empty_iff [of q]
    by (cases "q_size q = 0") (simp_all add: queue_front_def rtw_queue_peek_def mk_item_def)
  show "queue_inv (snd (rtw_queue_drop_head q))" "queue_contents (snd (rtw_queue_drop_head q)) = tl (queue_contents q)"
    using drop_oldest_inv [OF inv] inv queue_empty_iff [of q]
    by (cases "q_size q = 0"; simp add: rtw_queue_drop_head_def)+
  show "q_capacity (snd (rtw_queue_drop_head q)) = q_capacity q"
    by (simp add: rtw_queue_drop_head_def drop_oldest_def)
qed

section \<open>Sequences of operations\<close>

datatype queue_op = Q_Push string bool | Q_Pop | Q_Drop_Head

fun queue_apply :: "queue_op \<Rightarrow> rtw_bounded_queue_t \<Rightarrow> rtw_bounded_queue_t" where
  "queue_apply (Q_Push d ok) q = snd (rtw_queue_push q d ok)"
| "queue_apply Q_Pop q = snd (rtw_queue_pop q)"
| "queue_apply Q_Drop_Head q = snd (rtw_queue_drop_head q)"

fun accepted :: "queue_op \<Rightarrow> string list" where
  "accepted (Q_Push d ok) = (if ok then [d] else [])"
| "accepted _ = []"

lemma snd_pop_drop_head: "snd (rtw_queue_pop q) = snd (rtw_queue_drop_head q)"
proof (cases "q_size q = 0")
  case True
  then show ?thesis by (simp add: rtw_queue_pop_def rtw_queue_drop_head_def)
next
  case False
  then show ?thesis by (simp add: rtw_queue_pop_eq rtw_queue_drop_head_def)
qed

lemma queue_apply_inv:
  "queue_inv q \<Longrightarrow> queue_inv (queue_apply op q) \<and> q_capacity (queue_apply op q) = q_capacity q"
  by (cases op) (simp_all add: outq.push_inv outq.push_cap outq.advance_inv outq.advance_cap snd_pop_drop_head)

lemma queue_apply_suffix:
  "queue_inv q \<Longrightarrow> \<exists>removed. removed @ queue_contents (queue_apply op q) = queue_contents q @ accepted op"
proof -
  assume inv: "queue_inv q"
  have adv: "\<exists>removed. removed @ queue_contents (snd (rtw_queue_drop_head q)) = queue_contents q"
    unfolding outq.advance_contents [OF inv]
    by (cases "queue_contents q") (auto intro: exI [of _ "[]"])
  show ?thesis
    by (cases op) (use outq.push_contents_suffix [OF inv] adv in \<open>simp_all add: snd_pop_drop_head\<close>)
qed

lemma queue_push_counters:
  "q_enqueued (snd (rtw_queue_push q x True)) = q_enqueued q + 1"
  "q_drops (snd (rtw_queue_push q x ok)) = q_drops q + (if q_size q = q_capacity q then 1 else 0)"
  by (simp_all add: rtw_queue_push_def drop_oldest_def Let_def)

text \<open>A queue of two slots, used for the concrete instances below.\<close>

definition queue2 :: rtw_bounded_queue_t where
  "queue2 = zero_queue\<lparr>q_items := replicate 2 null_item, q_capacity := 2\<rparr>"

lemma queue2_init: "rtw_queue_init 2 True = Some queue2"
  by (simp add: rtw_queue_init_def queue2_def)

lemmas queue2_inv = rtw_queue_init_inv [OF queue2_init]

lemma mset_rotate_drop_take: "mset (rotate n xs) = mset xs"
proof -
  have "mset (rotate n xs) = mset (take (n mod length xs) xs @ drop (n mod length xs) xs)"
    by (simp only: rotate_drop_take mset_append add.commute)
  then show ?thesis by (simp only: append_take_drop_id)
qed

lemma mset_map_filter: "mset xs = mset ys \<Longrightarrow> mset (List.map_filter f xs) = mset (List.map_filter f ys)"
  unfolding List.map_filter_def mset_map mset_filter by (rule arg_cong)

section \<open>Properties\<close>

text \<open>
  C29: under any sequence of pushes (whether or not their allocation succeeds), pops and
  drops, the queue keeps its ring invariant and its capacity, never holds more than
  \<open>capacity\<close> messages, and what it holds is always a final segment of everything accepted so far,
  in order: messages leave strictly in the order in which they came.
\<close>

theorem queue_fifo:
  assumes "queue_inv q"
  shows "queue_inv (fold queue_apply ops q) \<and>
    q_size (fold queue_apply ops q) \<le> q_capacity q \<and>
    (\<exists>removed. removed @ queue_contents (fold queue_apply ops q) =
       queue_contents q @ concat (map accepted ops))"
  using assms
proof (induction ops arbitrary: q)
  case Nil
  then show ?case using queue_invD(3) by auto
next
  case (Cons op ops)
  note step = queue_apply_inv [OF Cons.prems, of op]
  obtain r where r: "r @ queue_contents (queue_apply op q) = queue_contents q @ accepted op"
    using queue_apply_suffix [OF Cons.prems] by blast
  obtain r' where r': "r' @ queue_contents (fold queue_apply ops (queue_apply op q)) =
      queue_contents (queue_apply op q) @ concat (map accepted ops)"
    using Cons.IH [of "queue_apply op q"] step by blast
  have "(r @ r') @ queue_contents (fold queue_apply (op # ops) q) =
      queue_contents q @ concat (map accepted (op # ops))"
    using r r' by (metis append.assoc concat.simps(2) fold_simps(2) list.simps(9))
  then have "\<exists>removed. removed @ queue_contents (fold queue_apply (op # ops) q) =
      queue_contents q @ concat (map accepted (op # ops))" by blast
  then show ?case using Cons.IH [of "queue_apply op q"] step by simp
qed

theorem queue_fifo_witness:
  "queue_inv queue2 \<and>
   (\<exists>removed. removed @ queue_contents (fold queue_apply [Q_Push ''a'' True, Q_Push ''b'' True, Q_Push ''c'' True, Q_Pop] queue2)
      = [''a'', ''b'', ''c''])"
  using queue_fifo [OF conjunct1 [OF queue2_inv],
      of "[Q_Push ''a'' True, Q_Push ''b'' True, Q_Push ''c'' True, Q_Pop]"] queue2_inv
  by simp

text \<open>
  C30: drop-oldest. A fresh queue into which \<open>xs\<close> is pushed holds the last \<open>capacity\<close> elements
  of \<open>xs\<close>, has counted every push as enqueued and every lost message as a drop.
\<close>

theorem queue_keeps_newest:
  fixes xs :: "string list"
  assumes "rtw_queue_init capacity True = Some q"
  defines "q' \<equiv> fold (\<lambda>x q. snd (rtw_queue_push q x True)) xs q"
  shows "queue_contents q' = last_n capacity xs \<and>
    q_enqueued q' = of_nat (length xs) \<and> q_drops q' = of_nat (length xs - capacity)"
proof -
  have q: "queue_inv q" "queue_contents q = []" "q_capacity q = capacity" "q_enqueued q = 0" "q_drops q = 0"
    "0 < capacity"
    using rtw_queue_init_inv [OF assms(1)] assms(1)
    by (auto simp: rtw_queue_init_def zero_queue_def split: if_splits)
  have "queue_inv q' \<and> queue_contents q' = last_n capacity xs \<and> q_capacity q' = capacity \<and>
      q_enqueued q' = of_nat (length xs) \<and> q_drops q' = of_nat (length xs - capacity)"
    unfolding q'_def
  proof (induction xs rule: rev_induct)
    case (snoc x xs)
    let ?p = "fold (\<lambda>x q. snd (rtw_queue_push q x True)) xs q"
    have "q_size ?p = min capacity (length xs)" using snoc length_queue_contents [of ?p] by simp
    then have "length (xs @ [x]) - capacity =
        length xs - capacity + (if q_size ?p = q_capacity ?p then 1 else 0)"
      using snoc by auto
    then show ?case using snoc
      by (simp add: outq.push_inv outq.push_ok outq.push_cap queue_push_counters last_n_last_n_append
          del: length_append) (simp add: add.commute)
  qed (use q in simp)
  then show ?thesis by simp
qed

theorem queue_keeps_newest_witness:
  "rtw_queue_init 2 True = Some queue2 \<and>
   queue_contents (fold (\<lambda>x q. snd (rtw_queue_push q x True)) [''a'', ''b'', ''c''] queue2) = [''b'', ''c''] \<and>
   q_drops (fold (\<lambda>x q. snd (rtw_queue_push q x True)) [''a'', ''b'', ''c''] queue2) = 1"
  using queue_keeps_newest [OF queue2_init, of "[''a'', ''b'', ''c'']"] queue2_init
  by (simp add: last_n_def)

text \<open>
  Peek and drop. On a queue with messages, \<open>rtw_queue_peek\<close> shows the oldest one with its
  length and \<open>rtw_queue_drop_head\<close> then removes exactly that one; \<open>rtw_queue_pop\<close> does both at once.
  On an empty queue all three fail and change nothing.
\<close>

lemma queue_peek_drop_pop:
  assumes "queue_inv q"
  shows "case queue_contents q of
      [] \<Rightarrow> rtw_queue_peek q = None \<and> rtw_queue_drop_head q = (- 1, q) \<and> rtw_queue_pop q = (None, q)
    | m # ms \<Rightarrow> rtw_queue_peek q = Some (Some m, length m) \<and>
        fst (rtw_queue_drop_head q) = 0 \<and> queue_contents (snd (rtw_queue_drop_head q)) = ms \<and>
        rtw_queue_pop q = (Some (mk_item m), snd (rtw_queue_drop_head q))"
proof (cases "queue_contents q")
  case Nil
  then show ?thesis
    using queue_empty_iff [of q] by (simp add: rtw_queue_peek_def rtw_queue_drop_head_def rtw_queue_pop_def)
next
  case (Cons m ms)
  then have "0 < q_size q" using queue_empty_iff [of q] by simp
  with Cons show ?thesis
    using queue_head_item [OF assms] outq.advance_contents [OF assms]
    by (simp add: rtw_queue_peek_def rtw_queue_pop_eq mk_item_def) (simp add: rtw_queue_drop_head_def)
qed

text \<open>
  Ownership. Destroying a queue frees every message it still holds exactly once and nothing
  else.
\<close>

lemma queue_destroy_frees_contents:
  assumes "queue_inv q"
  shows "mset (fst (rtw_queue_destroy q)) = mset (queue_contents q) \<and> snd (rtw_queue_destroy q) = zero_queue"
proof -
  note inv = queue_invD [OF assms]
  have "mset (q_items q) = mset (rotate (q_head q) (q_items q))" by (simp add: mset_rotate_drop_take)
  also have "rotate (q_head q) (q_items q) = ring_window (q_items q) (q_head q) (q_capacity q)"
    using inv(2) by (intro nth_equalityI) (simp_all add: nth_rotate)
  finally have "mset (q_items q) = mset (map mk_item (queue_contents q) @ replicate (q_capacity q - q_size q) null_item)"
    using inv(6) by simp
  then have "mset (List.map_filter item_data (q_items q)) =
      mset (List.map_filter item_data (map mk_item (queue_contents q) @ replicate (q_capacity q - q_size q) null_item))"
    by (rule mset_map_filter)
  also have "List.map_filter item_data (map mk_item cs @ replicate n null_item) = cs" for cs n
    by (induction cs) (induction n, auto simp: List.map_filter_def mk_item_def null_item_def)
  finally show ?thesis using inv(2) by (simp add: rtw_queue_destroy_def)
qed

end
