(* ===== verification/Rtw_Playout.thy ===== *)
theory Rtw_Playout
  imports Rtw_Prelude
begin

text \<open>
  The playout buffer, \<open>src/core/rtw_playout.c\<close>: a byte ring for the audio received from the peer
  and a table of at most 64 marks, each with the number of audio bytes that still have to be
  played before the mark is reached. The specification is a single stream of tokens in which
  marks stand between audio bytes: the theory shows that ring, counters and table always stand
  for such a stream, and that each operation is the obvious operation on it. A mark name is kept
  as the C string in the \<open>name\<close> array; \<open>names_out\<close> is never NULL in the callers, so the
  harvested names are returned as a list, whose length is the returned count.
\<close>

section \<open>Definitions\<close>

definition RTW_MARK_MAX :: nat where "RTW_MARK_MAX = 64"

definition RTW_MARK_NAME_LEN :: nat where "RTW_MARK_NAME_LEN = 128"

record rtw_mark_t =
  mark_name :: string
  bytes_after :: nat

record rtw_playout_t =
  p_buf :: bytes
  p_capacity :: nat
  p_head :: nat
  p_tail :: nat
  p_size :: nat
  p_marks :: "rtw_mark_t list"
  p_mark_count :: nat
  p_enqueued_bytes :: uint64
  p_dequeued_bytes :: uint64
  p_clear_count :: uint64

definition zero_mark :: rtw_mark_t where
  "zero_mark = \<lparr>mark_name = [], bytes_after = 0\<rparr>"

definition zero_playout :: rtw_playout_t where
  "zero_playout = \<lparr>p_buf = [], p_capacity = 0, p_head = 0, p_tail = 0, p_size = 0,
     p_marks = replicate RTW_MARK_MAX zero_mark, p_mark_count = 0,
     p_enqueued_bytes = 0, p_dequeued_bytes = 0, p_clear_count = 0\<rparr>"

text \<open>\<open>malloc\<close> either fails (\<open>None\<close>) or returns cells with some contents.\<close>

definition rtw_playout_init :: "nat \<Rightarrow> (nat \<Rightarrow> uint8) option \<Rightarrow> rtw_playout_t option" where
  "rtw_playout_init capacity_bytes malloc_result =
     (if capacity_bytes = 0 then None
      else case malloc_result of
        None \<Rightarrow> None
      | Some cells \<Rightarrow> Some (zero_playout\<lparr>p_buf := map cells [0..<capacity_bytes],
                                         p_capacity := capacity_bytes\<rparr>))"

definition rtw_playout_destroy :: "rtw_playout_t \<Rightarrow> rtw_playout_t" where
  "rtw_playout_destroy p = zero_playout"

definition advance_mark :: "nat \<Rightarrow> rtw_mark_t \<Rightarrow> rtw_mark_t" where
  "advance_mark n m = m\<lparr>bytes_after := (if n \<le> bytes_after m then bytes_after m - n else 0)\<rparr>"

definition advance_marks_on_read :: "rtw_playout_t \<Rightarrow> nat \<Rightarrow> rtw_playout_t" where
  "advance_marks_on_read p n =
     p\<lparr>p_marks := map (advance_mark n) (take (p_mark_count p) (p_marks p)) @
                  drop (p_mark_count p) (p_marks p)\<rparr>"

fun write_loop :: "nat \<Rightarrow> bytes \<Rightarrow> nat \<Rightarrow> bytes \<Rightarrow> bytes \<times> nat" where
  "write_loop cap buf tail [] = (buf, tail)"
| "write_loop cap buf tail (b # bs) = write_loop cap (buf[tail := b]) ((tail + 1) mod cap) bs"

definition rtw_playout_write :: "rtw_playout_t \<Rightarrow> bytes \<Rightarrow> int \<times> rtw_playout_t" where
  "rtw_playout_write p data =
     (if length data = 0 then (0, p)
      else if p_capacity p < p_size p + length data then (- 1, p)
      else case write_loop (p_capacity p) (p_buf p) (p_tail p) data of (buf, tail) \<Rightarrow>
        (0, p\<lparr>p_buf := buf, p_tail := tail, p_size := p_size p + length data,
              p_enqueued_bytes := p_enqueued_bytes p + of_nat (length data)\<rparr>))"

fun read_loop :: "nat \<Rightarrow> bytes \<Rightarrow> nat \<Rightarrow> nat \<Rightarrow> bytes \<times> nat" where
  "read_loop cap buf head 0 = ([], head)"
| "read_loop cap buf head (Suc n) =
     (case read_loop cap buf ((head + 1) mod cap) n of (out, head') \<Rightarrow> (buf ! head # out, head'))"

definition rtw_playout_read :: "rtw_playout_t \<Rightarrow> nat \<Rightarrow> bytes \<times> rtw_playout_t" where
  "rtw_playout_read p max_len =
     (if max_len = 0 then ([], p)
      else let n = (if max_len < p_size p then max_len else p_size p)
        in case read_loop (p_capacity p) (p_buf p) (p_head p) n of (out, head) \<Rightarrow>
          (out, advance_marks_on_read
                  (p\<lparr>p_head := head, p_size := p_size p - n,
                     p_dequeued_bytes := p_dequeued_bytes p + of_nat n\<rparr>) n))"

definition rtw_playout_add_mark :: "rtw_playout_t \<Rightarrow> string \<Rightarrow> int \<times> rtw_playout_t" where
  "rtw_playout_add_mark p name =
     (if RTW_MARK_MAX \<le> p_mark_count p then (- 1, p)
      else (0, p\<lparr>p_marks := (p_marks p)[p_mark_count p :=
                   \<lparr>mark_name = snprintf_s RTW_MARK_NAME_LEN name, bytes_after = p_size p\<rparr>],
                 p_mark_count := p_mark_count p + 1\<rparr>))"

text \<open>\<open>memmove(&marks[i], &marks[i + 1], (count - i - 1) * sizeof(rtw_mark_t))\<close>\<close>

definition remove_mark :: "rtw_mark_t list \<Rightarrow> nat \<Rightarrow> nat \<Rightarrow> rtw_mark_t list" where
  "remove_mark ms count i = take i ms @ take (count - i - 1) (drop (i + 1) ms) @ drop (count - 1) ms"

function pop_marks_loop ::
  "rtw_mark_t list \<Rightarrow> nat \<Rightarrow> nat \<Rightarrow> nat \<Rightarrow> string list \<Rightarrow> string list \<times> rtw_mark_t list \<times> nat" where
  "pop_marks_loop ms count i max_out names =
     (if i < count then
        (if bytes_after (ms ! i) = 0 then
           pop_marks_loop (remove_mark ms count i) (count - 1) i max_out
             (if length names < max_out
              then names @ [snprintf_s RTW_MARK_NAME_LEN (mark_name (ms ! i))] else names)
         else pop_marks_loop ms count (i + 1) max_out names)
      else (names, ms, count))"
  by pat_completeness auto
termination by (relation "measure (\<lambda>(ms, count, i, max_out, names). count - i)") auto

definition rtw_playout_pop_completed_marks :: "rtw_playout_t \<Rightarrow> nat \<Rightarrow> string list \<times> rtw_playout_t" where
  "rtw_playout_pop_completed_marks p max_out =
     (case pop_marks_loop (p_marks p) (p_mark_count p) 0 max_out [] of (names, ms, count) \<Rightarrow>
        (names, p\<lparr>p_marks := ms, p_mark_count := count\<rparr>))"

definition rtw_playout_clear :: "rtw_playout_t \<Rightarrow> nat \<Rightarrow> string list \<times> rtw_playout_t" where
  "rtw_playout_clear p max_out =
     (map (\<lambda>m. snprintf_s RTW_MARK_NAME_LEN (mark_name m)) (take max_out (take (p_mark_count p) (p_marks p))),
      p\<lparr>p_head := 0, p_tail := 0, p_size := 0, p_mark_count := 0, p_clear_count := p_clear_count p + 1\<rparr>)"

definition rtw_playout_size :: "rtw_playout_t \<Rightarrow> nat" where
  "rtw_playout_size p = p_size p"

section \<open>The token stream\<close>

datatype token = Audio uint8 | Mark string

fun token_stream :: "nat \<Rightarrow> bytes \<Rightarrow> rtw_mark_t list \<Rightarrow> token list" where
  "token_stream pos bs [] = map Audio bs"
| "token_stream pos bs (m # ms) =
     map Audio (take (bytes_after m - pos) bs) @ Mark (mark_name m) #
     token_stream (bytes_after m) (drop (bytes_after m - pos) bs) ms"

fun audio_of :: "token list \<Rightarrow> bytes" where
  "audio_of [] = []"
| "audio_of (Audio b # ts) = b # audio_of ts"
| "audio_of (Mark s # ts) = audio_of ts"

fun marks_of :: "token list \<Rightarrow> string list" where
  "marks_of [] = []"
| "marks_of (Audio b # ts) = marks_of ts"
| "marks_of (Mark s # ts) = s # marks_of ts"

text \<open>
  Reading \<open>n\<close> bytes takes the first \<open>n\<close> audio tokens away and leaves the marks; the marks that
  then stand in front of the stream are the completed ones. \<open>marks_upto n\<close> are the marks with at
  most \<open>n\<close> bytes of audio before them.
\<close>

fun skip_audio :: "nat \<Rightarrow> token list \<Rightarrow> token list" where
  "skip_audio 0 ts = ts"
| "skip_audio (Suc n) [] = []"
| "skip_audio (Suc n) (Audio b # ts) = skip_audio n ts"
| "skip_audio (Suc n) (Mark s # ts) = Mark s # skip_audio (Suc n) ts"

fun marks_upto :: "nat \<Rightarrow> token list \<Rightarrow> string list" where
  "marks_upto n [] = []"
| "marks_upto n (Mark s # ts) = s # marks_upto n ts"
| "marks_upto 0 (Audio b # ts) = []"
| "marks_upto (Suc n) (Audio b # ts) = marks_upto n ts"

fun after_marks :: "token list \<Rightarrow> token list" where
  "after_marks (Mark s # ts) = after_marks ts"
| "after_marks ts = ts"

lemma audio_of_append [simp]: "audio_of (xs @ ys) = audio_of xs @ audio_of ys"
  by (induction xs rule: audio_of.induct) auto

lemma marks_of_append [simp]: "marks_of (xs @ ys) = marks_of xs @ marks_of ys"
  by (induction xs rule: marks_of.induct) auto

lemma audio_of_map_Audio [simp]: "audio_of (map Audio bs) = bs"
  by (induction bs) auto

lemma marks_of_map_Audio [simp]: "marks_of (map Audio bs) = []"
  by (induction bs) auto

lemma skip_audio_Nil [simp]: "skip_audio n [] = []"
  by (cases n) auto

lemma skip_audio_Mark [simp]: "skip_audio n (Mark s # ts) = Mark s # skip_audio n ts"
  by (cases n) auto

lemma skip_audio_map_Audio: "skip_audio k (map Audio xs @ ts) = map Audio (drop k xs) @ skip_audio (k - length xs) ts"
proof (induction xs arbitrary: k)
  case (Cons x xs)
  then show ?case by (cases k) simp_all
qed simp

lemma skip_audio_min: "skip_audio (min n (length (audio_of ts))) ts = skip_audio n ts"
  by (induction n ts rule: skip_audio.induct) auto

lemma audio_of_skip_audio: "audio_of (skip_audio n ts) = drop n (audio_of ts)"
  by (induction n ts rule: skip_audio.induct) auto

lemma marks_of_skip_audio [simp]: "marks_of (skip_audio n ts) = marks_of ts"
  by (induction n ts rule: skip_audio.induct) auto

lemma marks_upto_skip_audio: "marks_upto 0 (skip_audio n ts) = marks_upto n ts"
  by (induction n ts rule: skip_audio.induct) auto

lemma marks_upto_after_marks: "marks_of ts = marks_upto 0 ts @ marks_of (after_marks ts)"
  by (induction ts rule: after_marks.induct) auto

lemma audio_of_after_marks [simp]: "audio_of (after_marks ts) = audio_of ts"
  by (induction ts rule: after_marks.induct) auto

lemma audio_of_token_stream [simp]: "audio_of (token_stream pos bs ms) = bs"
  by (induction ms arbitrary: pos bs) auto

lemma marks_of_token_stream [simp]: "marks_of (token_stream pos bs ms) = map mark_name ms"
  by (induction ms arbitrary: pos bs) auto

text \<open>A mark table is in order when its distances are sorted and within the audio present.\<close>

definition table_ok :: "nat \<Rightarrow> nat \<Rightarrow> rtw_mark_t list \<Rightarrow> bool" where
  "table_ok lo hi ms \<longleftrightarrow> sorted (map bytes_after ms) \<and> (\<forall>m \<in> set ms. lo \<le> bytes_after m \<and> bytes_after m \<le> hi)"

lemma table_ok_Cons [simp]:
  "table_ok lo hi (m # ms) \<longleftrightarrow> lo \<le> bytes_after m \<and> bytes_after m \<le> hi \<and> table_ok (bytes_after m) hi ms"
  by (auto simp: table_ok_def)

lemma table_ok_Nil [simp]: "table_ok lo hi []"
  by (simp add: table_ok_def)

lemma table_ok_advance: "table_ok 0 hi ms \<Longrightarrow> table_ok 0 (hi - n) (map (advance_mark n) ms)"
proof -
  assume ok: "table_ok 0 hi ms"
  have "sorted (map (\<lambda>m. bytes_after m - n) ms)"
    using ok unfolding table_ok_def by (auto simp: sorted_iff_nth_mono diff_le_mono)
  moreover have "map bytes_after (map (advance_mark n) ms) = map (\<lambda>m. bytes_after m - n) ms"
    by (auto simp: advance_mark_def)
  ultimately have "sorted (map bytes_after (map (advance_mark n) ms))" by (simp only:)
  then show ?thesis
    using ok by (auto simp: table_ok_def advance_mark_def diff_le_mono simp del: list.map_comp map_map)
qed

lemma token_stream_write:
  "table_ok pos (pos + length bs) ms \<Longrightarrow> token_stream pos (bs @ xs) ms = token_stream pos bs ms @ map Audio xs"
proof (induction ms arbitrary: pos bs)
  case (Cons m ms)
  have "table_ok (bytes_after m) (bytes_after m + length (drop (bytes_after m - pos) bs)) ms"
    using Cons.prems by (simp add: add.commute)
  from Cons.IH [OF this] Cons.prems show ?case by simp
qed simp

lemma token_stream_add_mark:
  "table_ok pos (pos + length bs) ms \<Longrightarrow> bytes_after m = pos + length bs \<Longrightarrow>
   token_stream pos bs (ms @ [m]) = token_stream pos bs ms @ [Mark (mark_name m)]"
proof (induction ms arbitrary: pos bs)
  case (Cons k ms)
  have "table_ok (bytes_after k) (bytes_after k + length (drop (bytes_after k - pos) bs)) ms"
    using Cons.prems by (simp add: add.commute)
  from Cons.IH [OF this] Cons.prems show ?case by simp
qed simp

lemma token_stream_read:
  "table_ok pos (pos + length bs) ms \<Longrightarrow>
   token_stream (pos - n) (drop (n - pos) bs) (map (advance_mark n) ms) =
     skip_audio (n - pos) (token_stream pos bs ms)"
proof (induction ms arbitrary: pos bs)
  case Nil
  then show ?case using skip_audio_map_Audio [of "n - pos" bs "[]"] by simp
next
  case (Cons m ms)
  let ?k = "bytes_after m - pos"
  have "table_ok (bytes_after m) (bytes_after m + length (drop ?k bs)) ms"
    using Cons.prems by (simp add: add.commute)
  note IH = Cons.IH [OF this]
  have adv: "bytes_after (advance_mark n m) = bytes_after m - n" "mark_name (advance_mark n m) = mark_name m"
    by (auto simp: advance_mark_def)
  have drops: "drop (bytes_after m - n - (pos - n)) (drop (n - pos) bs) = drop (n - bytes_after m) (drop ?k bs)"
    and takes: "take (bytes_after m - n - (pos - n)) (drop (n - pos) bs) = drop (n - pos) (take ?k bs)"
    using Cons.prems by (auto simp: drop_take intro: arg_cong2 [where f = take] arg_cong2 [where f = drop])
  have "n - pos - length (take ?k bs) = n - bytes_after m" using Cons.prems by auto
  then show ?case using IH
    by (simp only: token_stream.simps list.map adv drops takes skip_audio_map_Audio skip_audio_Mark)
qed


section \<open>Invariant\<close>

definition active_marks :: "rtw_playout_t \<Rightarrow> rtw_mark_t list" where
  "active_marks p = take (p_mark_count p) (p_marks p)"

definition playout_audio :: "rtw_playout_t \<Rightarrow> bytes" where
  "playout_audio p = ring_window (p_buf p) (p_head p) (p_size p)"

definition playout_stream :: "rtw_playout_t \<Rightarrow> token list" where
  "playout_stream p = token_stream 0 (playout_audio p) (active_marks p)"

definition playout_inv :: "rtw_playout_t \<Rightarrow> bool" where
  "playout_inv p \<longleftrightarrow>
     0 < p_capacity p \<and> length (p_buf p) = p_capacity p \<and> p_size p \<le> p_capacity p \<and>
     p_head p < p_capacity p \<and> p_tail p = (p_head p + p_size p) mod p_capacity p \<and>
     length (p_marks p) = RTW_MARK_MAX \<and> p_mark_count p \<le> RTW_MARK_MAX \<and>
     table_ok 0 (p_size p) (active_marks p) \<and>
     (\<forall>m \<in> set (active_marks p). length (mark_name m) < RTW_MARK_NAME_LEN)"

lemma playout_invD:
  assumes "playout_inv p"
  shows "0 < p_capacity p" "length (p_buf p) = p_capacity p" "p_size p \<le> p_capacity p"
    "p_head p < p_capacity p" "p_tail p = (p_head p + p_size p) mod p_capacity p"
    "length (p_marks p) = RTW_MARK_MAX" "p_mark_count p \<le> RTW_MARK_MAX"
    "table_ok 0 (p_size p) (active_marks p)"
    "\<And>m. m \<in> set (active_marks p) \<Longrightarrow> length (mark_name m) < RTW_MARK_NAME_LEN"
    "length (active_marks p) = p_mark_count p"
  using assms by (auto simp: playout_inv_def active_marks_def)

lemma length_playout_audio [simp]: "length (playout_audio p) = p_size p"
  by (simp add: playout_audio_def)

lemma audio_of_playout_stream [simp]: "audio_of (playout_stream p) = playout_audio p"
  by (simp add: playout_stream_def)

lemma marks_of_playout_stream [simp]: "marks_of (playout_stream p) = map mark_name (active_marks p)"
  by (simp add: playout_stream_def)

lemma write_loop_ring:
  assumes "length buf = cap" "n + length data \<le> cap" "0 < cap"
  shows "length (fst (write_loop cap buf ((h + n) mod cap) data)) = cap \<and>
    ring_window (fst (write_loop cap buf ((h + n) mod cap) data)) h (n + length data) = ring_window buf h n @ data \<and>
    snd (write_loop cap buf ((h + n) mod cap) data) = (h + (n + length data)) mod cap"
  using assms
proof (induction data arbitrary: buf n)
  case (Cons b bs)
  have tl: "Suc ((h + n) mod cap) mod cap = (h + Suc n) mod cap" by (simp add: mod_Suc_eq)
  have "ring_window (buf[(h + n) mod cap := b]) h (Suc n) = ring_window buf h n @ [b]"
    using ring_window_push [of n buf h b] Cons.prems by simp
  then show ?case
    using Cons.IH [of "buf[(h + n) mod cap := b]" "Suc n"] Cons.prems by (simp add: tl)
qed simp

lemma read_loop_ring:
  assumes "length buf = cap" "0 < cap"
  shows "read_loop cap buf (h mod cap) n = (ring_window buf h n, (h + n) mod cap)"
  using assms by (induction n arbitrary: h) (simp_all add: ring_window_Suc mod_Suc_eq)

lemma playout_write_ok:
  assumes "playout_inv p" "p_size p + length data \<le> p_capacity p"
  shows "fst (rtw_playout_write p data) = 0"
    "playout_inv (snd (rtw_playout_write p data))"
    "playout_stream (snd (rtw_playout_write p data)) = playout_stream p @ map Audio data"
proof -
  note inv = playout_invD [OF assms(1)]
  obtain buf tl where w: "write_loop (p_capacity p) (p_buf p) (p_tail p) data = (buf, tl)"
    by (cases "write_loop (p_capacity p) (p_buf p) (p_tail p) data")
  let ?p = "p\<lparr>p_buf := buf, p_tail := tl, p_size := p_size p + length data,
              p_enqueued_bytes := p_enqueued_bytes p + of_nat (length data)\<rparr>"
  note ring = write_loop_ring [OF inv(2) assms(2) inv(1), of "p_head p", folded inv(5), unfolded w fst_conv snd_conv]
  have tl: "tl = (p_head p + (p_size p + length data)) mod p_capacity p" and len: "length buf = p_capacity p"
    using ring by simp_all
  have audio: "playout_audio ?p = playout_audio p @ data" using ring by (simp add: playout_audio_def)
  have marks: "active_marks ?p = active_marks p" by (simp add: active_marks_def)
  have "table_ok 0 (p_size p + length data) (active_marks p)" using inv(8) by (auto simp: table_ok_def)
  then have p': "playout_inv ?p"
    unfolding playout_inv_def marks using inv(1-7,9) assms(2) tl len by simp
  have str: "playout_stream ?p = playout_stream p @ map Audio data"
    using token_stream_write [of 0 "playout_audio p" "active_marks p" data] inv(8)
    by (simp add: playout_stream_def audio marks)
  have "rtw_playout_write p data = (if data = [] then (0, p) else (0, ?p))"
    using assms(2) w by (simp add: rtw_playout_write_def)
  then show "fst (rtw_playout_write p data) = 0"
    "playout_inv (snd (rtw_playout_write p data))"
    "playout_stream (snd (rtw_playout_write p data)) = playout_stream p @ map Audio data"
    using p' str assms(1) by auto
qed

lemma playout_write_full:
  "p_capacity p < p_size p + length data \<Longrightarrow> p_size p \<le> p_capacity p \<Longrightarrow> rtw_playout_write p data = (- 1, p)"
  by (auto simp: rtw_playout_write_def)

lemma playout_read:
  assumes "playout_inv p"
  shows "fst (rtw_playout_read p n) = take n (playout_audio p)"
    "playout_inv (snd (rtw_playout_read p n))"
    "playout_stream (snd (rtw_playout_read p n)) = skip_audio n (playout_stream p)"
    "p_capacity (snd (rtw_playout_read p n)) = p_capacity p"
proof -
  note inv = playout_invD [OF assms(1)]
  define k where "k = (if n < p_size p then n else p_size p)"
  define p' where "p' = advance_marks_on_read (p\<lparr>p_head := (p_head p + k) mod p_capacity p, p_size := p_size p - k,
                     p_dequeued_bytes := p_dequeued_bytes p + of_nat k\<rparr>) k"
  have k: "k \<le> p_size p" by (simp add: k_def)
  have r: "read_loop (p_capacity p) (p_buf p) (p_head p) k = (take k (playout_audio p), (p_head p + k) mod p_capacity p)"
    using read_loop_ring [OF inv(2,1), of "p_head p" k] inv(4) ring_window_take [OF k, of "p_buf p" "p_head p"]
    by (simp add: playout_audio_def)
  have audio: "playout_audio p' = drop k (playout_audio p)"
    using ring_window_drop [OF k, of "p_buf p" "p_head p"] ring_window_mod [of "p_buf p" "p_head p + k" "p_size p - k"] inv(2)
    by (simp add: p'_def playout_audio_def advance_marks_on_read_def)
  have marks: "active_marks p' = map (advance_mark k) (active_marks p)"
    using inv(6,7) by (simp add: p'_def active_marks_def advance_marks_on_read_def)
  have "token_stream 0 (drop k (playout_audio p)) (map (advance_mark k) (active_marks p)) = skip_audio k (playout_stream p)"
    using token_stream_read [of 0 "playout_audio p" "active_marks p" k] inv(8) by (simp add: playout_stream_def)
  moreover have "k = min n (p_size p)" by (auto simp: k_def)
  then have "skip_audio k (playout_stream p) = skip_audio n (playout_stream p)"
    using skip_audio_min [of n "playout_stream p"] by simp
  ultimately have str: "playout_stream p' = skip_audio n (playout_stream p)"
    by (simp add: playout_stream_def audio marks)
  have "table_ok 0 (p_size p - k) (active_marks p')"
    using table_ok_advance [OF inv(8)] by (simp add: marks)
  moreover have "length (mark_name m) < RTW_MARK_NAME_LEN" if "m \<in> set (active_marks p')" for m
    using that inv(9) by (auto simp: marks advance_mark_def)
  moreover have "((p_head p + k) mod p_capacity p + (p_size p - k)) mod p_capacity p = p_tail p"
    using inv(5) k mod_add_left_eq [of "p_head p + k" "p_capacity p" "p_size p - k"] by simp
  ultimately have p': "playout_inv p'"
    unfolding playout_inv_def using inv(1-7)
    by (simp add: p'_def advance_marks_on_read_def)
  have takes: "take k (playout_audio p) = take n (playout_audio p)" by (simp add: k_def)
  have cap': "p_capacity p' = p_capacity p" by (simp add: p'_def advance_marks_on_read_def)
  show "fst (rtw_playout_read p n) = take n (playout_audio p)"
    "playout_inv (snd (rtw_playout_read p n))"
    "playout_stream (snd (rtw_playout_read p n)) = skip_audio n (playout_stream p)"
    "p_capacity (snd (rtw_playout_read p n)) = p_capacity p"
    using p' str assms(1) takes cap'
    by (auto simp: rtw_playout_read_def Let_def r p'_def [symmetric] k_def [symmetric])
qed

lemma playout_add_mark:
  assumes "playout_inv p" "p_mark_count p < RTW_MARK_MAX"
  shows "fst (rtw_playout_add_mark p nm) = 0"
    "playout_inv (snd (rtw_playout_add_mark p nm))"
    "playout_stream (snd (rtw_playout_add_mark p nm)) = playout_stream p @ [Mark (snprintf_s RTW_MARK_NAME_LEN nm)]"
proof -
  note inv = playout_invD [OF assms(1)]
  let ?m = "\<lparr>mark_name = snprintf_s RTW_MARK_NAME_LEN nm, bytes_after = p_size p\<rparr>"
  let ?p = "p\<lparr>p_marks := (p_marks p)[p_mark_count p := ?m], p_mark_count := p_mark_count p + 1\<rparr>"
  have eq: "rtw_playout_add_mark p nm = (0, ?p)" using assms(2) by (simp add: rtw_playout_add_mark_def)
  have marks: "active_marks ?p = active_marks p @ [?m]"
    using inv(6) assms(2) by (simp add: active_marks_def take_Suc_conv_app_nth)
  have audio: "playout_audio ?p = playout_audio p" by (simp add: playout_audio_def)
  have "table_ok 0 (p_size p) (active_marks p @ [?m])"
    using inv(8) by (auto simp: table_ok_def sorted_append)
  then show "playout_inv (snd (rtw_playout_add_mark p nm))"
    unfolding eq snd_conv playout_inv_def marks
    using inv(1-7,9) assms(2) by (auto simp: RTW_MARK_NAME_LEN_def)
  show "playout_stream (snd (rtw_playout_add_mark p nm)) = playout_stream p @ [Mark (snprintf_s RTW_MARK_NAME_LEN nm)]"
    unfolding eq snd_conv playout_stream_def marks audio
    using token_stream_add_mark [of 0 "playout_audio p" "active_marks p" ?m] inv(8) by simp
qed (use assms(2) in \<open>simp add: rtw_playout_add_mark_def\<close>)

declare pop_marks_loop.simps [simp del]

lemma remove_mark_active:
  assumes "i < count" "count \<le> length ms"
  shows "length (remove_mark ms count i) = length ms"
    "take i (remove_mark ms count i) = take i ms"
    "drop i (take (count - 1) (remove_mark ms count i)) = drop (Suc i) (take count ms)"
  using assms by (auto simp: remove_mark_def drop_take min_def)

lemma pop_marks_loop_filter:
  assumes "i \<le> count" "count \<le> length ms"
  shows "case pop_marks_loop ms count i max_out names of (names', ms', count') \<Rightarrow>
    names' = names @ take (max_out - length names)
      (map (\<lambda>m. snprintf_s RTW_MARK_NAME_LEN (mark_name m)) (filter (\<lambda>m. bytes_after m = 0) (drop i (take count ms)))) \<and>
    take count' ms' = take i ms @ filter (\<lambda>m. bytes_after m \<noteq> 0) (drop i (take count ms)) \<and>
    length ms' = length ms \<and> count' \<le> count"
  using assms
proof (induction ms count i max_out names rule: pop_marks_loop.induct)
  case (1 ms count i max_out names)
  show ?case
  proof (cases "i < count")
    case False
    then have "pop_marks_loop ms count i max_out names = (names, ms, count)"
      by (simp add: pop_marks_loop.simps [of ms count i])
    then show ?thesis using False 1(3,4) by simp
  next
    case less: True
    then have split: "drop i (take count ms) = ms ! i # drop (Suc i) (take count ms)"
      using 1(4) Cons_nth_drop_Suc [of i "take count ms"] by simp
    show ?thesis
    proof (cases "bytes_after (ms ! i) = 0")
      case True
      note rm = remove_mark_active [OF less 1(4)]
      have "i \<le> count - 1" "count - 1 \<le> length (remove_mark ms count i)" using less 1(4) rm by auto
      note IH = 1(1) [OF less True this]
      have "pop_marks_loop ms count i max_out names = pop_marks_loop (remove_mark ms count i) (count - 1) i max_out
             (if length names < max_out
              then names @ [snprintf_s RTW_MARK_NAME_LEN (mark_name (ms ! i))] else names)"
        using less True by (simp add: pop_marks_loop.simps [of ms count i])
      then show ?thesis using IH less True unfolding split
        by (auto simp: rm [unfolded One_nat_def] take_Cons' split: prod.splits if_splits)
    next
      case False
      have "Suc i \<le> count" using less by simp
      note IH = 1(2) [OF less False, unfolded Suc_eq_plus1 [symmetric], OF this 1(4)]
      have "pop_marks_loop ms count i max_out names = pop_marks_loop ms count (Suc i) max_out names"
        using less False by (simp add: pop_marks_loop.simps [of ms count i])
      moreover have "take (Suc i) ms = take i ms @ [ms ! i]"
        using less 1(4) by (simp add: take_Suc_conv_app_nth)
      ultimately show ?thesis using IH False unfolding split
        by (auto split: prod.splits)
    qed
  qed
qed

text \<open>In an ordered table the completed marks come first.\<close>

lemma completed_marks_prefix:
  assumes "table_ok 0 (length bs) ms"
  shows "marks_upto 0 (token_stream 0 bs ms) = map mark_name (filter (\<lambda>m. bytes_after m = 0) ms)"
    "after_marks (token_stream 0 bs ms) = token_stream 0 bs (filter (\<lambda>m. bytes_after m \<noteq> 0) ms)"
proof -
  have "marks_upto 0 (token_stream 0 bs ms) = map mark_name (filter (\<lambda>m. bytes_after m = 0) ms) \<and>
    after_marks (token_stream 0 bs ms) = token_stream 0 bs (filter (\<lambda>m. bytes_after m \<noteq> 0) ms)"
    using assms
  proof (induction ms)
    case Nil
    then show ?case by (cases bs) auto
  next
    case (Cons m ms)
    show ?case
    proof (cases "bytes_after m = 0")
      case True
      then show ?thesis using Cons by simp
    next
      case False
      then have "0 < bytes_after x" if "x \<in> set ms" for x
        using that Cons.prems by (auto simp: table_ok_def)
      then have "filter (\<lambda>m. bytes_after m = 0) ms = []" "filter (\<lambda>m. 0 < bytes_after m) ms = ms"
        by (auto simp: filter_empty_conv filter_id_conv)
      moreover obtain b bs' where "bs = b # bs'" using False Cons.prems by (cases bs) auto
      moreover obtain k where "bytes_after m = Suc k" using False by (cases "bytes_after m") auto
      ultimately show ?thesis by simp
    qed
  qed
  then show "marks_upto 0 (token_stream 0 bs ms) = map mark_name (filter (\<lambda>m. bytes_after m = 0) ms)"
    "after_marks (token_stream 0 bs ms) = token_stream 0 bs (filter (\<lambda>m. bytes_after m \<noteq> 0) ms)" by blast+
qed

lemma playout_pop:
  assumes "playout_inv p"
  shows "fst (rtw_playout_pop_completed_marks p max_out) = take max_out (marks_upto 0 (playout_stream p))"
    "playout_inv (snd (rtw_playout_pop_completed_marks p max_out))"
    "playout_stream (snd (rtw_playout_pop_completed_marks p max_out)) = after_marks (playout_stream p)"
    "p_capacity (snd (rtw_playout_pop_completed_marks p max_out)) = p_capacity p"
proof -
  note inv = playout_invD [OF assms(1)]
  obtain names ms count where loop: "pop_marks_loop (p_marks p) (p_mark_count p) 0 max_out [] = (names, ms, count)"
    by (cases "pop_marks_loop (p_marks p) (p_mark_count p) 0 max_out []") auto
  let ?p = "p\<lparr>p_marks := ms, p_mark_count := count\<rparr>"
  have eq: "rtw_playout_pop_completed_marks p max_out = (names, ?p)"
    by (simp add: rtw_playout_pop_completed_marks_def loop)
  have res: "names = take max_out (map (\<lambda>m. snprintf_s RTW_MARK_NAME_LEN (mark_name m))
        (filter (\<lambda>m. bytes_after m = 0) (active_marks p)))"
    "active_marks ?p = filter (\<lambda>m. bytes_after m \<noteq> 0) (active_marks p)"
    "length ms = RTW_MARK_MAX" "count \<le> p_mark_count p"
    using pop_marks_loop_filter [of 0 "p_mark_count p" "p_marks p" "[]" max_out] inv(6,7) loop
    by (simp_all add: active_marks_def)
  have names: "map (\<lambda>m. snprintf_s RTW_MARK_NAME_LEN (mark_name m)) (filter P (active_marks p)) =
      map mark_name (filter P (active_marks p))" for P
    using inv(9) by (auto simp: snprintf_s_fits)
  have audio: "playout_audio ?p = playout_audio p" by (simp add: playout_audio_def)
  have tab: "table_ok 0 (p_size p) (filter P (active_marks p))" for P
    using inv(8) by (auto simp: table_ok_def sorted_filter)
  note pre = completed_marks_prefix [of "playout_audio p" "active_marks p", simplified, OF inv(8)]
  show "fst (rtw_playout_pop_completed_marks p max_out) = take max_out (marks_upto 0 (playout_stream p))"
    unfolding eq fst_conv res(1) names by (simp add: playout_stream_def pre)
  show "playout_inv (snd (rtw_playout_pop_completed_marks p max_out))"
    unfolding eq snd_conv playout_inv_def res(2) using inv(1-7,9) tab res(3,4) by auto
  show "playout_stream (snd (rtw_playout_pop_completed_marks p max_out)) = after_marks (playout_stream p)"
    unfolding eq snd_conv playout_stream_def res(2) audio pre by simp
  show "p_capacity (snd (rtw_playout_pop_completed_marks p max_out)) = p_capacity p"
    by (simp add: eq)
qed

lemma playout_clear:
  assumes "playout_inv p"
  shows "fst (rtw_playout_clear p max_out) = take max_out (marks_of (playout_stream p))"
    "playout_inv (snd (rtw_playout_clear p max_out))"
    "playout_stream (snd (rtw_playout_clear p max_out)) = []"
proof -
  note inv = playout_invD [OF assms(1)]
  have "map (\<lambda>m. snprintf_s RTW_MARK_NAME_LEN (mark_name m)) (take max_out (active_marks p)) =
      take max_out (map mark_name (active_marks p))"
    unfolding take_map by (rule map_cong [OF refl]) (use inv(9) in \<open>auto simp: snprintf_s_fits dest: in_set_takeD\<close>)
  then show "fst (rtw_playout_clear p max_out) = take max_out (marks_of (playout_stream p))"
    by (simp add: rtw_playout_clear_def active_marks_def [symmetric])
  show "playout_inv (snd (rtw_playout_clear p max_out))"
    using inv(1,2,6) by (simp add: rtw_playout_clear_def playout_inv_def active_marks_def)
  show "playout_stream (snd (rtw_playout_clear p max_out)) = []"
    by (simp add: rtw_playout_clear_def playout_stream_def active_marks_def playout_audio_def)
qed

lemma playout_init:
  assumes "rtw_playout_init capacity mem = Some p"
  shows "playout_inv p" "playout_stream p = []" "p_capacity p = capacity"
  using assms
  by (auto simp: rtw_playout_init_def playout_inv_def zero_playout_def active_marks_def
      playout_stream_def playout_audio_def split: if_splits option.splits)

section \<open>The playout buffer as an interface\<close>

text \<open>
  What the session relies on: a bounded stream of audio and marks. \<open>harvest p k\<close> removes every
  mark in front of the stream and reports at most \<open>k\<close> of them.
\<close>

locale mark_stream_buffer =
  fixes wr :: "'p \<Rightarrow> bytes \<Rightarrow> int \<times> 'p"
    and rd :: "'p \<Rightarrow> nat \<Rightarrow> bytes \<times> 'p"
    and add_mark :: "'p \<Rightarrow> string \<Rightarrow> int \<times> 'p"
    and harvest :: "'p \<Rightarrow> nat \<Rightarrow> string list \<times> 'p"
    and clear :: "'p \<Rightarrow> nat \<Rightarrow> string list \<times> 'p"
    and stream :: "'p \<Rightarrow> token list"
    and cap :: "'p \<Rightarrow> nat"
    and inv :: "'p \<Rightarrow> bool"
    and max_marks :: nat
    and name_len :: nat
  assumes write_ok: "inv p \<Longrightarrow> length (audio_of (stream p)) + length d \<le> cap p \<Longrightarrow>
      fst (wr p d) = 0 \<and> stream (snd (wr p d)) = stream p @ map Audio d"
    and write_full: "inv p \<Longrightarrow> cap p < length (audio_of (stream p)) + length d \<Longrightarrow> wr p d = (- 1, p)"
    and write_inv: "inv p \<Longrightarrow> inv (snd (wr p d)) \<and> cap (snd (wr p d)) = cap p"
    and read_out: "inv p \<Longrightarrow> fst (rd p n) = take n (audio_of (stream p))"
    and read_stream: "inv p \<Longrightarrow> stream (snd (rd p n)) = skip_audio n (stream p)"
    and read_inv: "inv p \<Longrightarrow> inv (snd (rd p n)) \<and> cap (snd (rd p n)) = cap p"
    and mark_ok: "inv p \<Longrightarrow> length (marks_of (stream p)) < max_marks \<Longrightarrow>
      fst (add_mark p s) = 0 \<and> stream (snd (add_mark p s)) = stream p @ [Mark (snprintf_s name_len s)]"
    and mark_full: "inv p \<Longrightarrow> max_marks \<le> length (marks_of (stream p)) \<Longrightarrow> add_mark p s = (- 1, p)"
    and mark_inv: "inv p \<Longrightarrow> inv (snd (add_mark p s)) \<and> cap (snd (add_mark p s)) = cap p"
    and harvest_out: "inv p \<Longrightarrow> fst (harvest p k) = take k (marks_upto 0 (stream p))"
    and harvest_stream: "inv p \<Longrightarrow> stream (snd (harvest p k)) = after_marks (stream p)"
    and harvest_inv: "inv p \<Longrightarrow> inv (snd (harvest p k)) \<and> cap (snd (harvest p k)) = cap p"
    and clear_out: "inv p \<Longrightarrow> fst (clear p k) = take k (marks_of (stream p))"
    and clear_stream: "inv p \<Longrightarrow> stream (snd (clear p k)) = []"
    and clear_inv: "inv p \<Longrightarrow> inv (snd (clear p k)) \<and> cap (snd (clear p k)) = cap p"
    and marks_bounded: "inv p \<Longrightarrow> length (marks_of (stream p)) \<le> max_marks"
    and audio_bounded: "inv p \<Longrightarrow> length (audio_of (stream p)) \<le> cap p"
begin

lemma completed_bounded: "inv p \<Longrightarrow> length (marks_upto 0 (stream p)) \<le> max_marks"
  using marks_bounded [of p] marks_upto_after_marks [of "stream p"] by simp

lemma harvest_all: "inv p \<Longrightarrow> max_marks \<le> k \<Longrightarrow> fst (harvest p k) @ marks_of (stream (snd (harvest p k))) = marks_of (stream p)"
  using completed_bounded [of p] marks_upto_after_marks [of "stream p"]
  by (simp add: harvest_out harvest_stream)

lemma read_harvest:
  assumes "inv p"
  shows "fst (harvest (snd (rd p n)) k) = take k (marks_upto n (stream p))"
    "stream (snd (harvest (snd (rd p n)) k)) = after_marks (skip_audio n (stream p))"
    "inv (snd (harvest (snd (rd p n)) k))"
  using assms by (simp_all add: harvest_out harvest_stream harvest_inv read_inv read_stream marks_upto_skip_audio)

lemma write_stream:
  "inv p \<Longrightarrow> stream (snd (wr p d)) = stream p @ (if fst (wr p d) = 0 then map Audio d else [])"
  using write_ok [of p d] write_full [of p d] by (cases "length (audio_of (stream p)) + length d \<le> cap p") auto

lemma mark_stream:
  "inv p \<Longrightarrow> stream (snd (add_mark p s)) = stream p @ (if fst (add_mark p s) = 0 then [Mark (snprintf_s name_len s)] else [])"
  using mark_ok [of p s] mark_full [of p s] by (cases "length (marks_of (stream p)) < max_marks") auto

end

interpretation play: mark_stream_buffer rtw_playout_write rtw_playout_read rtw_playout_add_mark
  rtw_playout_pop_completed_marks rtw_playout_clear playout_stream p_capacity playout_inv
  RTW_MARK_MAX RTW_MARK_NAME_LEN
proof unfold_locales
  fix p :: rtw_playout_t and d :: bytes and n :: nat and s :: string
  assume inv: "playout_inv p"
  note D = playout_invD [OF inv]
  show "length (audio_of (playout_stream p)) + length d \<le> p_capacity p \<Longrightarrow>
      fst (rtw_playout_write p d) = 0 \<and> playout_stream (snd (rtw_playout_write p d)) = playout_stream p @ map Audio d"
    using playout_write_ok [OF inv] by simp
  show "p_capacity p < length (audio_of (playout_stream p)) + length d \<Longrightarrow> rtw_playout_write p d = (- 1, p)"
    using playout_write_full [of p d] D(3) by simp
  show "playout_inv (snd (rtw_playout_write p d)) \<and> p_capacity (snd (rtw_playout_write p d)) = p_capacity p"
    using playout_write_ok(2) [OF inv, of d] playout_write_full [of p d] D(3) inv
    by (cases "p_size p + length d \<le> p_capacity p") (auto simp: rtw_playout_write_def split: prod.splits)
  show "length (marks_of (playout_stream p)) < RTW_MARK_MAX \<Longrightarrow> fst (rtw_playout_add_mark p s) = 0 \<and>
      playout_stream (snd (rtw_playout_add_mark p s)) = playout_stream p @ [Mark (snprintf_s RTW_MARK_NAME_LEN s)]"
    "RTW_MARK_MAX \<le> length (marks_of (playout_stream p)) \<Longrightarrow> rtw_playout_add_mark p s = (- 1, p)"
    "playout_inv (snd (rtw_playout_add_mark p s)) \<and> p_capacity (snd (rtw_playout_add_mark p s)) = p_capacity p"
    using playout_add_mark [OF inv] D(10) inv by (auto simp: rtw_playout_add_mark_def)
  show "playout_inv (snd (rtw_playout_clear p n)) \<and> p_capacity (snd (rtw_playout_clear p n)) = p_capacity p"
    using playout_clear(2) [OF inv] by (simp add: rtw_playout_clear_def)
qed (simp_all add: playout_read playout_pop playout_clear playout_invD)

section \<open>Runs\<close>

text \<open>A history of calls, with what was accepted and what came out of the buffer.\<close>

datatype playout_op = P_Write bytes | P_Add_Mark string | P_Read nat | P_Pop nat

record playout_log =
  log_written :: bytes
  log_played :: bytes
  log_marked :: "string list"
  log_acked :: "string list"

fun playout_step :: "playout_op \<Rightarrow> playout_log \<times> rtw_playout_t \<Rightarrow> playout_log \<times> rtw_playout_t" where
  "playout_step (P_Write d) (l, p) =
     (case rtw_playout_write p d of (rc, p') \<Rightarrow>
        (l\<lparr>log_written := log_written l @ (if rc = 0 then d else [])\<rparr>, p'))"
| "playout_step (P_Add_Mark s) (l, p) =
     (case rtw_playout_add_mark p s of (rc, p') \<Rightarrow>
        (l\<lparr>log_marked := log_marked l @ (if rc = 0 then [snprintf_s RTW_MARK_NAME_LEN s] else [])\<rparr>, p'))"
| "playout_step (P_Read n) (l, p) =
     (case rtw_playout_read p n of (out, p') \<Rightarrow> (l\<lparr>log_played := log_played l @ out\<rparr>, p'))"
| "playout_step (P_Pop k) (l, p) =
     (case rtw_playout_pop_completed_marks p k of (names, p') \<Rightarrow> (l\<lparr>log_acked := log_acked l @ names\<rparr>, p'))"

definition log_ok :: "playout_log \<times> rtw_playout_t \<Rightarrow> bool" where
  "log_ok lp \<longleftrightarrow> playout_inv (snd lp) \<and>
     log_played (fst lp) @ audio_of (playout_stream (snd lp)) = log_written (fst lp) \<and>
     log_acked (fst lp) @ marks_of (playout_stream (snd lp)) = log_marked (fst lp)"

fun big_pop :: "playout_op \<Rightarrow> bool" where
  "big_pop (P_Pop k) = (RTW_MARK_MAX \<le> k)"
| "big_pop _ = True"

lemma playout_step_log_ok:
  assumes "log_ok lp" "big_pop op"
  shows "log_ok (playout_step op lp)"
proof -
  obtain l p where lp: "lp = (l, p)" by (cases lp)
  have inv: "playout_inv p" using assms(1) by (simp add: log_ok_def lp)
  show ?thesis
  proof (cases op)
    case (P_Write d)
    then show ?thesis using assms(1) play.write_inv [OF inv, of d] play.write_stream [OF inv, of d]
      by (cases "rtw_playout_write p d") (simp add: log_ok_def lp)
  next
    case (P_Add_Mark s)
    then show ?thesis using assms(1) play.mark_inv [OF inv, of s] play.mark_stream [OF inv, of s]
      by (cases "rtw_playout_add_mark p s") (simp add: log_ok_def lp)
  next
    case (P_Read n)
    then show ?thesis
      using assms(1) play.read_inv [OF inv, of n] play.read_out [OF inv, of n] play.read_stream [OF inv, of n]
      by (cases "rtw_playout_read p n") (simp add: log_ok_def lp audio_of_skip_audio)
  next
    case (P_Pop k)
    then show ?thesis
      using assms play.harvest_inv [OF inv, of k] play.harvest_all [OF inv, of k] play.harvest_stream [OF inv, of k]
      by (cases "rtw_playout_pop_completed_marks p k") (simp add: log_ok_def lp del: marks_of_playout_stream)
  qed
qed

definition empty_log :: playout_log where
  "empty_log = \<lparr>log_written = [], log_played = [], log_marked = [], log_acked = []\<rparr>"


lemma playout_run_log_ok:
  "log_ok lp \<Longrightarrow> list_all big_pop ops \<Longrightarrow> log_ok (fold playout_step ops lp)"
  by (induction ops arbitrary: lp) (simp_all add: playout_step_log_ok)

text \<open>A small buffer for the concrete instances: eight bytes of capacity.\<close>

definition playout8 :: rtw_playout_t where
  "playout8 = zero_playout\<lparr>p_buf := replicate 8 0, p_capacity := 8\<rparr>"

lemma playout8_init: "rtw_playout_init 8 (Some (\<lambda>_. 0)) = Some playout8"
  by (simp add: rtw_playout_init_def playout8_def map_replicate_const)

lemmas playout8 = playout_init [OF playout8_init]

section \<open>Properties\<close>





text \<open>
  A write is all or nothing. It succeeds exactly when the data fits into the free space and
  then appends all of it behind the marks already queued; otherwise it returns -1 and the buffer
  is unchanged.
\<close>

lemma playout_write_all_or_nothing:
  assumes "playout_inv p"
  shows "if p_size p + length data \<le> p_capacity p
    then fst (rtw_playout_write p data) = 0 \<and>
      playout_stream (snd (rtw_playout_write p data)) = playout_stream p @ map Audio data
    else rtw_playout_write p data = (- 1, p)"
  using play.write_ok [OF assms, of data] play.write_full [OF assms, of data] by simp

text \<open>
  \<open>clear\<close> (barge-in). With room for the table, all pending marks are handed back in the order
  in which they were queued, and no audio and no mark is left.
\<close>

lemma playout_clear_returns_marks:
  assumes "playout_inv p" "RTW_MARK_MAX \<le> max_out" "rtw_playout_clear p max_out = (names, p')"
  shows "names = map mark_name (active_marks p) \<and> playout_stream p' = [] \<and> p_size p' = 0 \<and> playout_inv p' \<and>
    p_clear_count p' = p_clear_count p + 1"
proof -
  have "p_size p' = 0 \<and> p_clear_count p' = p_clear_count p + 1"
    using assms(3) by (auto simp: rtw_playout_clear_def)
  then show ?thesis
    using play.clear_out [OF assms(1), of max_out] play.clear_stream [OF assms(1), of max_out]
      play.clear_inv [OF assms(1), of max_out] playout_invD(7,10) [OF assms(1)] assms(2,3) by simp
qed

text \<open>
  A harvest with too little room loses marks. The completed marks beyond \<open>max_out\<close> are removed
  from the table although they are not reported, so no later harvest or clear can report them.
\<close>

lemma playout_pop_drops_excess:
  assumes "playout_inv p" "max_out < length (marks_upto 0 (playout_stream p))"
    and "rtw_playout_pop_completed_marks p max_out = (names, p')"
  shows "length names = max_out \<and>
    p_mark_count p' + length names < p_mark_count p \<and>
    fst (rtw_playout_pop_completed_marks p' k) = []"
proof -
  have h: "names = take max_out (marks_upto 0 (playout_stream p))" "playout_stream p' = after_marks (playout_stream p)"
    "playout_inv p'"
    using play.harvest_out [OF assms(1), of max_out] play.harvest_stream [OF assms(1), of max_out]
      play.harvest_inv [OF assms(1), of max_out] assms(3) by simp_all
  have "marks_upto 0 (after_marks ts) = []" for ts by (induction ts rule: after_marks.induct) auto
  then have "fst (rtw_playout_pop_completed_marks p' k) = []"
    using play.harvest_out [OF h(3), of k] h(2) by simp
  moreover have "p_mark_count p = length (marks_upto 0 (playout_stream p)) + p_mark_count p'"
    using arg_cong [OF marks_upto_after_marks [of "playout_stream p"], of length] playout_invD(10) [OF assms(1)]
      playout_invD(10) [OF h(3)] by (simp flip: h(2))
  ultimately show ?thesis using assms(2) h(1) by simp
qed

end
