(* ===== verification/Rtw_Session.thy ===== *)
theory Rtw_Session
  imports Rtw_Protocol Rtw_Mulaw Rtw_Queue Rtw_Playout
begin

text \<open>
  One media stream, \<open>src/core/rtw_session.c\<close>: the life cycle, the packing of call audio into media
  messages, the handling of the peer's messages and the acknowledgement of marks.
  \<^item> A function returns its return code with the session after the call. The pointer arguments
    are not NULL in the callers; the optional strings of \<open>rtw_session_start\<close> are \<open>None\<close> for NULL.
  \<^item> Each message that is built and queued takes a pair from a sequence of allocation outcomes
    \<open>mem\<close>: whether the builder and whether the queue obtain their memory.
  \<^item> The time of \<open>mono_ns\<close> is an argument \<open>now\<close>. The buckets of the clear latency are a list of
    eight counters.
\<close>

section \<open>Definitions\<close>

definition RTW_FRAME_MULAW_BYTES :: nat where "RTW_FRAME_MULAW_BYTES = 160"

datatype rtw_session_state_t =
    RTW_STATE_IDLE
  | RTW_STATE_STARTING
  | RTW_STATE_RUNNING
  | RTW_STATE_STOPPING
  | RTW_STATE_STOPPED

record rtw_session_t =
  s_stream_sid :: string
  s_call_sid :: string
  s_account_sid :: string
  s_custom_params :: "string option"
  s_state :: rtw_session_state_t
  s_seq :: uint32
  s_chunk :: uint32
  s_timestamp_ms :: uint32
  s_outbound :: rtw_bounded_queue_t
  s_playout :: rtw_playout_t
  s_paused :: bool
  s_uplink_frames :: uint64
  s_downlink_frames :: uint64
  s_clear_events :: uint64
  s_clear_armed :: bool
  s_clear_start_ns :: uint64
  s_clear_latency_last_us :: uint64
  s_clear_latency_max_us :: uint64
  s_clear_latency_sum_us :: uint64
  s_clear_latency_samples :: uint64
  s_clear_latency_buckets :: "uint64 list"

type_synonym alloc = "nat \<Rightarrow> bool \<times> bool"

definition zero_session :: rtw_session_t where
  "zero_session = \<lparr>s_stream_sid = [], s_call_sid = [], s_account_sid = [], s_custom_params = None,
     s_state = RTW_STATE_IDLE, s_seq = 0, s_chunk = 0, s_timestamp_ms = 0,
     s_outbound = zero_queue, s_playout = zero_playout, s_paused = False,
     s_uplink_frames = 0, s_downlink_frames = 0, s_clear_events = 0, s_clear_armed = False,
     s_clear_start_ns = 0, s_clear_latency_last_us = 0, s_clear_latency_max_us = 0,
     s_clear_latency_sum_us = 0, s_clear_latency_samples = 0,
     s_clear_latency_buckets = replicate 8 0\<rparr>"

definition latency_bucket :: "uint64 \<Rightarrow> nat" where
  "latency_bucket us =
     (if us < 1000 then 0 else if us < 2000 then 1 else if us < 5000 then 2 else if us < 10000 then 3
      else if us < 20000 then 4 else if us < 50000 then 5 else if us < 100000 then 6 else 7)"

definition record_clear_latency :: "rtw_session_t \<Rightarrow> uint64 \<Rightarrow> rtw_session_t" where
  "record_clear_latency s us =
     s\<lparr>s_clear_latency_last_us := us,
       s_clear_latency_max_us := (if s_clear_latency_max_us s < us then us else s_clear_latency_max_us s),
       s_clear_latency_sum_us := s_clear_latency_sum_us s + us,
       s_clear_latency_samples := s_clear_latency_samples s + 1,
       s_clear_latency_buckets := (s_clear_latency_buckets s)
         [latency_bucket us := s_clear_latency_buckets s ! latency_bucket us + 1]\<rparr>"

definition rtw_session_init ::
  "nat \<Rightarrow> nat \<Rightarrow> bool \<Rightarrow> (nat \<Rightarrow> uint8) option \<Rightarrow> rtw_session_t option" where
  "rtw_session_init out_queue_cap playout_cap calloc_ok malloc_result =
     (case rtw_queue_init (if out_queue_cap \<noteq> 0 then out_queue_cap else 64) calloc_ok of
        None \<Rightarrow> None
      | Some q \<Rightarrow>
          (case rtw_playout_init (if playout_cap \<noteq> 0 then playout_cap else 8 * 8000) malloc_result of
             None \<Rightarrow> None
           | Some p \<Rightarrow> Some (zero_session\<lparr>s_outbound := q, s_playout := p, s_state := RTW_STATE_IDLE\<rparr>)))"

text \<open>The messages \<open>rtw_session_destroy\<close> frees with the queue, and the zeroed session.\<close>

definition rtw_session_destroy :: "rtw_session_t \<Rightarrow> string list \<times> rtw_session_t" where
  "rtw_session_destroy s = (fst (rtw_queue_destroy (s_outbound s)), zero_session)"

definition enqueue_json :: "rtw_session_t \<Rightarrow> string option \<Rightarrow> bool \<Rightarrow> int \<times> rtw_session_t" where
  "enqueue_json s json ok =
     (case json of
        None \<Rightarrow> (- 1, s)
      | Some text \<Rightarrow> (case rtw_queue_push (s_outbound s) text ok of (rc, q) \<Rightarrow> (rc, s\<lparr>s_outbound := q\<rparr>)))"

text \<open>The common end of \<open>start\<close> and \<open>rehandshake\<close>: the two messages that open a connection.\<close>

definition send_handshake :: "rtw_session_t \<Rightarrow> alloc \<Rightarrow> int \<times> rtw_session_t" where
  "send_handshake s mem =
     (case enqueue_json s (rtw_build_connected (Some ''1.0.0'') (fst (mem 0))) (snd (mem 0)) of (rc, s1) \<Rightarrow>
        if rc \<noteq> 0 then (- 1, s1)
        else (case enqueue_json (s1\<lparr>s_seq := s_seq s1 + 1\<rparr>)
                     (rtw_build_start (s_stream_sid s1) (Some (s_account_sid s1)) (Some (s_call_sid s1))
                        (s_custom_params s1) (s_seq s1) (fst (mem 1))) (snd (mem 1)) of (rc, s2) \<Rightarrow>
                if rc \<noteq> 0 then (- 1, s2) else (0, s2)))"

definition rtw_session_start ::
  "rtw_session_t \<Rightarrow> string \<Rightarrow> string option \<Rightarrow> string option \<Rightarrow> string option \<Rightarrow> bool \<Rightarrow> alloc \<Rightarrow> int \<times> rtw_session_t" where
  "rtw_session_start s stream_sid call_sid account_sid custom_params_json strdup_ok mem =
     (let s1 = s\<lparr>s_stream_sid := snprintf_s RTW_SID_MAX stream_sid,
                 s_call_sid := snprintf_s RTW_SID_MAX (case call_sid of Some c \<Rightarrow> c | None \<Rightarrow> stream_sid),
                 s_account_sid := snprintf_s RTW_SID_MAX (case account_sid of Some a \<Rightarrow> a | None \<Rightarrow> default_account_sid),
                 s_custom_params := None\<rparr>;
          wanted = (case custom_params_json of Some p \<Rightarrow> p \<noteq> [] | None \<Rightarrow> False)
      in if wanted \<and> \<not> strdup_ok then (- 1, s1)
         else let s2 = s1\<lparr>s_custom_params := (if wanted then custom_params_json else None),
                          s_seq := 1, s_chunk := 1, s_timestamp_ms := 0, s_state := RTW_STATE_STARTING\<rparr>
           in case send_handshake s2 mem of (rc, s3) \<Rightarrow>
                if rc \<noteq> 0 then (- 1, s3) else (0, s3\<lparr>s_state := RTW_STATE_RUNNING\<rparr>))"

text \<open>One turn of the loop of \<open>rtw_session_push_pcm16\<close>: the first 160 samples as a media message.\<close>

definition push_frame :: "rtw_session_t \<Rightarrow> int16 list \<Rightarrow> bool \<times> bool \<Rightarrow> int \<times> rtw_session_t" where
  "push_frame s pcm ok =
     (let mulaw = rtw_pcm16_to_mulaw (take RTW_FRAME_MULAW_BYTES pcm);
          json = rtw_build_media (s_stream_sid s) (Some ''inbound'') (s_chunk s) (s_timestamp_ms s) (s_seq s) mulaw (fst ok)
      in case enqueue_json (s\<lparr>s_seq := s_seq s + 1\<rparr>) json (snd ok) of (rc, s1) \<Rightarrow>
           if rc \<noteq> 0 then (- 1, s1)
           else (0, s1\<lparr>s_chunk := s_chunk s1 + 1, s_timestamp_ms := s_timestamp_ms s1 + 20,
                       s_uplink_frames := s_uplink_frames s1 + 1\<rparr>))"

function push_loop :: "rtw_session_t \<Rightarrow> int16 list \<Rightarrow> nat \<Rightarrow> alloc \<Rightarrow> int \<times> rtw_session_t" where
  "push_loop s pcm i mem =
     (if RTW_FRAME_MULAW_BYTES \<le> length pcm then
        (case push_frame s pcm (mem i) of (rc, s1) \<Rightarrow>
           if rc \<noteq> 0 then (- 1, s1) else push_loop s1 (drop RTW_FRAME_MULAW_BYTES pcm) (Suc i) mem)
      else (int (length pcm), s))"
  by pat_completeness auto
termination
  by (relation "measure (\<lambda>(s, pcm, i, mem). length pcm)") (auto simp: RTW_FRAME_MULAW_BYTES_def)

declare push_loop.simps [simp del]

definition rtw_session_push_pcm16 :: "rtw_session_t \<Rightarrow> int16 list \<Rightarrow> alloc \<Rightarrow> int \<times> rtw_session_t" where
  "rtw_session_push_pcm16 s pcm mem =
     (if s_state s \<noteq> RTW_STATE_RUNNING \<or> s_paused s then (- 1, s) else push_loop s pcm 0 mem)"

text \<open>The acknowledgement of one mark, and the two loops over it: with and without \<open>break\<close>.\<close>

definition ack_mark :: "rtw_session_t \<Rightarrow> string \<Rightarrow> bool \<times> bool \<Rightarrow> int \<times> rtw_session_t" where
  "ack_mark s name ok =
     enqueue_json (s\<lparr>s_seq := s_seq s + 1\<rparr>) (rtw_build_mark (s_stream_sid s) name (s_seq s) (fst ok)) (snd ok)"

fun ack_until_error :: "rtw_session_t \<Rightarrow> string list \<Rightarrow> nat \<Rightarrow> alloc \<Rightarrow> int \<times> rtw_session_t" where
  "ack_until_error s [] i mem = (0, s)"
| "ack_until_error s (n # ns) i mem =
     (case ack_mark s n (mem i) of (rc, s1) \<Rightarrow>
        if rc \<noteq> 0 then (- 1, s1) else ack_until_error s1 ns (Suc i) mem)"

fun ack_all :: "rtw_session_t \<Rightarrow> string list \<Rightarrow> nat \<Rightarrow> alloc \<Rightarrow> rtw_session_t" where
  "ack_all s [] i mem = s"
| "ack_all s (n # ns) i mem = ack_all (snd (ack_mark s n (mem i))) ns (Suc i) mem"

definition on_media :: "rtw_session_t \<Rightarrow> bytes \<Rightarrow> int \<times> rtw_session_t" where
  "on_media s payload =
     (case rtw_playout_write (s_playout s) payload of (rc, p) \<Rightarrow>
        if rc \<noteq> 0 then (- 2, s\<lparr>s_playout := p\<rparr>)
        else (0, s\<lparr>s_playout := p, s_downlink_frames := s_downlink_frames s + 1\<rparr>))"

definition on_mark :: "rtw_session_t \<Rightarrow> string \<Rightarrow> int \<times> rtw_session_t" where
  "on_mark s name =
     (case rtw_playout_add_mark (s_playout s) name of (rc, p) \<Rightarrow>
        (if rc = 0 then 0 else - 1, s\<lparr>s_playout := p\<rparr>))"

definition on_clear :: "rtw_session_t \<Rightarrow> uint64 \<Rightarrow> alloc \<Rightarrow> int \<times> rtw_session_t" where
  "on_clear s now mem =
     (case rtw_playout_clear (s_playout s) RTW_MARK_MAX of (flushed, p) \<Rightarrow>
        ack_until_error (s\<lparr>s_playout := p, s_clear_events := s_clear_events s + 1,
                           s_clear_armed := True, s_clear_start_ns := now\<rparr>) flushed 0 mem)"

definition payload_cap :: nat where "payload_cap = 64 * 1024"

definition rtw_session_handle_peer_json ::
  "rtw_session_t \<Rightarrow> string \<Rightarrow> bool \<Rightarrow> uint64 \<Rightarrow> alloc \<Rightarrow> (int \<times> rtw_session_t) c_exec" where
  "rtw_session_handle_peer_json s json malloc_ok now mem =
     (if s_state s \<noteq> RTW_STATE_RUNNING then Ret (- 1, s)
      else if \<not> malloc_ok then Ret (- 1, s)
      else exec_bind (rtw_parse_inbound json payload_cap) (\<lambda>parsed.
        case parsed of
          None \<Rightarrow> Ret (- 1, s)
        | Some ev \<Rightarrow>
            if ev_stream_sid ev \<noteq> [] \<and> ev_stream_sid ev \<noteq> s_stream_sid s then Ret (1, s)
            else (case ev_type ev of
                    RTW_EVT_MEDIA \<Rightarrow> Ret (on_media s (ev_payload ev))
                  | RTW_EVT_MARK \<Rightarrow> Ret (on_mark s (ev_mark_name ev))
                  | RTW_EVT_CLEAR \<Rightarrow> Ret (on_clear s now mem)
                  | _ \<Rightarrow> Ret (0, s))))"

definition rtw_session_harvest_marks :: "rtw_session_t \<Rightarrow> alloc \<Rightarrow> rtw_session_t" where
  "rtw_session_harvest_marks s mem =
     (case rtw_playout_pop_completed_marks (s_playout s) 8 of (completed, p) \<Rightarrow>
        ack_all (s\<lparr>s_playout := p\<rparr>) completed 0 mem)"

definition rtw_session_pop_outbound :: "rtw_session_t \<Rightarrow> alloc \<Rightarrow> string option \<times> rtw_session_t" where
  "rtw_session_pop_outbound s mem =
     (let s1 = rtw_session_harvest_marks s mem
      in case rtw_queue_pop (s_outbound s1) of
           (None, q) \<Rightarrow> (None, s1)
         | (Some item, q) \<Rightarrow> (item_data item, s1\<lparr>s_outbound := q\<rparr>))"

definition rtw_session_peek_outbound :: "rtw_session_t \<Rightarrow> alloc \<Rightarrow> (string option \<times> nat) option \<times> rtw_session_t" where
  "rtw_session_peek_outbound s mem =
     (let s1 = rtw_session_harvest_marks s mem in (rtw_queue_peek (s_outbound s1), s1))"

definition rtw_session_drop_outbound_head :: "rtw_session_t \<Rightarrow> int \<times> rtw_session_t" where
  "rtw_session_drop_outbound_head s =
     (case rtw_queue_drop_head (s_outbound s) of (rc, q) \<Rightarrow> (rc, s\<lparr>s_outbound := q\<rparr>))"

definition rtw_session_read_playout :: "rtw_session_t \<Rightarrow> nat \<Rightarrow> bytes \<times> rtw_session_t" where
  "rtw_session_read_playout s max_len =
     (case rtw_playout_read (s_playout s) max_len of (out, p) \<Rightarrow> (out, s\<lparr>s_playout := p\<rparr>))"

definition rtw_session_note_write_after_clear :: "rtw_session_t \<Rightarrow> nat \<Rightarrow> uint64 \<Rightarrow> rtw_session_t" where
  "rtw_session_note_write_after_clear s playout_samples_written now =
     (if \<not> s_clear_armed s then s
      else if playout_samples_written \<noteq> 0 then s
      else (record_clear_latency s
              (if s_clear_start_ns s \<noteq> 0 then (now - s_clear_start_ns s) div 1000 else 0))
             \<lparr>s_clear_armed := False\<rparr>)"

definition rtw_session_stop :: "rtw_session_t \<Rightarrow> bool \<times> bool \<Rightarrow> int \<times> rtw_session_t" where
  "rtw_session_stop s ok =
     (if s_state s = RTW_STATE_STOPPED \<or> s_state s = RTW_STATE_IDLE then (- 1, s)
      else let s1 = s\<lparr>s_state := RTW_STATE_STOPPING, s_seq := s_seq s + 1\<rparr>
        in case enqueue_json s1
                  (rtw_build_stop (s_stream_sid s) (Some (s_account_sid s)) (Some (s_call_sid s)) (s_seq s) (fst ok))
                  (snd ok) of (rc, s2) \<Rightarrow>
             if rc \<noteq> 0 then (- 1, s2) else (0, s2\<lparr>s_state := RTW_STATE_STOPPED\<rparr>))"

definition rtw_session_rehandshake :: "rtw_session_t \<Rightarrow> alloc \<Rightarrow> int \<times> rtw_session_t" where
  "rtw_session_rehandshake s mem =
     (if s_state s \<noteq> RTW_STATE_RUNNING then (- 1, s) else send_handshake s mem)"

section \<open>The life cycle as an order\<close>

fun state_rank :: "rtw_session_state_t \<Rightarrow> nat" where
  "state_rank RTW_STATE_IDLE = 0"
| "state_rank RTW_STATE_STARTING = 1"
| "state_rank RTW_STATE_RUNNING = 2"
| "state_rank RTW_STATE_STOPPING = 3"
| "state_rank RTW_STATE_STOPPED = 4"

lemma state_rank_inj: "state_rank a = state_rank b \<Longrightarrow> a = b"
  by (cases a; cases b) simp_all

instantiation rtw_session_state_t :: linorder
begin

definition less_eq_rtw_session_state_t :: "rtw_session_state_t \<Rightarrow> rtw_session_state_t \<Rightarrow> bool" where
  "less_eq_rtw_session_state_t a b \<longleftrightarrow> state_rank a \<le> state_rank b"

definition less_rtw_session_state_t :: "rtw_session_state_t \<Rightarrow> rtw_session_state_t \<Rightarrow> bool" where
  "less_rtw_session_state_t a b \<longleftrightarrow> state_rank a < state_rank b"

instance
  by standard (auto simp: less_eq_rtw_session_state_t_def less_rtw_session_state_t_def dest: state_rank_inj)

end

section \<open>Invariant\<close>

definition sid_ok :: "string \<Rightarrow> bool" where
  "sid_ok x \<longleftrightarrow> length x < RTW_SID_MAX \<and> NUL \<notin> set x"

definition session_inv :: "rtw_session_t \<Rightarrow> bool" where
  "session_inv s \<longleftrightarrow>
     queue_inv (s_outbound s) \<and> playout_inv (s_playout s) \<and>
     (\<forall>n \<in> set (marks_of (playout_stream (s_playout s))). NUL \<notin> set n) \<and>
     sid_ok (s_stream_sid s) \<and> sid_ok (s_call_sid s) \<and> sid_ok (s_account_sid s) \<and>
     length (s_clear_latency_buckets s) = 8"

lemma session_invD:
  assumes "session_inv s"
  shows "queue_inv (s_outbound s)" "playout_inv (s_playout s)" "sid_ok (s_stream_sid s)"
    "sid_ok (s_call_sid s)" "sid_ok (s_account_sid s)" "length (s_clear_latency_buckets s) = 8"
    "\<And>n. n \<in> set (marks_of (playout_stream (s_playout s))) \<Longrightarrow> NUL \<notin> set n"
  using assms unfolding session_inv_def by blast+

lemma sid_ok_snprintf: "NUL \<notin> set x \<Longrightarrow> sid_ok (snprintf_s RTW_SID_MAX x)"
  by (simp add: sid_ok_def RTW_SID_MAX_def)

lemma default_account_sid_no_nul [simp]: "NUL \<notin> set default_account_sid"
  by (simp add: default_account_sid_def)

lemma enqueue_json_inv [inv_intros]:
  assumes "session_inv s" shows "session_inv (snd (enqueue_json s json ok))"
proof (cases json)
  case (Some t)
  then show ?thesis
    using assms outq.push_inv [OF session_invD(1) [OF assms], of t ok]
    by (simp add: enqueue_json_def session_inv_def case_prod_beta)
qed (use assms in \<open>simp add: enqueue_json_def\<close>)

lemma enqueue_json_frame [simp]:
  "s_state (snd (enqueue_json s json ok)) = s_state s" "s_seq (snd (enqueue_json s json ok)) = s_seq s"
  "s_chunk (snd (enqueue_json s json ok)) = s_chunk s" "s_timestamp_ms (snd (enqueue_json s json ok)) = s_timestamp_ms s"
  "s_stream_sid (snd (enqueue_json s json ok)) = s_stream_sid s" "s_playout (snd (enqueue_json s json ok)) = s_playout s"
  "s_call_sid (snd (enqueue_json s json ok)) = s_call_sid s" "s_account_sid (snd (enqueue_json s json ok)) = s_account_sid s"
  "s_custom_params (snd (enqueue_json s json ok)) = s_custom_params s"
  by (simp_all add: enqueue_json_def split: option.splits prod.splits)

lemma session_inv_seq [simp]: "session_inv (s\<lparr>s_seq := n\<rparr>) = session_inv s"
  "session_inv (s\<lparr>s_state := st\<rparr>) = session_inv s" "session_inv (s\<lparr>s_paused := b\<rparr>) = session_inv s"
  "session_inv (s\<lparr>s_chunk := n\<rparr>) = session_inv s" "session_inv (s\<lparr>s_timestamp_ms := n\<rparr>) = session_inv s"
  "session_inv (s\<lparr>s_uplink_frames := c\<rparr>) = session_inv s" "session_inv (s\<lparr>s_downlink_frames := c\<rparr>) = session_inv s"
  "session_inv (s\<lparr>s_clear_events := c\<rparr>) = session_inv s" "session_inv (s\<lparr>s_clear_armed := b\<rparr>) = session_inv s"
  "session_inv (s\<lparr>s_clear_start_ns := c\<rparr>) = session_inv s" "session_inv (s\<lparr>s_custom_params := cp\<rparr>) = session_inv s"
  by (simp_all add: session_inv_def)

lemma send_handshake_inv [inv_intros]:
  assumes "session_inv s" shows "session_inv (snd (send_handshake s mem))"
  using assms by (simp add: send_handshake_def case_prod_beta enqueue_json_inv)

lemma send_handshake_state: "s_state (snd (send_handshake s mem)) = s_state s"
  by (simp add: send_handshake_def case_prod_beta)

lemma rtw_session_start_inv [inv_intros]:
  assumes "session_inv s" "NUL \<notin> set sid" "\<forall>c. call = Some c \<longrightarrow> NUL \<notin> set c" "\<forall>a. acc = Some a \<longrightarrow> NUL \<notin> set a"
  shows "session_inv (snd (rtw_session_start s sid call acc cp dup mem))"
proof -
  have "sid_ok (snprintf_s RTW_SID_MAX sid)" "sid_ok (snprintf_s RTW_SID_MAX (case call of Some c \<Rightarrow> c | None \<Rightarrow> sid))"
    "sid_ok (snprintf_s RTW_SID_MAX (case acc of Some a \<Rightarrow> a | None \<Rightarrow> default_account_sid))"
    using assms(2-4) by (auto intro!: sid_ok_snprintf split: option.splits)
  then have base: "session_inv (s\<lparr>s_stream_sid := snprintf_s RTW_SID_MAX sid,
      s_call_sid := snprintf_s RTW_SID_MAX (case call of Some c \<Rightarrow> c | None \<Rightarrow> sid),
      s_account_sid := snprintf_s RTW_SID_MAX (case acc of Some a \<Rightarrow> a | None \<Rightarrow> default_account_sid)\<rparr>)" (is "session_inv ?s1")
    using assms(1) by (simp add: session_inv_def)
  then have "session_inv (snd (send_handshake (?s1\<lparr>s_custom_params := c, s_seq := 1, s_chunk := 1, s_timestamp_ms := 0,
      s_state := RTW_STATE_STARTING\<rparr>) mem))" for c
    by (intro send_handshake_inv) simp
  then show ?thesis
    using base by (simp add: rtw_session_start_def Let_def case_prod_beta)
qed

lemma push_frame_inv [inv_intros]:
  "session_inv s \<Longrightarrow> session_inv (snd (push_frame s pcm ok))"
  by (simp add: push_frame_def Let_def case_prod_beta enqueue_json_inv)

lemma push_loop_inv [inv_intros]:
  "session_inv s \<Longrightarrow> session_inv (snd (push_loop s pcm i mem))"
proof (induction s pcm i mem rule: push_loop.induct)
  case (1 s pcm i mem)
  obtain rc s1 where f: "push_frame s pcm (mem i) = (rc, s1)" by fastforce
  then have "session_inv s1" using push_frame_inv [OF 1(2)] by (metis snd_conv)
  then show ?case using 1 f by (subst push_loop.simps) simp
qed

lemma ack_mark_inv [inv_intros]: "session_inv s \<Longrightarrow> session_inv (snd (ack_mark s n ok))"
  by (simp add: ack_mark_def enqueue_json_inv)

lemma ack_until_error_inv [inv_intros]: "session_inv s \<Longrightarrow> session_inv (snd (ack_until_error s ns i mem))"
proof (induction s ns i mem rule: ack_until_error.induct)
  case (2 s n ns i mem)
  obtain rc s1 where f: "ack_mark s n (mem i) = (rc, s1)" by fastforce
  then have "session_inv s1" using ack_mark_inv [OF 2(2)] by (metis snd_conv)
  then show ?case using 2 f by simp
qed simp

lemma ack_all_inv [inv_intros]: "session_inv s \<Longrightarrow> session_inv (ack_all s ns i mem)"
  by (induction s ns i mem rule: ack_all.induct) (simp_all add: ack_mark_inv)

lemma session_inv_playout:
  assumes "session_inv s" "playout_inv p" "set (marks_of (playout_stream p)) \<subseteq> set (marks_of (playout_stream (s_playout s))) \<union> N"
    "\<forall>n \<in> N. NUL \<notin> set n"
  shows "session_inv (s\<lparr>s_playout := p\<rparr>)"
  using assms unfolding session_inv_def by (auto simp del: marks_of_playout_stream)

lemma on_media_inv [inv_intros]: "session_inv s \<Longrightarrow> session_inv (snd (on_media s d))"
proof -
  assume inv: "session_inv s"
  note p = session_invD(2) [OF inv]
  have "session_inv (s\<lparr>s_playout := snd (rtw_playout_write (s_playout s) d)\<rparr>)"
    by (rule session_inv_playout [OF inv, where N = "{}"])
      (use play.write_inv [OF p] play.write_stream [OF p, of d] in \<open>auto simp del: marks_of_playout_stream\<close>)
  then show ?thesis by (simp add: on_media_def case_prod_beta)
qed

lemma on_mark_inv [inv_intros]: "session_inv s \<Longrightarrow> NUL \<notin> set n \<Longrightarrow> session_inv (snd (on_mark s n))"
proof -
  assume inv: "session_inv s" and n: "NUL \<notin> set n"
  note p = session_invD(2) [OF inv]
  have "session_inv (s\<lparr>s_playout := snd (rtw_playout_add_mark (s_playout s) n)\<rparr>)"
    by (rule session_inv_playout [OF inv, where N = "{snprintf_s RTW_MARK_NAME_LEN n}"])
      (use n play.mark_inv [OF p] play.mark_stream [OF p, of n] in \<open>auto simp del: marks_of_playout_stream\<close>)
  then show ?thesis by (simp add: on_mark_def case_prod_beta)
qed

lemma on_clear_inv [inv_intros]: "session_inv s \<Longrightarrow> session_inv (snd (on_clear s now mem))"
proof -
  assume inv: "session_inv s"
  note p = session_invD(2) [OF inv]
  have "session_inv (s\<lparr>s_playout := snd (rtw_playout_clear (s_playout s) RTW_MARK_MAX)\<rparr>)"
    by (rule session_inv_playout [OF inv, where N = "{}"])
      (use play.clear_inv [OF p] play.clear_stream [OF p] in \<open>auto simp del: marks_of_playout_stream\<close>)
  then show ?thesis by (simp add: on_clear_def ack_until_error_inv case_prod_beta)
qed

lemma after_marks_subset: "set (marks_of (after_marks ts)) \<subseteq> set (marks_of ts)"
  by (induction ts rule: after_marks.induct) auto

lemma harvest_inv [inv_intros]: "session_inv s \<Longrightarrow> session_inv (rtw_session_harvest_marks s mem)"
proof -
  assume inv: "session_inv s"
  note p = session_invD(2) [OF inv]
  have "session_inv (s\<lparr>s_playout := snd (rtw_playout_pop_completed_marks (s_playout s) 8)\<rparr>)"
    by (rule session_inv_playout [OF inv, where N = "{}"])
      (use play.harvest_inv [OF p] play.harvest_stream [OF p] after_marks_subset in \<open>auto simp del: marks_of_playout_stream\<close>)
  then show ?thesis by (simp add: rtw_session_harvest_marks_def ack_all_inv case_prod_beta)
qed

lemma session_inv_outbound: "session_inv s \<Longrightarrow> queue_inv q \<Longrightarrow> session_inv (s\<lparr>s_outbound := q\<rparr>)"
  by (simp add: session_inv_def)

lemma drop_outbound_inv [inv_intros]: "session_inv s \<Longrightarrow> session_inv (snd (rtw_session_drop_outbound_head s))"
  using outq.advance_inv [OF session_invD(1), of s]
  by (simp add: rtw_session_drop_outbound_head_def session_inv_outbound case_prod_beta)

lemma pop_outbound_inv [inv_intros]: "session_inv s \<Longrightarrow> session_inv (snd (rtw_session_pop_outbound s mem))"
  using harvest_inv [of s mem] outq.advance_inv [OF session_invD(1), of "rtw_session_harvest_marks s mem"]
    snd_pop_drop_head [of "s_outbound (rtw_session_harvest_marks s mem)"]
  by (auto simp: rtw_session_pop_outbound_def Let_def session_inv_outbound case_prod_beta split: option.splits)

lemma read_playout_inv [inv_intros]: "session_inv s \<Longrightarrow> session_inv (snd (rtw_session_read_playout s n))"
proof -
  assume inv: "session_inv s"
  note p = session_invD(2) [OF inv]
  have "session_inv (s\<lparr>s_playout := snd (rtw_playout_read (s_playout s) n)\<rparr>)"
    by (rule session_inv_playout [OF inv, where N = "{}"])
      (use play.read_inv [OF p] play.read_stream [OF p] in \<open>auto simp del: marks_of_playout_stream\<close>)
  then show ?thesis by (simp add: rtw_session_read_playout_def case_prod_beta)
qed

lemma note_write_inv [inv_intros]: "session_inv s \<Longrightarrow> session_inv (rtw_session_note_write_after_clear s n now)"
  by (simp add: rtw_session_note_write_after_clear_def record_clear_latency_def session_inv_def)

lemma stop_inv [inv_intros]: "session_inv s \<Longrightarrow> session_inv (snd (rtw_session_stop s ok))"
  by (simp add: rtw_session_stop_def Let_def case_prod_beta enqueue_json_inv)

lemma rehandshake_inv [inv_intros]: "session_inv s \<Longrightarrow> session_inv (snd (rtw_session_rehandshake s mem))"
  by (simp add: rtw_session_rehandshake_def send_handshake_inv)

lemma parsed_mark_name_no_nul:
  assumes "rtw_parse_inbound json cap = Ret (Some ev)" shows "NUL \<notin> set (ev_mark_name ev)"
proof -
  obtain v where v: "cJSON_Parse json = Some v" using assms by (auto simp: rtw_parse_inbound_def split: option.splits)
  note b = cJSON_Parse_bound [OF v]
  have field: "NUL \<notin> set (copy_str k (string_field obj name))" if o: "obj = None \<or> (\<exists>w. obj = Some w \<and> str_bound (Suc (length json)) w)"
    for k obj name
  proof (cases "string_field obj name")
    case (Some t)
    then obtain w where "obj = Some w" "str_bound (Suc (length json)) w" using o by (auto simp: json_get)
    then have "NUL \<notin> set t" using string_field_no_nul Some by blast
    then show ?thesis by (simp add: copy_str_def Some)
  qed (simp add: copy_str_def)
  have "\<And>nm. cJSON_GetObjectItemCaseSensitive (Some v) nm = None \<or>
      (\<exists>w. cJSON_GetObjectItemCaseSensitive (Some v) nm = Some w \<and> str_bound (Suc (length json)) w)"
    using str_bound_get [OF b] by (metis option.exhaust)
  note mk = field [OF this]
  have media: "ev_mark_name e' = ev_mark_name e" if "parse_media v e c = Ret (Some e')" for e e' c
    using that by (auto simp: parse_media_def Let_def exec_bind_def split: if_splits option.splits c_exec.splits)
  show ?thesis
    using assms mk media
    by (auto simp: rtw_parse_inbound_def v Let_def parse_header_fields split: option.splits rtw_event_type_t.splits)
qed

lemma handle_peer_json_inv:
  assumes "session_inv s" "rtw_session_handle_peer_json s json mok now mem = Ret (rc, s')"
  shows "session_inv s'"
proof (cases "rtw_parse_inbound json payload_cap")
  case (Ret parsed)
  show ?thesis
  proof (cases parsed)
    case (Some ev)
    have "NUL \<notin> set (ev_mark_name ev)" using parsed_mark_name_no_nul Ret Some by blast
    then show ?thesis
      using assms Ret Some on_media_inv [OF assms(1), of "ev_payload ev"] on_mark_inv [OF assms(1), of "ev_mark_name ev"]
        on_clear_inv [OF assms(1), of now mem]
      by (auto simp: rtw_session_handle_peer_json_def split: if_splits rtw_event_type_t.splits)
  qed (use assms Ret in \<open>auto simp: rtw_session_handle_peer_json_def split: if_splits\<close>)
qed (use assms in \<open>auto simp: rtw_session_handle_peer_json_def split: if_splits\<close>)

section \<open>Messages on the outbound queue\<close>

abbreviation outbound :: "rtw_session_t \<Rightarrow> string list" where
  "outbound s \<equiv> queue_contents (s_outbound s)"

abbreviation all_ok :: alloc where
  "all_ok \<equiv> (\<lambda>_. (True, True))"

lemma enqueue_json_ok:
  assumes "queue_inv (s_outbound s)"
  shows "enqueue_json s (Some t) True = (0, s\<lparr>s_outbound := snd (rtw_queue_push (s_outbound s) t True)\<rparr>)"
  using outq.push_rc [of "s_outbound s" t True] by (simp add: enqueue_json_def case_prod_beta)

lemmas push_facts = outq.push_inv outq.push_cap outq.push_ok

lemma last_n_snoc2: "last_n k (last_n k (xs @ [a]) @ ys) = last_n k (xs @ a # ys)"
  using last_n_last_n_append [of k "xs @ [a]" ys] by simp

lemma media_built:
  assumes "sid_ok sid" "mulaw \<noteq> []"
  shows "\<exists>t. rtw_build_media sid (Some ''inbound'') c ts sq mulaw True = Some t"
  using assms print_Some [OF media_json_ok(1), of sid "''inbound''"] by (simp add: rtw_build_media_eq sid_ok_def)

lemma mark_built:
  assumes "sid_ok sid" "NUL \<notin> set n"
  shows "\<exists>t. rtw_build_mark sid n sq True = Some t"
  using assms print_Some [OF mark_json_ok(1), of sid n] by (simp add: rtw_build_mark_def sid_ok_def)

definition frame_mulaw :: "int16 list \<Rightarrow> nat \<Rightarrow> bytes" where
  "frame_mulaw pcm k = rtw_pcm16_to_mulaw (take RTW_FRAME_MULAW_BYTES (drop (k * RTW_FRAME_MULAW_BYTES) pcm))"

text \<open>The text of the \<open>k\<close>-th media message of a block of samples.\<close>

definition media_text :: "rtw_session_t \<Rightarrow> int16 list \<Rightarrow> nat \<Rightarrow> string" where
  "media_text s pcm k = the (rtw_build_media (s_stream_sid s) (Some ''inbound'') (s_chunk s + of_nat k)
     (s_timestamp_ms s + 20 * of_nat k) (s_seq s + of_nat k) (frame_mulaw pcm k) True)"

lemma frame_mulaw_length: "Suc k * RTW_FRAME_MULAW_BYTES \<le> length pcm \<Longrightarrow> length (frame_mulaw pcm k) = RTW_FRAME_MULAW_BYTES"
  by (simp add: frame_mulaw_def rtw_pcm16_to_mulaw_def)

lemma push_frame_ok:
  assumes "session_inv s" "RTW_FRAME_MULAW_BYTES \<le> length pcm"
  shows "push_frame s pcm (True, True) =
    (0, s\<lparr>s_outbound := snd (rtw_queue_push (s_outbound s) (media_text s pcm 0) True),
          s_seq := s_seq s + 1, s_chunk := s_chunk s + 1, s_timestamp_ms := s_timestamp_ms s + 20,
          s_uplink_frames := s_uplink_frames s + 1\<rparr>)"
proof -
  have "frame_mulaw pcm 0 \<noteq> []" using frame_mulaw_length [of 0 pcm] assms(2) by (auto simp: RTW_FRAME_MULAW_BYTES_def)
  then obtain t where t: "rtw_build_media (s_stream_sid s) (Some ''inbound'') (s_chunk s) (s_timestamp_ms s) (s_seq s)
      (frame_mulaw pcm 0) True = Some t"
    using media_built [OF session_invD(3) [OF assms(1)]] by blast
  then have m: "media_text s pcm 0 = t" by (simp add: media_text_def)
  show ?thesis
    using t enqueue_json_ok [of "s\<lparr>s_seq := s_seq s + 1\<rparr>" t] session_invD(1) [OF assms(1)]
    by (simp add: push_frame_def Let_def frame_mulaw_def m)
qed

lemma media_text_shift:
  "RTW_FRAME_MULAW_BYTES \<le> length pcm \<Longrightarrow>
   media_text (s\<lparr>s_outbound := q, s_seq := s_seq s + 1, s_chunk := s_chunk s + 1,
      s_timestamp_ms := s_timestamp_ms s + 20, s_uplink_frames := u\<rparr>) (drop RTW_FRAME_MULAW_BYTES pcm) k = media_text s pcm (Suc k)"
  by (simp add: media_text_def frame_mulaw_def add.assoc distrib_left add.commute [of RTW_FRAME_MULAW_BYTES])

lemma push_loop_ok:
  assumes "session_inv s"
  shows "case push_loop s pcm i all_ok of (rc, s') \<Rightarrow>
    let n = length pcm div RTW_FRAME_MULAW_BYTES in
    rc = int (length pcm mod RTW_FRAME_MULAW_BYTES) \<and>
    outbound s' = last_n (q_capacity (s_outbound s)) (outbound s @ map (media_text s pcm) [0..<n]) \<and>
    s_seq s' = s_seq s + of_nat n \<and> s_chunk s' = s_chunk s + of_nat n \<and>
    s_timestamp_ms s' = s_timestamp_ms s + 20 * of_nat n \<and> s_uplink_frames s' = s_uplink_frames s + of_nat n \<and>
    s_playout s' = s_playout s \<and> s_state s' = s_state s"
  using assms
proof (induction "length pcm div RTW_FRAME_MULAW_BYTES" arbitrary: s pcm i)
  case 0
  then have l: "length pcm < RTW_FRAME_MULAW_BYTES" by (simp add: RTW_FRAME_MULAW_BYTES_def)
  then show ?case
    using outq.bounded [OF session_invD(1) [OF 0(2)]] by (subst push_loop.simps) (simp add: Let_def)
next
  case (Suc n)
  have l: "RTW_FRAME_MULAW_BYTES \<le> length pcm" using Suc(2) by (simp add: RTW_FRAME_MULAW_BYTES_def)
  let ?pcm = "drop RTW_FRAME_MULAW_BYTES pcm"
  let ?s = "s\<lparr>s_outbound := snd (rtw_queue_push (s_outbound s) (media_text s pcm 0) True),
          s_seq := s_seq s + 1, s_chunk := s_chunk s + 1, s_timestamp_ms := s_timestamp_ms s + 20,
          s_uplink_frames := s_uplink_frames s + 1\<rparr>"
  have step: "push_loop s pcm i all_ok = push_loop ?s ?pcm (Suc i) all_ok"
    using l push_frame_ok [OF Suc(3) l] by (subst push_loop.simps) simp
  have n: "n = length ?pcm div RTW_FRAME_MULAW_BYTES" "length ?pcm mod RTW_FRAME_MULAW_BYTES = length pcm mod RTW_FRAME_MULAW_BYTES"
    using Suc(2) l by (simp_all add: RTW_FRAME_MULAW_BYTES_def le_mod_geq le_div_geq)
  have n': "(length pcm - RTW_FRAME_MULAW_BYTES) div RTW_FRAME_MULAW_BYTES = n" "length pcm div RTW_FRAME_MULAW_BYTES = Suc n"
    using n(1) Suc(2) by simp_all
  have inv: "session_inv ?s" using push_frame_inv [OF Suc(3), of pcm "(True, True)"] push_frame_ok [OF Suc(3) l] by simp
  have q: "outbound ?s = last_n (q_capacity (s_outbound s)) (outbound s @ [media_text s pcm 0])"
    "q_capacity (s_outbound ?s) = q_capacity (s_outbound s)"
    using session_invD(1) [OF Suc(3)] by (simp_all add: push_facts)
  have "map (media_text s pcm) [0..<Suc n] = media_text s pcm 0 # map (media_text ?s ?pcm) [0..<n]"
    using l by (simp add: media_text_shift map_upt_Suc del: upt_Suc)
  then show ?case
    using Suc(1) [OF n(1) inv, of "Suc i"] n(2) q
    by (simp add: step Let_def case_prod_beta last_n_snoc2 n' algebra_simps del: upt_Suc)
qed

definition ack_text :: "rtw_session_t \<Rightarrow> string list \<Rightarrow> nat \<Rightarrow> string" where
  "ack_text s names k = the (rtw_build_mark (s_stream_sid s) (names ! k) (s_seq s + of_nat k) True)"

lemma ack_mark_ok:
  assumes "session_inv s" "NUL \<notin> set n"
  shows "ack_mark s n (True, True) =
    (0, s\<lparr>s_outbound := snd (rtw_queue_push (s_outbound s) (ack_text s (n # ns) 0) True), s_seq := s_seq s + 1\<rparr>)"
proof -
  obtain t where t: "rtw_build_mark (s_stream_sid s) n (s_seq s) True = Some t"
    using mark_built [OF session_invD(3) [OF assms(1)] assms(2)] by blast
  then show ?thesis
    using enqueue_json_ok [of "s\<lparr>s_seq := s_seq s + 1\<rparr>" t] session_invD(1) [OF assms(1)]
    by (simp add: ack_mark_def ack_text_def)
qed

lemma ack_all_ok:
  assumes "session_inv s" "\<forall>n \<in> set names. NUL \<notin> set n"
  shows "outbound (ack_all s names i all_ok) =
      last_n (q_capacity (s_outbound s)) (outbound s @ map (ack_text s names) [0..<length names]) \<and>
    s_seq (ack_all s names i all_ok) = s_seq s + of_nat (length names) \<and>
    s_playout (ack_all s names i all_ok) = s_playout s \<and>
    ack_until_error s names i all_ok = (0, ack_all s names i all_ok)"
  using assms
proof (induction names arbitrary: s i)
  case Nil
  then show ?case using outq.bounded [OF session_invD(1) [OF Nil(1)]] by simp
next
  case (Cons n ns)
  let ?s = "s\<lparr>s_outbound := snd (rtw_queue_push (s_outbound s) (ack_text s (n # ns) 0) True), s_seq := s_seq s + 1\<rparr>"
  have step: "ack_mark s n (True, True) = (0, ?s)" using ack_mark_ok [OF Cons.prems(1), of n ns] Cons.prems(2) by simp
  have inv: "session_inv ?s" using ack_mark_inv [OF Cons.prems(1), of n "(True, True)"] step by simp
  have q: "outbound ?s = last_n (q_capacity (s_outbound s)) (outbound s @ [ack_text s (n # ns) 0])"
    "q_capacity (s_outbound ?s) = q_capacity (s_outbound s)"
    using session_invD(1) [OF Cons.prems(1)] by (simp_all add: push_facts)
  have "map (ack_text s (n # ns)) [0..<Suc (length ns)] = ack_text s (n # ns) 0 # map (ack_text ?s ns) [0..<length ns]"
    by (simp add: map_upt_Suc ack_text_def add.assoc del: upt_Suc)
  then show ?case
    using Cons.IH [OF inv, of "Suc i"] Cons.prems(2) step q
    by (simp add: last_n_snoc2 algebra_simps del: upt_Suc)
qed

definition connected_text :: string where
  "connected_text = the (rtw_build_connected (Some ''1.0.0'') True)"

definition start_text :: "rtw_session_t \<Rightarrow> uint32 \<Rightarrow> string option" where
  "start_text s sq = rtw_build_start (s_stream_sid s) (Some (s_account_sid s)) (Some (s_call_sid s)) (s_custom_params s) sq True"

lemma connected_built: "rtw_build_connected (Some ''1.0.0'') True = Some connected_text"
proof -
  have "json_ok (connected_json (Some ''1.0.0''))" by (simp add: connected_json_eq)
  from print_Some [OF this] show ?thesis by (auto simp: connected_text_def rtw_build_connected_def)
qed

lemma send_handshake_ok:
  assumes "session_inv s" "start_text s (s_seq s) = Some t"
  shows "case send_handshake s all_ok of (rc, s') \<Rightarrow> rc = 0 \<and>
    outbound s' = last_n (q_capacity (s_outbound s)) (outbound s @ [connected_text, t]) \<and>
    s_seq s' = s_seq s + 1 \<and> s_playout s' = s_playout s \<and> s_state s' = s_state s \<and>
    s_stream_sid s' = s_stream_sid s"
proof -
  let ?q = "snd (rtw_queue_push (s_outbound s) connected_text True)"
  have q: "queue_inv ?q" "queue_contents ?q = last_n (q_capacity (s_outbound s)) (outbound s @ [connected_text])"
    "q_capacity ?q = q_capacity (s_outbound s)"
    using session_invD(1) [OF assms(1)] by (simp_all add: push_facts)
  have e1: "enqueue_json s (Some connected_text) True = (0, s\<lparr>s_outbound := ?q\<rparr>)"
    using enqueue_json_ok [OF session_invD(1) [OF assms(1)]] .
  have e2: "enqueue_json (s\<lparr>s_outbound := ?q, s_seq := s_seq s + 1\<rparr>) (Some t) True =
      (0, s\<lparr>s_outbound := snd (rtw_queue_push ?q t True), s_seq := s_seq s + 1\<rparr>)"
    using enqueue_json_ok [of "s\<lparr>s_outbound := ?q, s_seq := s_seq s + 1\<rparr>" t] q(1) by simp
  show ?thesis
    using assms(2) q
    by (simp add: send_handshake_def connected_built e1 start_text_def e2 push_facts last_n_snoc2)
qed

section \<open>Steps and reachable sessions\<close>

text \<open>
  One rule per operation of the interface; \<open>Starts\<close> labels \<open>rtw_session_start\<close>, and the pause flag
  is written by the callers of the session directly.
\<close>

datatype step_kind = Starts | Runs

inductive session_step :: "step_kind \<Rightarrow> rtw_session_t \<Rightarrow> rtw_session_t \<Rightarrow> bool" where
  start: "NUL \<notin> set sid \<Longrightarrow> \<forall>c. call = Some c \<longrightarrow> NUL \<notin> set c \<Longrightarrow> \<forall>a. acc = Some a \<longrightarrow> NUL \<notin> set a \<Longrightarrow>
    rtw_session_start s sid call acc cp dup mem = (rc, s') \<Longrightarrow> session_step Starts s s'"
| push: "rtw_session_push_pcm16 s pcm mem = (rc, s') \<Longrightarrow> session_step Runs s s'"
| peer: "rtw_session_handle_peer_json s json mok now mem = Ret (rc, s') \<Longrightarrow> session_step Runs s s'"
| pop: "rtw_session_pop_outbound s mem = (out, s') \<Longrightarrow> session_step Runs s s'"
| peek: "rtw_session_peek_outbound s mem = (item, s') \<Longrightarrow> session_step Runs s s'"
| drop_head: "rtw_session_drop_outbound_head s = (rc, s') \<Longrightarrow> session_step Runs s s'"
| read: "rtw_session_read_playout s n = (bs, s') \<Longrightarrow> session_step Runs s s'"
| note_write: "rtw_session_note_write_after_clear s n now = s' \<Longrightarrow> session_step Runs s s'"
| stop: "rtw_session_stop s ok = (rc, s') \<Longrightarrow> session_step Runs s s'"
| rehandshake: "rtw_session_rehandshake s mem = (rc, s') \<Longrightarrow> session_step Runs s s'"
| pause: "session_step Runs s (s\<lparr>s_paused := b\<rparr>)"

inductive session_reachable :: "rtw_session_t \<Rightarrow> bool" where
  init: "rtw_session_init qc pc cok m = Some s \<Longrightarrow> session_reachable s"
| step: "session_reachable s \<Longrightarrow> session_step k s s' \<Longrightarrow> session_reachable s'"

lemma session_init_inv:
  assumes "rtw_session_init qc pc cok m = Some s" shows "session_inv s"
proof -
  obtain q p where q: "rtw_queue_init (if qc \<noteq> 0 then qc else 64) cok = Some q"
    and p: "rtw_playout_init (if pc \<noteq> 0 then pc else 8 * 8000) m = Some p"
    and s: "s = zero_session\<lparr>s_outbound := q, s_playout := p, s_state := RTW_STATE_IDLE\<rparr>"
    using assms by (auto simp: rtw_session_init_def split: option.splits)
  show ?thesis
    using rtw_queue_init_inv [OF q] playout_init [OF p] s
    by (simp add: session_inv_def zero_session_def sid_ok_def RTW_SID_MAX_def del: marks_of_playout_stream)
qed

lemma push_pcm16_inv [inv_intros]: "session_inv s \<Longrightarrow> session_inv (snd (rtw_session_push_pcm16 s pcm mem))"
  by (simp add: rtw_session_push_pcm16_def push_loop_inv)

lemma session_step_inv: "session_step k s s' \<Longrightarrow> session_inv s \<Longrightarrow> session_inv s'"
proof (induction rule: session_step.induct)
  case (start sid call acc s cp dup mem rc s')
  then show ?case using rtw_session_start_inv [of s sid call acc cp dup mem] by simp
next
  case (push s pcm mem rc s')
  then show ?case using push_pcm16_inv [of s pcm mem] by simp
next
  case (peer s json mok now mem rc s')
  then show ?case using handle_peer_json_inv by blast
next
  case (pop s mem out s')
  then show ?case using pop_outbound_inv [of s mem] by simp
next
  case (peek s mem item s')
  then show ?case using harvest_inv [of s mem] by (auto simp: rtw_session_peek_outbound_def Let_def)
next
  case (drop_head s rc s')
  then show ?case using drop_outbound_inv [of s] by simp
next
  case (read s n bs s')
  then show ?case using read_playout_inv [of s n] by simp
next
  case (note_write s n now s')
  then show ?case using note_write_inv [of s n now] by simp
next
  case (stop s ok rc s')
  then show ?case using stop_inv [of s ok] by simp
next
  case (rehandshake s mem rc s')
  then show ?case using rehandshake_inv [of s mem] by simp
next
  case (pause s b)
  then show ?case by simp
qed

lemma session_reachable_inv: "session_reachable s \<Longrightarrow> session_inv s"
  by (induction rule: session_reachable.induct) (auto intro: session_init_inv session_step_inv)

subsection \<open>What the operations do to the state\<close>

lemma push_frame_state [simp]: "s_state (snd (push_frame s pcm ok)) = s_state s"
  by (simp add: push_frame_def Let_def case_prod_beta)

lemma push_loop_state: "s_state (snd (push_loop s pcm i mem)) = s_state s"
proof (induction s pcm i mem rule: push_loop.induct)
  case (1 s pcm i mem)
  obtain rc s1 where f: "push_frame s pcm (mem i) = (rc, s1)" by fastforce
  then have "s_state s1 = s_state s" using push_frame_state [of s pcm "mem i"] by simp
  then show ?case using 1 f by (subst push_loop.simps) simp
qed

lemma ack_mark_state [simp]: "s_state (snd (ack_mark s n ok)) = s_state s"
  by (simp add: ack_mark_def)

lemma ack_until_error_state [simp]: "s_state (snd (ack_until_error s ns i mem)) = s_state s"
proof (induction s ns i mem rule: ack_until_error.induct)
  case (2 s n ns i mem)
  obtain rc s1 where f: "ack_mark s n (mem i) = (rc, s1)" by fastforce
  then have "s_state s1 = s_state s" using ack_mark_state [of s n "mem i"] by simp
  then show ?case using 2 f by simp
qed simp

lemma ack_all_state [simp]: "s_state (ack_all s ns i mem) = s_state s"
  by (induction s ns i mem rule: ack_all.induct) simp_all

lemma harvest_state [simp]: "s_state (rtw_session_harvest_marks s mem) = s_state s"
  by (simp add: rtw_session_harvest_marks_def case_prod_beta)

lemma handle_peer_json_state:
  assumes "rtw_session_handle_peer_json s json mok now mem = Ret (rc, s')" shows "s_state s' = s_state s"
proof -
  have "s_state (snd (on_media s d)) = s_state s" "s_state (snd (on_mark s n)) = s_state s"
    "s_state (snd (on_clear s now mem)) = s_state s" for d n
    by (simp_all add: on_media_def on_mark_def on_clear_def case_prod_beta)
  then show ?thesis using assms
    by (auto simp: rtw_session_handle_peer_json_def exec_bind_def
        split: if_splits c_exec.splits option.splits rtw_event_type_t.splits) (metis snd_conv)+
qed

lemma session_step_state:
  assumes "session_step Runs s s'"
  shows "s_state s' = s_state s \<or> (\<exists>ok rc. rtw_session_stop s ok = (rc, s'))"
  using assms
proof (cases rule: session_step.cases)
  case (push pcm mem rc)
  then show ?thesis using push_loop_state [of s pcm 0 mem] by (auto simp: rtw_session_push_pcm16_def split: if_splits)
next
  case (peer json mok now mem rc)
  then show ?thesis using handle_peer_json_state by blast
next
  case (pop mem out)
  then show ?thesis using harvest_state [of s mem]
    by (auto simp: rtw_session_pop_outbound_def Let_def split: prod.splits option.splits)
next
  case (peek mem item)
  then show ?thesis using harvest_state [of s mem] by (auto simp: rtw_session_peek_outbound_def Let_def)
next
  case (rehandshake mem rc)
  then show ?thesis using send_handshake_state [of s mem] by (auto simp: rtw_session_rehandshake_def split: if_splits)
qed (auto simp: rtw_session_drop_outbound_head_def rtw_session_read_playout_def record_clear_latency_def
    rtw_session_note_write_after_clear_def split: prod.splits if_splits)

lemma stop_state:
  assumes "rtw_session_stop s ok = (rc, s')"
  shows "s_state s \<le> s_state s' \<and> s_state s' \<noteq> RTW_STATE_RUNNING \<or> s' = s"
proof (cases "s_state s = RTW_STATE_STOPPED \<or> s_state s = RTW_STATE_IDLE")
  case False
  then have "s_state s' = RTW_STATE_STOPPING \<or> s_state s' = RTW_STATE_STOPPED"
    using assms by (auto simp: rtw_session_stop_def Let_def case_prod_beta split: if_splits)
  then show ?thesis using False by (cases "s_state s") (auto simp: less_eq_rtw_session_state_t_def)
qed (use assms in \<open>simp add: rtw_session_stop_def\<close>)

section \<open>Delivery to a peer\<close>

lemma media_text_parse:
  assumes "session_inv s" "Suc k * RTW_FRAME_MULAW_BYTES \<le> length pcm"
  shows "\<exists>ev. rtw_parse_inbound (media_text s pcm k) payload_cap = Ret (Some ev) \<and> ev_type ev = RTW_EVT_MEDIA \<and>
    ev_stream_sid ev = s_stream_sid s \<and> ev_payload ev = frame_mulaw pcm k"
proof -
  have len: "length (frame_mulaw pcm k) = 160" using frame_mulaw_length [OF assms(2)] by (simp add: RTW_FRAME_MULAW_BYTES_def)
  let ?v = "media_json (s_stream_sid s) (Some ''inbound'') (s_chunk s + of_nat k) (s_timestamp_ms s + 20 * of_nat k)
     (s_seq s + of_nat k) (encode_groups (frame_mulaw pcm k))"
  have sid: "NUL \<notin> set (s_stream_sid s)" "length (s_stream_sid s) < RTW_SID_MAX"
    using session_invD(3) [OF assms(1)] by (simp_all add: sid_ok_def)
  have ok: "json_ok ?v" "nesting ?v = 2" using media_json_ok [OF sid(1), of "''inbound''"] by simp_all
  obtain t where t: "cJSON_PrintUnformatted ?v = Some t" using print_Some [OF ok(1)] by blast
  have "frame_mulaw pcm k \<noteq> []" using len by auto
  then have m: "media_text s pcm k = t" using t by (simp add: media_text_def rtw_build_media_eq)
  have p: "cJSON_Parse t = Some ?v" using print_parse [OF ok(1) _ t] ok(2) by simp
  have d: "rtw_base64_decode (encode_groups (frame_mulaw pcm k)) payload_cap = Ret (Some (frame_mulaw pcm k))"
    using b64.decode_encode [of "frame_mulaw pcm k" payload_cap] len by (simp add: payload_cap_def)
  show ?thesis
    by (simp add: m rtw_parse_inbound_def p media_json_eq json_get parse_header_def map_event_def zero_event_def
        parse_media_def copy_str_def snprintf_s_fits sid d)
qed

lemma handle_media:
  assumes "session_inv t" "s_state t = RTW_STATE_RUNNING"
    and "rtw_parse_inbound json payload_cap = Ret (Some ev)" "ev_type ev = RTW_EVT_MEDIA" "ev_stream_sid ev = s_stream_sid t"
    and "p_size (s_playout t) + length (ev_payload ev) \<le> p_capacity (s_playout t)"
  shows "\<exists>t'. rtw_session_handle_peer_json t json True now mem = Ret (0, t') \<and>
    playout_stream (s_playout t') = playout_stream (s_playout t) @ map Audio (ev_payload ev) \<and>
    s_downlink_frames t' = s_downlink_frames t + 1 \<and> s_outbound t' = s_outbound t"
  using play.write_ok [OF session_invD(2) [OF assms(1)], of "ev_payload ev"] assms(2-6)
  by (simp add: rtw_session_handle_peer_json_def on_media_def case_prod_beta)

text \<open>A running session with an empty queue of four slots and 400 bytes of playout.\<close>

definition demo_session :: rtw_session_t where
  "demo_session = zero_session\<lparr>s_outbound := zero_queue\<lparr>q_items := replicate 4 null_item, q_capacity := 4\<rparr>,
     s_playout := zero_playout\<lparr>p_buf := replicate 400 0, p_capacity := 400\<rparr>,
     s_state := RTW_STATE_RUNNING, s_stream_sid := ''MZ1''\<rparr>"

lemma demo_init:
  "rtw_session_init 4 400 True (Some (\<lambda>_. 0)) = Some (demo_session\<lparr>s_state := RTW_STATE_IDLE, s_stream_sid := []\<rparr>)"
  by (simp add: rtw_session_init_def rtw_queue_init_def rtw_playout_init_def demo_session_def zero_session_def map_replicate_const)

lemma demo_inv: "session_inv demo_session"
proof -
  have "session_inv (demo_session\<lparr>s_state := RTW_STATE_IDLE, s_stream_sid := []\<rparr>)" using session_init_inv [OF demo_init] .
  then show ?thesis by (simp add: session_inv_def demo_session_def sid_ok_def RTW_SID_MAX_def zero_session_def)
qed

lemma ack_all_armed [simp]: "s_clear_armed (ack_all s ns i mem) = s_clear_armed s"
  by (induction s ns i mem rule: ack_all.induct)
    (simp_all add: ack_mark_def enqueue_json_def case_prod_beta split: option.splits)

lemma on_clear_ok:
  assumes "session_inv s"
  shows "case on_clear s now all_ok of (rc, s') \<Rightarrow>
    let names = map mark_name (active_marks (s_playout s)) in
    rc = 0 \<and> playout_stream (s_playout s') = [] \<and> s_clear_armed s' \<and>
    outbound s' = last_n (q_capacity (s_outbound s)) (outbound s @ map (ack_text s names) [0..<length names]) \<and>
    s_seq s' = s_seq s + of_nat (length names)"
proof -
  note p = session_invD(2) [OF assms]
  obtain ns q where c: "rtw_playout_clear (s_playout s) RTW_MARK_MAX = (ns, q)" by fastforce
  have ns: "ns = marks_of (playout_stream (s_playout s))" "playout_stream q = []" "playout_inv q"
    using play.clear_out [OF p, of RTW_MARK_MAX] play.clear_stream [OF p, of RTW_MARK_MAX] play.clear_inv [OF p, of RTW_MARK_MAX]
      play.marks_bounded [OF p] c by simp_all
  let ?s = "s\<lparr>s_playout := q, s_clear_events := s_clear_events s + 1, s_clear_armed := True, s_clear_start_ns := now\<rparr>"
  have "session_inv (s\<lparr>s_playout := q\<rparr>)"
    using session_inv_playout [OF assms ns(3), of "{}"] ns(2) by (simp del: marks_of_playout_stream)
  then have "session_inv ?s" by simp
  moreover have "\<forall>n \<in> set ns. NUL \<notin> set n" using ns(1) session_invD(7) [OF assms] by blast
  moreover have "ack_text ?s ns = ack_text s ns" by (simp add: ack_text_def fun_eq_iff)
  ultimately show ?thesis
    using ack_all_ok [of ?s ns 0] ns by (simp add: on_clear_def c Let_def)
qed

lemma send_handshake_counters:
  "s_chunk (snd (send_handshake s mem)) = s_chunk s" "s_timestamp_ms (snd (send_handshake s mem)) = s_timestamp_ms s"
  by (simp_all add: send_handshake_def case_prod_beta)

section \<open>Properties\<close>

text \<open>
  C7: uplink. While the session runs, is not paused and memory suffices, a block of samples
  becomes one media message per 20 ms frame of 160 samples, in order, with consecutive chunk and
  sequence numbers and timestamps 20 ms apart, appended to the queue under its drop-oldest bound;
  the return value is the number of samples left over, and nothing else of the stream changes.
\<close>

theorem session_uplink:
  assumes "session_inv s" "s_state s = RTW_STATE_RUNNING" "\<not> s_paused s"
    and "rtw_session_push_pcm16 s pcm all_ok = (rc, s')" "n = length pcm div 160"
  shows "rc = int (length pcm mod 160) \<and>
    outbound s' = last_n (q_capacity (s_outbound s)) (outbound s @ map (\<lambda>k.
       the (rtw_build_media (s_stream_sid s) (Some ''inbound'') (s_chunk s + of_nat k) (s_timestamp_ms s + 20 * of_nat k)
         (s_seq s + of_nat k) (rtw_pcm16_to_mulaw (take 160 (drop (k * 160) pcm))) True)) [0..<n]) \<and>
    s_seq s' = s_seq s + of_nat n \<and> s_chunk s' = s_chunk s + of_nat n \<and>
    s_timestamp_ms s' = s_timestamp_ms s + 20 * of_nat n \<and> s_uplink_frames s' = s_uplink_frames s + of_nat n \<and>
    s_playout s' = s_playout s"
  using push_loop_ok [OF assms(1), of pcm 0] assms(2-5)
  by (simp add: rtw_session_push_pcm16_def media_text_def [abs_def] frame_mulaw_def RTW_FRAME_MULAW_BYTES_def Let_def)

theorem session_uplink_witness:
  "fst (rtw_session_push_pcm16 demo_session (replicate 330 0) all_ok) = 10 \<and>
   s_chunk (snd (rtw_session_push_pcm16 demo_session (replicate 330 0) all_ok)) = 2"
proof -
  obtain rc s' where r: "rtw_session_push_pcm16 demo_session (replicate 330 0) all_ok = (rc, s')" by fastforce
  have "s_state demo_session = RTW_STATE_RUNNING" "\<not> s_paused demo_session" "s_chunk demo_session = 0"
    by (simp_all add: demo_session_def zero_session_def)
  then show ?thesis using session_uplink [OF demo_inv _ _ r refl] r by simp
qed

text \<open>
  C6: the two directions agree. Whatever frame one session packs, a running session of the same
  stream that has room appends exactly the mu-law samples of that frame to its playout stream,
  behind the marks already queued, and counts one downlink frame.
\<close>

theorem session_delivery:
  assumes "session_inv s" "session_inv t" "s_state t = RTW_STATE_RUNNING" "s_stream_sid t = s_stream_sid s"
    and "(k + 1) * 160 \<le> length pcm" "p_size (s_playout t) + 160 \<le> p_capacity (s_playout t)"
  shows "\<exists>t'. rtw_session_handle_peer_json t (media_text s pcm k) True now mem = Ret (0, t') \<and>
    playout_stream (s_playout t') =
      playout_stream (s_playout t) @ map Audio (rtw_pcm16_to_mulaw (take 160 (drop (k * 160) pcm))) \<and>
    s_downlink_frames t' = s_downlink_frames t + 1"
proof -
  have k: "Suc k * RTW_FRAME_MULAW_BYTES \<le> length pcm" using assms(5) by (simp add: RTW_FRAME_MULAW_BYTES_def)
  obtain ev where ev: "rtw_parse_inbound (media_text s pcm k) payload_cap = Ret (Some ev)" "ev_type ev = RTW_EVT_MEDIA"
    "ev_stream_sid ev = s_stream_sid t" "ev_payload ev = frame_mulaw pcm k"
    using media_text_parse [OF assms(1) k] assms(4) by auto
  have "length (ev_payload ev) = 160" using ev(4) frame_mulaw_length [OF k] by (simp add: RTW_FRAME_MULAW_BYTES_def)
  then show ?thesis
    using handle_media [OF assms(2,3) ev(1-3), of now mem] assms(6) ev(4)
    by (auto simp: frame_mulaw_def RTW_FRAME_MULAW_BYTES_def)
qed

theorem session_delivery_witness:
  "\<exists>t'. rtw_session_handle_peer_json demo_session (media_text demo_session (replicate 160 0) 0) True 0 all_ok = Ret (0, t') \<and>
     s_downlink_frames t' = 1"
proof -
  have "s_state demo_session = RTW_STATE_RUNNING" "s_downlink_frames demo_session = 0"
    "p_size (s_playout demo_session) + 160 \<le> p_capacity (s_playout demo_session)"
    by (simp_all add: demo_session_def zero_session_def zero_playout_def)
  then show ?thesis
    using session_delivery [OF demo_inv demo_inv, of 0 "replicate 160 0" 0 all_ok] by auto
qed

text \<open>
  C26: every reachable session is well-formed. Whatever calls are made in whatever order, with
  whatever audio, peer messages and allocation failures, the queue and the playout buffer keep
  their ring invariants and bounds, and the identifiers stay terminated within their arrays.
\<close>

theorem session_reachable_wf:
  assumes "session_reachable s"
  shows "queue_inv (s_outbound s) \<and> q_size (s_outbound s) \<le> q_capacity (s_outbound s) \<and>
    playout_inv (s_playout s) \<and> p_size (s_playout s) \<le> p_capacity (s_playout s) \<and>
    p_mark_count (s_playout s) \<le> RTW_MARK_MAX \<and> length (s_stream_sid s) < RTW_SID_MAX \<and>
    length (s_call_sid s) < RTW_SID_MAX \<and> length (s_account_sid s) < RTW_SID_MAX"
proof -
  note inv = session_invD [OF session_reachable_inv [OF assms]]
  show ?thesis
    using inv(1-5) queue_invD(3) [OF inv(1)] playout_invD(3,7) [OF inv(2)] by (simp add: sid_ok_def)
qed

theorem session_reachable_wf_witness:
  "session_reachable (demo_session\<lparr>s_state := RTW_STATE_IDLE, s_stream_sid := []\<rparr>) \<and>
   q_size (s_outbound (demo_session\<lparr>s_state := RTW_STATE_IDLE, s_stream_sid := []\<rparr>)) \<le> 4"
  using session_reachable_wf [OF session_reachable.init [OF demo_init]] session_reachable.init [OF demo_init]
  by (simp add: demo_session_def)

text \<open>
  C35: the life cycle only moves forward. Every operation other than \<open>rtw_session_start\<close> leaves the
  state alone or advances it, and none of them makes a session run that was not running.
\<close>

theorem session_lifecycle:
  assumes "session_step Runs s s'"
  shows "s_state s \<le> s_state s' \<and> (s_state s' = RTW_STATE_RUNNING \<longrightarrow> s_state s = RTW_STATE_RUNNING)"
  using session_step_state [OF assms] stop_state by fastforce

theorem session_lifecycle_witness:
  "s_state demo_session \<le> s_state (snd (rtw_session_stop demo_session (True, True)))"
  using session_lifecycle [OF session_step.stop [of demo_session "(True, True)" _ "snd (rtw_session_stop demo_session (True, True))", OF prod.collapse [symmetric]]]
  by blast

text \<open>
  C33: barge-in. A clear of the peer for a running session empties the playout buffer and, as long
  as memory suffices, queues one acknowledgement per pending mark, in the order of the marks and
  with consecutive sequence numbers, before anything else is queued.
\<close>

theorem session_clear:
  assumes "session_inv s" "s_state s = RTW_STATE_RUNNING"
    and "rtw_parse_inbound json payload_cap = Ret (Some ev)" "ev_type ev = RTW_EVT_CLEAR"
    and "ev_stream_sid ev = [] \<or> ev_stream_sid ev = s_stream_sid s"
    and "names = map mark_name (active_marks (s_playout s))"
  shows "\<exists>s'. rtw_session_handle_peer_json s json True now all_ok = Ret (0, s') \<and>
    playout_stream (s_playout s') = [] \<and> s_clear_armed s' \<and>
    outbound s' = last_n (q_capacity (s_outbound s)) (outbound s @ map (\<lambda>k.
       the (rtw_build_mark (s_stream_sid s) (names ! k) (s_seq s + of_nat k) True)) [0..<length names]) \<and>
    s_seq s' = s_seq s + of_nat (length names)"
  using on_clear_ok [OF assms(1), of now] assms(2-6)
  by (auto simp: rtw_session_handle_peer_json_def ack_text_def [abs_def])

text \<open>The peer's \<open>clear\<close> message without a stream identifier.\<close>

definition clear_json :: string where
  "clear_json = [CHR ''{'', QUOTE] @ ''event'' @ [QUOTE, CHR '':'', QUOTE] @ ''clear'' @ [QUOTE, CHR ''}'']"

lemma clear_json_parse: "rtw_parse_inbound clear_json payload_cap = Ret (Some (zero_event\<lparr>ev_type := RTW_EVT_CLEAR\<rparr>))"
proof -
  have "cJSON_Parse clear_json = Some (J_Object [(''event'', J_String ''clear'')])" by code_simp
  then show ?thesis
    by (simp add: rtw_parse_inbound_def json_get parse_header_def map_event_def zero_event_def copy_str_def)
qed

theorem session_clear_witness:
  "\<exists>s'. rtw_session_handle_peer_json (snd (on_mark demo_session ''m'')) clear_json True 0 all_ok = Ret (0, s') \<and>
     playout_stream (s_playout s') = [] \<and> s_seq s' = 1"
proof -
  let ?s = "snd (on_mark demo_session ''m'')"
  have inv: "session_inv ?s" by (intro on_mark_inv demo_inv) simp
  have "s_state ?s = RTW_STATE_RUNNING" "s_seq ?s = 0" "length (active_marks (s_playout ?s)) = 1"
    by (simp_all add: on_mark_def demo_session_def zero_session_def zero_playout_def rtw_playout_add_mark_def
        RTW_MARK_MAX_def active_marks_def)
  then show ?thesis
    using session_clear [OF inv _ clear_json_parse, of _ 0] by (auto simp: zero_event_def)
qed

text \<open>
  Messages of other streams. A well-formed message that names another stream is reported with
  the return code 1 and changes nothing.
\<close>

lemma session_other_stream:
  assumes "s_state s = RTW_STATE_RUNNING" "rtw_parse_inbound json payload_cap = Ret (Some ev)"
    and "ev_stream_sid ev \<noteq> []" "ev_stream_sid ev \<noteq> s_stream_sid s"
  shows "rtw_session_handle_peer_json s json True now mem = Ret (1, s)"
  using assms by (simp add: rtw_session_handle_peer_json_def)

text \<open>
  Memory safety of the receive path. A peer message of fewer than 87379 bytes never makes the
  session write outside the 64 KiB payload buffer, whatever the message is and whatever state the
  session is in.
\<close>

lemma session_receive_safe:
  assumes "length json < 87379"
  shows "rtw_session_handle_peer_json s json mok now mem \<noteq> UB"
proof -
  have "rtw_parse_inbound json payload_cap \<noteq> UB"
    by (rule parse_inbound_safe) (use assms in \<open>simp add: payload_cap_def\<close>)
  then show ?thesis
    by (cases "rtw_parse_inbound json payload_cap")
      (auto simp: rtw_session_handle_peer_json_def split: option.splits rtw_event_type_t.splits)
qed

text \<open>
  Opening a stream. On a session whose queue has room for two messages, \<open>rtw_session_start\<close>
  queues \<open>connected\<close> and then \<open>start\<close> with sequence number 1, behind what was queued before, and the
  session runs with its counters reset.
\<close>

lemma session_start_handshake:
  assumes "session_inv s" "sid_ok sid" "NUL \<notin> set call" "NUL \<notin> set acc"
    and "rtw_session_start s sid (Some call) (Some acc) None dup all_ok = (rc, s')"
  shows "rc = 0 \<and> s_state s' = RTW_STATE_RUNNING \<and> s_seq s' = 2 \<and> s_chunk s' = 1 \<and> s_timestamp_ms s' = 0 \<and>
    s_stream_sid s' = sid \<and>
    (\<exists>connected start. rtw_build_connected (Some ''1.0.0'') True = Some connected \<and>
       rtw_build_start sid (Some (snprintf_s RTW_SID_MAX acc)) (Some (snprintf_s RTW_SID_MAX call)) None 1 True = Some start \<and>
       outbound s' = last_n (q_capacity (s_outbound s)) (outbound s @ [connected, start]))"
proof -
  define s2 where "s2 = s\<lparr>s_stream_sid := snprintf_s RTW_SID_MAX sid, s_call_sid := snprintf_s RTW_SID_MAX call,
      s_account_sid := snprintf_s RTW_SID_MAX acc, s_custom_params := None,
      s_seq := 1, s_chunk := 1, s_timestamp_ms := 0, s_state := RTW_STATE_STARTING\<rparr>"
  have sid: "snprintf_s RTW_SID_MAX sid = sid" using assms(2) by (simp add: sid_ok_def snprintf_s_fits)
  have oks: "sid_ok (snprintf_s RTW_SID_MAX call)" "sid_ok (snprintf_s RTW_SID_MAX acc)"
    using assms(3,4) sid_ok_snprintf by auto
  have inv: "session_inv s2" using assms(1,2) oks sid by (simp add: s2_def session_inv_def)
  have "json_ok (start_json sid (Some (snprintf_s RTW_SID_MAX acc)) (Some (snprintf_s RTW_SID_MAX call)) None 1)"
    using assms(2) oks by (intro start_json_ok) (simp_all add: sid_ok_def custom_json_def cJSON_CreateObject_def)
  from print_Some [OF this] obtain t where
    t: "rtw_build_start sid (Some (snprintf_s RTW_SID_MAX acc)) (Some (snprintf_s RTW_SID_MAX call)) None 1 True = Some t"
    by (auto simp: rtw_build_start_def)
  then have "start_text s2 (s_seq s2) = Some t" by (simp add: start_text_def s2_def sid)
  note hs = send_handshake_ok [OF inv this]
  obtain r3 s3 where h: "send_handshake s2 all_ok = (r3, s3)" by fastforce
  have "rtw_session_start s sid (Some call) (Some acc) None dup all_ok = (0, s3\<lparr>s_state := RTW_STATE_RUNNING\<rparr>)"
    using hs h by (simp add: rtw_session_start_def Let_def s2_def)
  moreover have "s_chunk s3 = 1 \<and> s_timestamp_ms s3 = 0"
    using send_handshake_counters [of s2 all_ok] h by (simp add: s2_def)
  ultimately show ?thesis
    using hs h assms(5) t connected_built by (auto simp: s2_def sid)
qed

text \<open>
  After a reconnect the new peer connection does not see \<open>connected\<close> first. The handshake is
  queued behind the messages that were still waiting, so as long as the queue was not empty and
  has room, the first message sent on the new connection is an old one.
\<close>

lemma session_rehandshake_behind_backlog:
  assumes "session_inv s" "s_state s = RTW_STATE_RUNNING" "start_text s (s_seq s) = Some start"
    and "outbound s = old # rest" "length rest + 3 \<le> q_capacity (s_outbound s)"
    and "rtw_session_rehandshake s all_ok = (rc, s')"
  shows "rc = 0 \<and> outbound s' = old # rest @ [connected_text, start] \<and> queue_front (s_outbound s') = Some old"
proof -
  have hs: "rc = 0" "outbound s' = old # rest @ [connected_text, start]"
    using send_handshake_ok [OF assms(1,3)] assms(2,4-6) by (simp_all add: rtw_session_rehandshake_def)
  have "session_inv s'" using rehandshake_inv [OF assms(1), of all_ok] assms(6) by simp
  then show ?thesis using hs outq.front [OF session_invD(1)] by simp
qed

lemma session_rehandshake_behind_backlog_example:
  "\<exists>s old rc s'. outbound s = [old] \<and> rtw_session_rehandshake s all_ok = (rc, s') \<and> queue_front (s_outbound s') = Some old"
proof -
  let ?s = "snd (ack_mark demo_session ''m'' (True, True))"
  have inv: "session_inv ?s" by (intro inv_intros demo_inv)
  have st: "s_state ?s = RTW_STATE_RUNNING" by (simp add: demo_session_def)
  have q: "outbound demo_session = []" "q_capacity (s_outbound demo_session) = 4"
    by (simp_all add: demo_session_def queue_contents_def zero_queue_def)
  have out: "outbound ?s = [ack_text demo_session [''m''] 0]" "q_capacity (s_outbound ?s) = 4"
    using ack_mark_ok [OF demo_inv, of "''m''" "[]"] q session_invD(1) [OF demo_inv] by (simp_all add: push_facts)
  have "json_ok (start_json (s_stream_sid ?s) (Some (s_account_sid ?s)) (Some (s_call_sid ?s)) (s_custom_params ?s) (s_seq ?s))"
    by (rule start_json_ok) (simp_all add: ack_mark_def demo_session_def zero_session_def custom_json_def cJSON_CreateObject_def)
  from print_Some [OF this] obtain start where t: "start_text ?s (s_seq ?s) = Some start"
    by (auto simp: start_text_def rtw_build_start_def)
  obtain rc s' where r: "rtw_session_rehandshake ?s all_ok = (rc, s')" by fastforce
  from session_rehandshake_behind_backlog [OF inv st t out(1) _ r] out r show ?thesis by (auto intro!: exI)
qed

text \<open>
  A session that does not run is inert. Audio, peer messages and rehandshakes are refused with
  -1 and change nothing unless the session runs, and a stopped or idle session refuses to stop.
\<close>

lemma session_not_running_inert:
  "s_state s \<noteq> RTW_STATE_RUNNING \<Longrightarrow>
     rtw_session_push_pcm16 s pcm mem = (- 1, s) \<and>
     rtw_session_handle_peer_json s json mok now mem = Ret (- 1, s) \<and>
     rtw_session_rehandshake s mem = (- 1, s) \<and>
     (s_state s \<in> {RTW_STATE_IDLE, RTW_STATE_STOPPED} \<longrightarrow> rtw_session_stop s ok = (- 1, s))"
  by (auto simp: rtw_session_push_pcm16_def rtw_session_handle_peer_json_def rtw_session_rehandshake_def rtw_session_stop_def)

text \<open>
  Acknowledging played marks. Before a message is taken from the queue, the completed marks
  are acknowledged in their order with consecutive sequence numbers, but at most eight of them:
  all the completed marks leave the table, so the acknowledgements of the ninth and later ones are
  never sent.
\<close>

lemma session_harvest_acks:
  assumes "session_inv s" "names = take 8 (marks_upto 0 (playout_stream (s_playout s)))"
    and "s' = rtw_session_harvest_marks s all_ok"
  shows "outbound s' = last_n (q_capacity (s_outbound s)) (outbound s @ map (\<lambda>k.
       the (rtw_build_mark (s_stream_sid s) (names ! k) (s_seq s + of_nat k) True)) [0..<length names]) \<and>
    s_seq s' = s_seq s + of_nat (length names) \<and>
    playout_stream (s_playout s') = after_marks (playout_stream (s_playout s))"
proof -
  note p = session_invD(2) [OF assms(1)]
  obtain ns q where pop: "rtw_playout_pop_completed_marks (s_playout s) 8 = (ns, q)" by fastforce
  have ns: "ns = names" "playout_stream q = after_marks (playout_stream (s_playout s))"
    using play.harvest_out [OF p, of 8] play.harvest_stream [OF p, of 8] pop assms(2) by simp_all
  have "set names \<subseteq> set (marks_of (playout_stream (s_playout s)))"
    using marks_upto_after_marks [of "playout_stream (s_playout s)"] set_take_subset [of 8] assms(2)
    by (metis Un_iff set_append subset_iff)
  then have nul: "\<forall>n \<in> set names. NUL \<notin> set n" using session_invD(7) [OF assms(1)] by blast
  have "session_inv (s\<lparr>s_playout := q\<rparr>)"
    by (rule session_inv_playout [OF assms(1), where N = "{}"])
      (use play.harvest_inv [OF p, of 8] pop ns(2) after_marks_subset in \<open>auto simp del: marks_of_playout_stream\<close>)
  from ack_all_ok [OF this nul, of 0] show ?thesis
    using ns by (simp add: assms(3) rtw_session_harvest_marks_def pop ack_text_def [abs_def])
qed

end
