(* ===== verification/Rtw_Ws_Client.thy ===== *)
theory Rtw_Ws_Client
  imports Rtw_Base64 C_Number "HOL-Library.Sublist" "HOL-Library.Multiset"
begin

text \<open>
  The WebSocket client, \<open>src/core/rtw_ws_client.c\<close>: the URL, the opening handshake, the encoding of
  outgoing text frames and the incremental decoding of incoming frames.
  \<^item> The kernel and the TLS library are arguments: the outcomes of \<open>send\<close> (or \<open>SSL_write\<close>) are a
    list consumed by \<open>io_write_all\<close>, the outcome of one \<open>poll\<close>/\<open>recv\<close> is an argument of
    \<open>rtw_ws_poll\<close>, the random bytes are an argument of \<open>mask_key\<close>. Whether the library is built
    with TLS is the argument \<open>has_openssl\<close>.
  \<^item> The receive buffer is the list of its \<open>rx_len\<close> valid bytes; a callback is an event in the list
    a function returns. The callbacks never touch the client.
\<close>

section \<open>Strings\<close>

definition byte_char :: "uint8 \<Rightarrow> char" where
  "byte_char b = char_of (unat b)"

definition char_byte :: "char \<Rightarrow> uint8" where
  "char_byte c = of_nat (of_char c)"

fun contains :: "string \<Rightarrow> string \<Rightarrow> bool" where
  "contains pat s = (take (length pat) s = pat \<or> (case s of [] \<Rightarrow> False | _ # r \<Rightarrow> contains pat r))"

declare contains.simps [simp del]

text \<open>\<open>atoi\<close> as the C library computes it: \<open>strtol\<close>, which saturates, converted to \<open>int\<close>.\<close>

definition atoi :: "string \<Rightarrow> int" where
  "atoi s =
     (let s1 = dropWhile is_space s;
          sg = scan_sign s1;
          n = int (nat_of_digits (takeWhile is_digit (drop (length sg) s1)));
          v = (if sg = ''-'' then max (- (2 ^ 63)) (- n) else min (2 ^ 63 - 1) n)
      in sint (word_of_int v :: 32 word))"

section \<open>URLs\<close>

record ws_url =
  url_host :: string
  url_port :: int
  url_path :: string
  url_tls :: bool

definition split_at_char :: "char \<Rightarrow> string \<Rightarrow> (string \<times> string) option" where
  "split_at_char c s =
     (if c \<in> set s then Some (takeWhile (\<lambda>x. x \<noteq> c) s, tl (dropWhile (\<lambda>x. x \<noteq> c) s)) else None)"

text \<open>\<open>hostport\<close> behind \<open>strrchr\<close>: what precedes the last colon and what follows it.\<close>

definition split_at_last :: "char \<Rightarrow> string \<Rightarrow> (string \<times> string) option" where
  "split_at_last c s = map_option (\<lambda>(a, b). (rev b, rev a)) (split_at_char c (rev s))"

definition parse_hostport :: "string \<Rightarrow> nat \<Rightarrow> int \<Rightarrow> (string \<times> int) option" where
  "parse_hostport hostport host_cap default_port =
     (if take 1 hostport = ''['' then
        (case split_at_char (CHR '']'') hostport of
           None \<Rightarrow> None
         | Some (lit, rest) \<Rightarrow>
             let host = drop 1 lit in
             if host_cap \<le> length host then None
             else (case rest of
                     [] \<Rightarrow> Some (host, default_port)
                   | c # digits \<Rightarrow> if c = CHR '':'' then Some (host, atoi digits) else None))
      else
        (case split_at_last (CHR '':'') hostport of
           Some (host, digits) \<Rightarrow> if host_cap \<le> length host then None else Some (host, atoi digits)
         | None \<Rightarrow> Some (snprintf_s host_cap hostport, default_port)))"

definition parse_url :: "bool \<Rightarrow> string \<Rightarrow> nat \<Rightarrow> nat \<Rightarrow> ws_url option" where
  "parse_url has_openssl url host_cap path_cap =
     (let scheme = (if take 5 url = ''ws://'' then Some (drop 5 url, False, 80)
                    else if take 6 url = ''wss://'' then
                      (if has_openssl then Some (drop 6 url, True, 443) else None)
                    else None)
      in case scheme of
           None \<Rightarrow> None
         | Some (p, tls, default_port) \<Rightarrow>
             let hostport = takeWhile (\<lambda>c. c \<noteq> CHR ''/'') p;
                 rest = dropWhile (\<lambda>c. c \<noteq> CHR ''/'') p;
                 path = snprintf_s path_cap (if rest = [] then ''/'' else rest)
             in if 256 \<le> length hostport \<or> length hostport = 0 then None
                else (case parse_hostport hostport host_cap default_port of
                        None \<Rightarrow> None
                      | Some (host, port) \<Rightarrow>
                          Some \<lparr>url_host = host, url_port = port, url_path = path, url_tls = tls\<rparr>))"

section \<open>Input and output\<close>

datatype send_result = Sent nat | Interrupted | Send_Failed

text \<open>
  The bytes put on the wire and whether all of them were; \<open>None\<close> when the given outcomes end while
  the loop still waits for the next one.
\<close>

fun io_write_all :: "bytes \<Rightarrow> send_result list \<Rightarrow> (bool \<times> bytes) option" where
  "io_write_all [] rs = Some (True, [])"
| "io_write_all (b # bs) [] = None"
| "io_write_all (b # bs) (Interrupted # rs) = io_write_all (b # bs) rs"
| "io_write_all (b # bs) (Send_Failed # rs) = Some (False, [])"
| "io_write_all (b # bs) (Sent n # rs) =
     (if n = 0 then Some (False, [])
      else map_option (\<lambda>(ok, out). (ok, take n (b # bs) @ out)) (io_write_all (drop n (b # bs)) rs))"

definition tls_insecure_enabled :: "int \<Rightarrow> string option \<Rightarrow> bool" where
  "tls_insecure_enabled g_tls_insecure env =
     (if 0 \<le> g_tls_insecure then g_tls_insecure \<noteq> 0
      else (case env of Some (c # _) \<Rightarrow> c = CHR ''1'' | _ \<Rightarrow> False))"

definition rtw_ws_set_tls_insecure :: "bool \<Rightarrow> int" where
  "rtw_ws_set_tls_insecure insecure = (if insecure then 1 else 0)"

section \<open>The client\<close>

datatype ws_event = On_Text string | On_Close int

record rtw_ws_client_t =
  c_fd :: int
  c_rx :: bytes
  c_rx_cap :: nat
  c_closed :: bool
  c_use_tls :: bool
  c_extra_headers :: "string option"

subsection \<open>Opening handshake\<close>

definition host_header :: "bool \<Rightarrow> string \<Rightarrow> int \<Rightarrow> string" where
  "host_header use_tls host port =
     snprintf_s 300
       (if CHR '':'' \<in> set host then ''['' @ host @ '']:'' @ show_int port
        else if (use_tls \<and> port = 443) \<or> (\<not> use_tls \<and> port = 80) then host
        else host @ '':'' @ show_int port)"

abbreviation CRLF :: string where "CRLF \<equiv> [CHR 0x0D, CHR 0x0A]"

definition handshake_request :: "string \<Rightarrow> string \<Rightarrow> string \<Rightarrow> string" where
  "handshake_request path host_hdr extra =
     snprintf_s (length path + length host_hdr + length extra + 256)
       (''GET '' @ path @ '' HTTP/1.1'' @ CRLF @
        ''Host: '' @ host_hdr @ CRLF @
        ''Upgrade: websocket'' @ CRLF @
        ''Connection: Upgrade'' @ CRLF @
        ''Sec-WebSocket-Key: dGhlIHNhbXBsZSBub25jZQ=='' @ CRLF @
        ''Sec-WebSocket-Version: 13'' @ CRLF @
        extra @ CRLF)"

text \<open>
  The reply is read until its header ends or the 2047 bytes of the buffer are full; each read
  returns some bytes, no more than there is room for, and the empty one stands for \<open>n <= 0\<close>.
  What was read behind the header is not kept.
\<close>

fun read_reply :: "string \<Rightarrow> bytes list \<Rightarrow> string option" where
  "read_reply buf reads =
     (if 2047 \<le> length buf then Some buf
      else (case reads of
              [] \<Rightarrow> None
            | r # rs \<Rightarrow>
                if r = [] then None
                else let buf' = buf @ map byte_char (take (2047 - length buf) r)
                  in if contains (CRLF @ CRLF) (c_str buf') then Some buf' else read_reply buf' rs))"

declare read_reply.simps [simp del]

definition http_handshake ::
  "rtw_ws_client_t \<Rightarrow> string \<Rightarrow> int \<Rightarrow> string \<Rightarrow> bool \<Rightarrow> send_result list \<Rightarrow> bytes list \<Rightarrow> bool" where
  "http_handshake c host port path malloc_ok sends reads =
     (let extra = (case c_extra_headers c of Some e \<Rightarrow> e | None \<Rightarrow> []);
          req = handshake_request path (host_header (c_use_tls c) host port) extra
      in if \<not> malloc_ok then False
         else (case io_write_all (map char_byte req) sends of
                 Some (True, _) \<Rightarrow>
                   (case read_reply [] reads of None \<Rightarrow> False | Some buf \<Rightarrow> contains ''101'' (c_str buf))
               | _ \<Rightarrow> False))"

subsection \<open>TLS\<close>

text \<open>
  The outcomes of the TLS library: whether a context and a connection object could be made, and
  whether \<open>SSL_connect\<close> succeeds, given if the peer is verified and the name sent to it.
\<close>

record tls_env =
  t_ctx_ok :: bool
  t_ssl_ok :: bool
  t_connect :: "bool \<Rightarrow> string \<Rightarrow> bool"
  t_forced :: int
  t_getenv :: "string option"

definition tls_setup :: "tls_env \<Rightarrow> string \<Rightarrow> bool" where
  "tls_setup t host =
     (if \<not> t_ctx_ok t then False
      else let verify_peer = \<not> tls_insecure_enabled (t_forced t) (t_getenv t)
        in if \<not> t_ssl_ok t then False
           else t_connect t verify_peer host)"

subsection \<open>Connecting and closing\<close>

datatype sock_event = Sock_Open nat | Sock_Close nat

text \<open>
  The loop over the addresses of the name. Each address carries the descriptor \<open>socket\<close> gives for
  it, if any, and whether \<open>connect\<close> succeeds.
\<close>

fun connect_addrs :: "(nat option \<times> bool) list \<Rightarrow> nat option \<times> sock_event list" where
  "connect_addrs [] = (None, [])"
| "connect_addrs ((None, _) # rp) = connect_addrs rp"
| "connect_addrs ((Some fd, True) # rp) = (Some fd, [Sock_Open fd])"
| "connect_addrs ((Some fd, False) # rp) =
     (case connect_addrs rp of (res, tr) \<Rightarrow> (res, Sock_Open fd # Sock_Close fd # tr))"

definition rtw_ws_close :: "rtw_ws_client_t \<Rightarrow> sock_event list" where
  "rtw_ws_close c = (if 0 \<le> c_fd c then [Sock_Close (nat (c_fd c))] else [])"

text \<open>
  What \<open>rtw_ws_connect_ex\<close> meets: the addresses of the name (\<open>None\<close> when it does not resolve), the
  allocations of the client, the headers, the buffer and the request, the TLS library, and the
  traffic of the opening handshake. It returns the client and the sockets it opened and closed.
\<close>

record connect_env =
  e_has_openssl :: bool
  e_addrs :: "string \<Rightarrow> int \<Rightarrow> (nat option \<times> bool) list option"
  e_alloc :: "nat \<Rightarrow> bool"
  e_tls :: tls_env
  e_sends :: "send_result list"
  e_reads :: "bytes list"

definition rtw_ws_connect_ex ::
  "string \<Rightarrow> string option \<Rightarrow> connect_env \<Rightarrow> rtw_ws_client_t option \<times> sock_event list" where
  "rtw_ws_connect_ex url extra_headers env =
     (case parse_url (e_has_openssl env) url 256 512 of
        None \<Rightarrow> (None, [])
      | Some u \<Rightarrow>
          (case e_addrs env (url_host u) (url_port u) of
             None \<Rightarrow> (None, [])
           | Some addrs \<Rightarrow>
               (case connect_addrs addrs of
                  (None, tr) \<Rightarrow> (None, tr)
                | (Some fd, tr) \<Rightarrow>
                    (let extra = (case extra_headers of Some h \<Rightarrow> if h = [] then None else Some h | None \<Rightarrow> None);
                         c = \<lparr>c_fd = int fd, c_rx = [], c_rx_cap = 65536, c_closed = False,
                              c_use_tls = url_tls u, c_extra_headers = extra\<rparr>
                     in if \<not> e_alloc env 0 then (None, tr @ [Sock_Close fd])
                        else if extra \<noteq> None \<and> \<not> e_alloc env 1 then (None, tr @ [Sock_Close fd])
                        else if \<not> e_alloc env 2 then (None, tr @ [Sock_Close fd])
                        else if e_has_openssl env \<and> url_tls u \<and> \<not> tls_setup (e_tls env) (url_host u)
                        then (None, tr @ rtw_ws_close c)
                        else if \<not> http_handshake c (url_host u) (url_port u) (url_path u) (e_alloc env 3)
                                   (e_sends env) (e_reads env)
                        then (None, tr @ rtw_ws_close c)
                        else (Some c, tr)))))"

definition rtw_ws_connect :: "string \<Rightarrow> connect_env \<Rightarrow> rtw_ws_client_t option \<times> sock_event list" where
  "rtw_ws_connect url env = rtw_ws_connect_ex url None env"

definition rtw_ws_fd :: "rtw_ws_client_t \<Rightarrow> int" where
  "rtw_ws_fd c = c_fd c"

definition rtw_ws_is_tls :: "rtw_ws_client_t \<Rightarrow> bool" where
  "rtw_ws_is_tls c = c_use_tls c"

subsection \<open>Outgoing frames\<close>

definition mask_key :: "bytes option \<Rightarrow> bytes" where
  "mask_key urandom = (case urandom of
     Some key \<Rightarrow> if length key = 4 then key else [0x12, 0x34, 0x56, 0x78]
   | None \<Rightarrow> [0x12, 0x34, 0x56, 0x78])"

definition xor_mask :: "bytes \<Rightarrow> bytes \<Rightarrow> bytes" where
  "xor_mask key payload = map (\<lambda>i. payload ! i XOR key ! (i mod 4)) [0..<length payload]"

definition encode_frame :: "bytes \<Rightarrow> bytes \<Rightarrow> bytes option" where
  "encode_frame key payload =
     (let len = length payload in
      if len < 126 then Some ([0x81, of_nat (0x80 + len)] @ key @ xor_mask key payload)
      else if len < 65536 then
        Some ([0x81, 0x80 OR 126, of_nat (len div 256 mod 256), of_nat (len mod 256)] @ key @ xor_mask key payload)
      else None)"

definition rtw_ws_send_text ::
  "rtw_ws_client_t \<Rightarrow> string \<Rightarrow> bytes option \<Rightarrow> bool \<Rightarrow> send_result list \<Rightarrow> (int \<times> bytes) option" where
  "rtw_ws_send_text c text urandom malloc_ok sends =
     (if c_fd c < 0 then Some (- 1, [])
      else case encode_frame (mask_key urandom) (map char_byte text) of
        None \<Rightarrow> Some (- 1, [])
      | Some frame \<Rightarrow>
          if \<not> malloc_ok then Some (- 1, [])
          else map_option (\<lambda>(ok, out). (if ok then 0 else - 1, out)) (io_write_all frame sends))"

subsection \<open>Incoming frames\<close>

datatype frame_parse = Incomplete | Unsupported | Frame nat bytes bytes

text \<open>One turn of the loop of \<open>process_frames\<close> up to the payload: opcode, unmasked payload, the rest.\<close>

definition parse_frame :: "bytes \<Rightarrow> frame_parse" where
  "parse_frame rx =
     (if length rx < 2 then Incomplete
      else let b0 = rx ! 0; b1 = rx ! 1;
               opcode = unat (b0 AND 0x0F);
               masked = (b1 AND 0x80 \<noteq> 0);
               len7 = unat (b1 AND 0x7F)
        in if len7 = 126 \<and> length rx < 4 then Incomplete
           else if len7 = 127 then Unsupported
           else let plen = (if len7 = 126 then unat (rx ! 2) * 256 + unat (rx ! 3) else len7);
                    hdr = (if len7 = 126 then 4 else 2);
                    hdr' = (if masked then hdr + 4 else hdr)
             in if masked \<and> length rx < hdr + 4 then Incomplete
                else if length rx < hdr' + plen then Incomplete
                else let payload = take plen (drop hdr' rx)
                  in Frame opcode (if masked then xor_mask (take 4 (drop hdr rx)) payload else payload)
                       (drop (hdr' + plen) rx))"

lemma parse_frame_shorter: "parse_frame rx = Frame opcode payload rest \<Longrightarrow> length rest < length rx"
  by (auto simp: parse_frame_def Let_def split: if_splits)

text \<open>
  The loop: return code, events, the bytes left in the buffer and whether a close frame arrived.
  \<open>mem\<close> is the outcome of the allocation of each text. The payload is unmasked in place, which shows
  in the bytes a close frame leaves behind.
\<close>

function process_loop :: "bytes \<Rightarrow> (nat \<Rightarrow> bool) \<Rightarrow> nat \<Rightarrow> int \<times> ws_event list \<times> bytes \<times> bool" where
  "process_loop rx mem i =
     (case parse_frame rx of
        Incomplete \<Rightarrow> (0, [], rx, False)
      | Unsupported \<Rightarrow> (- 1, [], rx, False)
      | Frame opcode payload rest \<Rightarrow>
          if opcode = 8 then (- 1, [On_Close 1000], take (length rx - length payload - length rest) rx @ payload @ rest, True)
          else (case process_loop rest mem (Suc i) of (rc, evs, rx', cl) \<Rightarrow>
                  (rc, (if opcode = 1 \<and> mem i then On_Text (map byte_char payload) # evs else evs), rx', cl)))"
  by pat_completeness auto
termination by (relation "measure (\<lambda>(rx, mem, i). length rx)") (auto dest: parse_frame_shorter)

declare process_loop.simps [simp del]

definition process_frames :: "rtw_ws_client_t \<Rightarrow> (nat \<Rightarrow> bool) \<Rightarrow> int \<times> ws_event list \<times> rtw_ws_client_t" where
  "process_frames c mem =
     (case process_loop (c_rx c) mem 0 of (rc, evs, rx, cl) \<Rightarrow>
        (rc, evs, c\<lparr>c_rx := rx, c_closed := c_closed c \<or> cl\<rparr>))"

definition ensure_rx_cap :: "rtw_ws_client_t \<Rightarrow> nat \<Rightarrow> bool \<Rightarrow> int \<times> rtw_ws_client_t" where
  "ensure_rx_cap c need realloc_ok =
     (if need \<le> c_rx_cap c then (0, c)
      else if \<not> realloc_ok then (- 1, c)
      else (0, c\<lparr>c_rx_cap := need\<rparr>))"

text \<open>The result of \<open>poll\<close>: an error, nothing to read, or the bytes that \<open>recv\<close> returned ([] for \<open>n <= 0\<close>).\<close>

datatype poll_result = Poll_Error | Poll_Timeout | Poll_Read bytes

definition rtw_ws_poll ::
  "rtw_ws_client_t \<Rightarrow> poll_result \<Rightarrow> bool \<Rightarrow> (nat \<Rightarrow> bool) \<Rightarrow> int \<times> ws_event list \<times> rtw_ws_client_t" where
  "rtw_ws_poll c pr realloc_ok mem =
     (if c_fd c < 0 \<or> c_closed c then (- 1, [], c)
      else case pr of
        Poll_Error \<Rightarrow> (- 1, [], c)
      | Poll_Timeout \<Rightarrow> (0, [], c)
      | Poll_Read bs \<Rightarrow>
          (case ensure_rx_cap c (length (c_rx c) + 8192) realloc_ok of (rc, c1) \<Rightarrow>
             if rc \<noteq> 0 then (- 1, [], c1)
             else if bs = [] then (- 1, [On_Close 1006], c1\<lparr>c_closed := True\<rparr>)
             else process_frames
                    (c1\<lparr>c_rx := c_rx c1 @ take (c_rx_cap c1 - length (c_rx c1)) bs\<rparr>) mem))"

section \<open>Frames\<close>

lemma length_xor_mask [simp]: "length (xor_mask key p) = length p"
  by (simp add: xor_mask_def)

lemma xor_mask_involution [simp]: "xor_mask key (xor_mask key p) = p"
  by (rule nth_equalityI) (simp_all add: xor_mask_def xor.assoc)

lemma byte_char_byte [simp]: "byte_char (char_byte c) = c"
proof -
  have "(of_char c :: nat) < 256" using of_char_mod_256 [of c, where 'a = nat] mod_less_divisor [of 256 "of_char c"] by linarith
  then have "unat (of_nat (of_char c) :: uint8) = of_char c" by (simp add: unat_of_nat)
  then show ?thesis by (simp add: byte_char_def char_byte_def)
qed

lemma unat_byte: "unat (b :: uint8) < 256"
  using unsigned_less [of b, where 'a = nat] by simp

lemma bit7_iff: "(b :: uint8) AND 0x80 \<noteq> 0 \<longleftrightarrow> 128 \<le> unat b"
proof -
  have "b AND 2 ^ 7 = (if bit b 7 then 2 ^ 7 else 0)"
    by (rule bit_eqI) (auto simp: bit_simps simp del: power_numeral power_Suc)
  then have "b AND 0x80 \<noteq> 0 \<longleftrightarrow> bit b 7" by (auto split: if_splits)
  also have "\<dots> \<longleftrightarrow> bit (unat b) 7" by (simp add: bit_unsigned_iff)
  also have "\<dots> \<longleftrightarrow> odd (unat b div 128)" by (simp add: bit_iff_odd)
  also have "\<dots> \<longleftrightarrow> 128 \<le> unat b"
  proof (cases "128 \<le> unat b")
    case True
    then have "unat b div 128 = 1" using unat_byte [of b] by (simp add: div_nat_eqI)
    then show ?thesis using True by simp
  qed simp
  finally show ?thesis .
qed

lemma low7: "unat ((b :: uint8) AND 0x7F) = unat b mod 128"
proof -
  have "b AND 0x7F = take_bit 7 b" using take_bit_eq_mask [of 7 b] by (simp add: mask_numeral)
  then have "unat (b AND 0x7F) = take_bit 7 (unat b)" by (simp only: unsigned_take_bit_eq)
  then show ?thesis by (simp add: take_bit_eq_mod)
qed

lemma parse_frame_append:
  assumes "parse_frame rx = Frame opcode payload rest"
  shows "parse_frame (rx @ ys) = Frame opcode payload (rest @ ys)"
proof -
  have l: "2 \<le> length rx" using assms by (auto simp: parse_frame_def split: if_splits)
  have n: "(rx @ ys) ! 0 = rx ! 0" "(rx @ ys) ! 1 = rx ! 1" by (rule nth_append_left, use l in linarith)+
  have m: "4 \<le> length rx \<Longrightarrow> (rx @ ys) ! 2 = rx ! 2 \<and> (rx @ ys) ! 3 = rx ! 3" by (simp add: nth_append)
  show ?thesis
    using assms l m n unfolding parse_frame_def Let_def by (auto simp: not_less split: if_splits)
qed

lemma parse_frame_append_Unsupported:
  assumes "parse_frame rx = Unsupported" shows "parse_frame (rx @ ys) = Unsupported"
proof -
  have l: "2 \<le> length rx" using assms by (auto simp: parse_frame_def split: if_splits)
  have n: "(rx @ ys) ! 0 = rx ! 0" "(rx @ ys) ! 1 = rx ! 1" by (rule nth_append_left, use l in linarith)+
  show ?thesis
    using assms l n unfolding parse_frame_def Let_def by (auto split: if_splits)
qed

lemma parse_frame_bound:
  assumes "parse_frame rx = Frame opcode payload rest" shows "length payload \<le> 65535"
proof -
  have "unat (rx ! 2) * 256 + unat (rx ! 3) \<le> 65535"
    using unat_byte [of "rx ! 2"] unat_byte [of "rx ! 3"] by linarith
  moreover have "unat (rx ! 1 AND 0x7F) \<le> 65535" by (simp add: low7 less_imp_le [OF order_less_le_trans [OF mod_less_divisor]])
  ultimately show ?thesis
    using assms by (auto simp: parse_frame_def Let_def split: if_splits)
qed

lemma low4: "unat ((b :: uint8) AND 0x0F) = unat b mod 16"
proof -
  have "b AND 0x0F = take_bit 4 b" using take_bit_eq_mask [of 4 b] by (simp add: mask_numeral)
  then have "unat (b AND 0x0F) = take_bit 4 (unat b)" by (simp only: unsigned_take_bit_eq)
  then show ?thesis by (simp add: take_bit_eq_mod)
qed

text \<open>
  A final frame as RFC 6455 (section 5.2) lays it out: opcode, whether a masking key is present, and
  the payload with its length in 7 or 16 bits.
\<close>

definition ws_frame :: "nat \<Rightarrow> bytes option \<Rightarrow> bytes \<Rightarrow> bytes" where
  "ws_frame opcode key payload =
     (let n = length payload; m = (if key = None then 0 else 0x80) in
      of_nat (0x80 + opcode) #
      (if n < 126 then [of_nat (m + n)] else [of_nat (m + 126), of_nat (n div 256), of_nat (n mod 256)]) @
      (case key of None \<Rightarrow> payload | Some k \<Rightarrow> k @ xor_mask k payload))"

definition frame_ok :: "nat \<times> bytes option \<times> bytes \<Rightarrow> bool" where
  "frame_ok = (\<lambda>(opcode, key, payload). opcode < 16 \<and> length payload < 65536 \<and>
     (case key of None \<Rightarrow> True | Some k \<Rightarrow> length k = 4))"

lemma encode_frame_eq:
  "encode_frame key payload = (if length payload < 65536 then Some (ws_frame 1 (Some key) payload) else None)"
proof -
  have "(of_nat (0x80 + 1) :: uint8) = 0x81" "(of_nat (0x80 + 126) :: uint8) = 0x80 OR 126" by simp_all
  moreover have "length payload < 65536 \<Longrightarrow> length payload div 256 mod 256 = length payload div 256" by simp
  ultimately show ?thesis by (simp add: encode_frame_def ws_frame_def Let_def del: of_nat_add)
qed

lemma parse_ws_frame:
  assumes "frame_ok (opcode, key, payload)"
  shows "parse_frame (ws_frame opcode key payload @ ys) = Frame opcode payload ys"
proof -
  let ?n = "length payload" and ?m = "if key = None then 0 else (128 :: nat)"
  have "(128 + opcode) mod 16 = opcode" if "opcode < 16" using that by presburger
  then have op: "unat ((of_nat (0x80 + opcode) :: uint8) AND 0x0F) = opcode"
    and n: "?n < 65536" and k: "key = Some k \<Longrightarrow> length k = 4" for k
    using assms by (simp_all add: frame_ok_def low4 unat_of_nat del: of_nat_add)
  have u: "unat (of_nat (?m + j) :: uint8) = ?m + j" if "j < 128" for j
    using that by (simp add: unat_of_nat del: of_nat_add)
  have b: "(of_nat (?m + j) :: uint8) AND 0x80 \<noteq> 0 \<longleftrightarrow> key \<noteq> None"
    "unat ((of_nat (?m + j) :: uint8) AND 0x7F) = j" if "j < 128" for j
    using that by (simp_all only: bit7_iff low7 u [OF that]) simp_all
  have w: "unat (of_nat (?n div 256) :: uint8) * 256 + unat (of_nat (?n mod 256) :: uint8) = ?n"
    using n by (simp add: unat_of_nat)
  have "length (ws_frame opcode key payload) = (if ?n < 126 then 2 else 4) + (if key = None then 0 else 4) + ?n"
    using k by (auto simp: ws_frame_def Let_def split: option.splits)
  then have d: "drop ((if ?n < 126 then 2 else 4) + (if key = None then 0 else 4) + ?n) (ws_frame opcode key payload @ ys) = ys"
    by (metis append_eq_conv_conj)
  show ?thesis
    using op b [of ?n] b [of 126] w n k d
    by (cases key; cases "?n < 126") (simp_all add: parse_frame_def ws_frame_def Let_def del: of_nat_add)
qed

section \<open>The loop over the receive buffer\<close>

abbreviation text_ok :: "nat \<Rightarrow> bool" where
  "text_ok \<equiv> (\<lambda>_. True)"

lemma process_loop_index: "process_loop rx text_ok i = process_loop rx text_ok j"
proof (induction rx text_ok i arbitrary: j rule: process_loop.induct)
  case (1 rx i)
  show ?case
    by (subst (1 2) process_loop.simps)
      (auto simp: 1 [of _ _ _ "Suc j"] split: frame_parse.splits prod.splits)
qed

definition drain :: "bytes \<Rightarrow> int \<times> ws_event list \<times> bytes \<times> bool" where
  "drain rx = process_loop rx text_ok 0"

lemma drain_simps:
  "drain rx = (case parse_frame rx of
     Incomplete \<Rightarrow> (0, [], rx, False)
   | Unsupported \<Rightarrow> (- 1, [], rx, False)
   | Frame opcode payload rest \<Rightarrow>
       if opcode = 8 then (- 1, [On_Close 1000], take (length rx - length payload - length rest) rx @ payload @ rest, True)
       else (case drain rest of (rc, evs, rx', cl) \<Rightarrow>
               (rc, (if opcode = 1 then On_Text (map byte_char payload) # evs else evs), rx', cl)))"
  unfolding drain_def
  by (subst process_loop.simps) (auto simp: process_loop_index [of _ "Suc 0" 0] split: frame_parse.splits)

lemma drain_append:
  assumes "drain a = (0, ev1, r1, c1)"
  shows "drain (a @ b) = (case drain (r1 @ b) of (rc, ev2, r2, c2) \<Rightarrow> (rc, ev1 @ ev2, r2, c2))"
  using assms
proof (induction "length a" arbitrary: a ev1 rule: less_induct)
  case less
  show ?case
  proof (cases "parse_frame a")
    case Incomplete
    then have "ev1 = [] \<and> r1 = a" using less.prems by (simp add: drain_simps [of a])
    then show ?thesis by (simp add: case_prod_beta)
  next
    case Unsupported
    then show ?thesis using less.prems by (simp add: drain_simps [of a])
  next
    case (Frame opcode payload rest)
    have op: "opcode \<noteq> 8" using less.prems Frame by (auto simp: drain_simps [of a] split: if_splits)
    obtain ev0 where ev0: "drain rest = (0, ev0, r1, c1)"
      "ev1 = (if opcode = 1 then On_Text (map byte_char payload) # ev0 else ev0)"
      using less.prems Frame op by (auto simp: drain_simps [of a] split: prod.splits if_splits)
    from less.hyps [OF parse_frame_shorter [OF Frame] ev0(1)] ev0(2) op show ?thesis
      by (simp add: drain_simps [of "a @ b"] parse_frame_append [OF Frame] case_prod_beta)
  qed
qed

lemma drain_prefix_ok:
  assumes "drain (a @ b) = (0, evs, r, cl)"
  shows "\<exists>ev1 r1. drain a = (0, ev1, r1, False)"
  using assms
proof (induction "length a" arbitrary: a evs rule: less_induct)
  case less
  show ?case
  proof (cases "parse_frame a")
    case Incomplete
    then show ?thesis by (simp add: drain_simps [of a])
  next
    case Unsupported
    then show ?thesis using less.prems by (simp add: drain_simps [of "a @ b"] parse_frame_append_Unsupported)
  next
    case (Frame opcode payload rest)
    have op: "opcode \<noteq> 8" using less.prems by (auto simp: drain_simps [of "a @ b"] parse_frame_append [OF Frame] split: if_splits)
    obtain ev0 where "drain (rest @ b) = (0, ev0, r, cl)"
      using less.prems op by (auto simp: drain_simps [of "a @ b"] parse_frame_append [OF Frame] split: prod.splits if_splits)
    from less.hyps [OF parse_frame_shorter [OF Frame] this] op show ?thesis
      by (auto simp: drain_simps [of a] Frame)
  qed
qed

lemma drain_stuck: "drain a = (0, ev1, r1, c1) \<Longrightarrow> drain r1 = (0, [], r1, False)"
proof (induction "length a" arbitrary: a ev1 rule: less_induct)
  case less
  show ?case
  proof (cases "parse_frame a")
    case Incomplete
    then have "r1 = a" using less.prems by (simp add: drain_simps [of a])
    then show ?thesis using Incomplete by (simp add: drain_simps [of a])
  next
    case (Frame opcode payload rest)
    obtain ev0 where "drain rest = (0, ev0, r1, c1)"
      using less.prems Frame by (auto simp: drain_simps [of a] split: prod.splits if_splits)
    then show ?thesis using less.hyps [OF parse_frame_shorter [OF Frame]] by blast
  qed (use less.prems in \<open>simp add: drain_simps [of a]\<close>)
qed

text \<open>The texts among a sequence of frames.\<close>

definition frame_texts :: "(nat \<times> bytes option \<times> bytes) list \<Rightarrow> ws_event list" where
  "frame_texts frames = map (\<lambda>(opcode, key, payload). On_Text (map byte_char payload)) (filter (\<lambda>(opcode, _). opcode = 1) frames)"

definition frame_stream :: "(nat \<times> bytes option \<times> bytes) list \<Rightarrow> bytes" where
  "frame_stream frames = concat (map (\<lambda>(opcode, key, payload). ws_frame opcode key payload) frames)"

lemma drain_frames:
  assumes "list_all (\<lambda>f. frame_ok f \<and> fst f \<noteq> 8) frames"
  shows "drain (frame_stream frames @ ys) =
    (case drain ys of (rc, evs, rx, cl) \<Rightarrow> (rc, frame_texts frames @ evs, rx, cl))"
  using assms
proof (induction frames)
  case Nil
  show ?case by (simp add: frame_stream_def frame_texts_def case_prod_beta)
next
  case (Cons f frames)
  obtain opcode key payload where f [simp]: "f = (opcode, key, payload)" by (cases f)
  have p: "parse_frame (frame_stream (f # frames) @ ys) = Frame opcode payload (frame_stream frames @ ys)"
    using parse_ws_frame [of opcode key payload] Cons.prems by (simp add: frame_stream_def)
  show ?case
    using Cons by (simp add: drain_simps [of "frame_stream ((opcode, key, payload) # frames) @ ys"] p [simplified] frame_texts_def case_prod_beta)
qed

lemma process_text_bound:
  "process_loop rx mem i = (rc, evs, rx', cl) \<Longrightarrow> On_Text t \<in> set evs \<Longrightarrow> length t \<le> 65535"
proof (induction rx mem i arbitrary: rc evs rx' cl rule: process_loop.induct)
  case (1 rx mem i)
  show ?case
  proof (cases "parse_frame rx")
    case (Frame opcode payload rest)
    note b = parse_frame_bound [OF Frame]
    show ?thesis
      using 1(1) [OF Frame] 1(2,3) b Frame
      by (auto simp: process_loop.simps [of rx mem i] split: if_splits prod.splits)
  qed (use 1 in \<open>auto simp: process_loop.simps [of rx mem i]\<close>)
qed


subsection \<open>Polling\<close>

text \<open>Polls that read the given chunks one after the other, with memory available.\<close>

fun deliver :: "rtw_ws_client_t \<Rightarrow> bytes list \<Rightarrow> ws_event list \<times> rtw_ws_client_t" where
  "deliver c [] = ([], c)"
| "deliver c (chunk # chunks) =
     (case rtw_ws_poll c (Poll_Read chunk) True text_ok of (rc, evs, c1) \<Rightarrow>
        case deliver c1 chunks of (evs2, c2) \<Rightarrow> (evs @ evs2, c2))"

definition ws_open :: "rtw_ws_client_t \<Rightarrow> bool" where
  "ws_open c \<longleftrightarrow> 0 \<le> c_fd c \<and> \<not> c_closed c"

definition chunk_ok :: "bytes \<Rightarrow> bool" where
  "chunk_ok chunk \<longleftrightarrow> chunk \<noteq> [] \<and> length chunk \<le> 8192"

lemma poll_drain:
  assumes "ws_open c" "chunk_ok chunk" "drain (c_rx c @ chunk) = (rc, evs, rx, cl)"
  shows "\<exists>cap. rtw_ws_poll c (Poll_Read chunk) True text_ok =
    (rc, evs, c\<lparr>c_rx_cap := cap, c_rx := rx, c_closed := cl\<rparr>)"
proof -
  have "take (max (c_rx_cap c) (length (c_rx c) + 8192) - length (c_rx c)) chunk = chunk"
    using assms(2) by (intro take_all) (simp add: chunk_ok_def, linarith)
  then show ?thesis
    using assms unfolding drain_def
    by (intro exI [of _ "max (c_rx_cap c) (length (c_rx c) + 8192)"], cases c)
      (auto simp: rtw_ws_poll_def ensure_rx_cap_def process_frames_def ws_open_def chunk_ok_def max_def split: if_splits)
qed

lemma deliver_drain:
  assumes "ws_open c" "list_all chunk_ok chunks" "drain (c_rx c) = (0, [], c_rx c, False)"
    "drain (c_rx c @ concat chunks) = (0, evs, rx, False)"
  shows "\<exists>cap. deliver c chunks = (evs, c\<lparr>c_rx_cap := cap, c_rx := rx, c_closed := False\<rparr>)"
  using assms
proof (induction chunks arbitrary: c evs)
  case Nil
  then show ?case by (intro exI [of _ "c_rx_cap c"]) (simp add: ws_open_def)
next
  case (Cons chunk chunks)
  have "drain ((c_rx c @ chunk) @ concat chunks) = (0, evs, rx, False)" using Cons.prems(4) by simp
  from drain_prefix_ok [OF this] obtain ev1 r1 where d: "drain (c_rx c @ chunk) = (0, ev1, r1, False)" by blast
  from poll_drain [OF Cons.prems(1) _ d] Cons.prems(2) obtain cap1 where
    p: "rtw_ws_poll c (Poll_Read chunk) True text_ok = (0, ev1, c\<lparr>c_rx_cap := cap1, c_rx := r1, c_closed := False\<rparr>)"
    by auto
  let ?c1 = "c\<lparr>c_rx_cap := cap1, c_rx := r1, c_closed := False\<rparr>"
  obtain ev2 where ev2: "drain (r1 @ concat chunks) = (0, ev2, rx, False)" "evs = ev1 @ ev2"
    using drain_append [OF d, of "concat chunks"] Cons.prems(4) by (auto simp: case_prod_beta prod_eq_iff)
  have "\<exists>cap. deliver ?c1 chunks = (ev2, ?c1\<lparr>c_rx_cap := cap, c_rx := rx, c_closed := False\<rparr>)"
    by (rule Cons.IH) (use Cons.prems ev2 drain_stuck [OF d] in \<open>simp_all add: ws_open_def\<close>)
  then show ?case using p ev2 by auto
qed

section \<open>Writing\<close>

lemma io_write_all_True: "io_write_all bs rs = Some (True, out) \<Longrightarrow> out = bs"
  by (induction bs rs arbitrary: out rule: io_write_all.induct) (auto split: if_splits)

lemma io_write_all_False: "io_write_all bs rs = Some (False, out) \<Longrightarrow> strict_prefix out bs"
proof (induction bs rs arbitrary: out rule: io_write_all.induct)
  case (5 b bs n rs)
  show ?case
  proof (cases "n = 0")
    case False
    then obtain o1 where o1: "io_write_all (drop n (b # bs)) rs = Some (False, o1)" "out = take n (b # bs) @ o1"
      using "5.prems" by (auto split: if_splits)
    have "strict_prefix (take n (b # bs) @ o1) (take n (b # bs) @ drop n (b # bs))"
      using "5.IH" [OF False o1(1)] by (simp only: prefix_order.less_le same_prefix_prefix same_append_eq) simp
    then show ?thesis using o1(2) by (simp only: append_take_drop_id)
  qed (use "5.prems" in simp)
qed auto

text \<open>Enough sends that each take at least one byte write everything, interrupted or not.\<close>

lemma io_write_all_live:
  "Send_Failed \<notin> set rs \<Longrightarrow> Sent 0 \<notin> set rs \<Longrightarrow> length bs \<le> length (filter (\<lambda>r. r \<noteq> Interrupted) rs) \<Longrightarrow>
   io_write_all bs rs = Some (True, bs)"
proof (induction bs rs rule: io_write_all.induct)
  case (5 b bs n rs)
  then have "0 < n" by (cases n) auto
  then show ?case using 5 append_take_drop_id [of n "b # bs"] by simp
qed auto

section \<open>Descriptors\<close>

fun opened :: "sock_event list \<Rightarrow> nat multiset" where
  "opened [] = {#}"
| "opened (Sock_Open fd # tr) = add_mset fd (opened tr)"
| "opened (Sock_Close fd # tr) = opened tr"

fun shut :: "sock_event list \<Rightarrow> nat multiset" where
  "shut [] = {#}"
| "shut (Sock_Open fd # tr) = shut tr"
| "shut (Sock_Close fd # tr) = add_mset fd (shut tr)"

lemma opened_append [simp]: "opened (a @ b) = opened a + opened b"
  by (induction a rule: opened.induct) auto

lemma shut_append [simp]: "shut (a @ b) = shut a + shut b"
  by (induction a rule: shut.induct) auto

lemma connect_addrs_balance:
  "connect_addrs addrs = (res, tr) \<Longrightarrow> opened tr = shut tr + (case res of None \<Rightarrow> {#} | Some fd \<Rightarrow> {#fd#})"
  by (induction addrs arbitrary: tr rule: connect_addrs.induct) (auto split: prod.splits)

section \<open>URLs\<close>

lemma split_at_char_append: "c \<notin> set a \<Longrightarrow> split_at_char c (a @ c # b) = Some (a, b)"
  by (simp add: split_at_char_def takeWhile_append dropWhile_append)

lemma split_at_last_append: "c \<notin> set b \<Longrightarrow> split_at_last c (a @ c # b) = Some (a, b)"
  using split_at_char_append [of c "rev b" "rev a"] by (simp add: split_at_last_def)

lemma atoi_show_nat: "n < 2 ^ 31 \<Longrightarrow> atoi (show_nat n) = int n"
proof -
  assume n: "n < 2 ^ 31"
  obtain c r where s: "show_nat n = c # r" by (cases "show_nat n") simp_all
  have dig: "\<forall>x \<in> set (show_nat n). is_digit x" by (simp add: show_nat_digits)
  then have "is_digit c" by (simp add: s)
  then have "\<not> is_space c" "c \<noteq> CHR ''-''" "c \<noteq> CHR ''+''"
    by (auto simp: is_digit_def is_space_def)
  then have "dropWhile is_space (show_nat n) = show_nat n" "scan_sign (show_nat n) = []"
    by (simp_all add: s scan_sign_def)
  moreover have tw: "takeWhile is_digit (show_nat n) = show_nat n" using dig by (simp add: takeWhile_eq_all_conv)
  ultimately show ?thesis using n by (simp add: atoi_def Let_def tw sint_sbintrunc' signed_take_bit_int_eq_self)
qed

text \<open>A URL written out: the scheme, the host (an IPv6 literal in brackets), the port and the path.\<close>

definition url_string :: "ws_url \<Rightarrow> string" where
  "url_string u = (if url_tls u then ''wss://'' else ''ws://'') @
     (if CHR '':'' \<in> set (url_host u) then ''['' @ url_host u @ '']'' else url_host u) @
     '':'' @ show_int (url_port u) @ url_path u"

definition url_ok :: "ws_url \<Rightarrow> bool" where
  "url_ok u \<longleftrightarrow> CHR ''/'' \<notin> set (url_host u) \<and> CHR ''['' \<notin> set (url_host u) \<and> CHR '']'' \<notin> set (url_host u) \<and>
     length (url_host u) \<le> 247 \<and> 0 \<le> url_port u \<and> url_port u \<le> 65535 \<and>
     take 1 (url_path u) = ''/'' \<and> length (url_path u) < 512"

section \<open>Properties\<close>

text \<open>
  C5: Delivery. However the bytes of a sequence of frames (masked or not, of any opcode but close,
  payloads below 64 KiB) are cut into reads of 1 to 8192 bytes, the polls that read them report
  exactly the payloads of the text frames, whole and in order; afterwards the buffer is empty and
  the client still open.
\<close>

theorem ws_stream_delivery:
  assumes "ws_open c" "c_rx c = []"
    and "list_all (\<lambda>f. frame_ok f \<and> fst f \<noteq> 8) frames"
    and "list_all chunk_ok chunks" "concat chunks = frame_stream frames"
  shows "fst (deliver c chunks) = frame_texts frames \<and> c_rx (snd (deliver c chunks)) = [] \<and>
    ws_open (snd (deliver c chunks))"
proof -
  have e: "drain [] = (0, [], [], False)" by (simp add: drain_simps [of "[]"] parse_frame_def)
  have "drain (c_rx c @ concat chunks) = (0, frame_texts frames, [], False)"
    using drain_frames [OF assms(3), of "[]"] assms(2,5) e by simp
  from deliver_drain [OF assms(1,4) _ this] e assms(1,2) show ?thesis
    by (auto simp: ws_open_def)
qed

definition example_client :: rtw_ws_client_t where
  "example_client = \<lparr>c_fd = 3, c_rx = [], c_rx_cap = 65536, c_closed = False, c_use_tls = False,
     c_extra_headers = None\<rparr>"

text \<open>A masked text, a ping and an unmasked text arrive in three reads that respect no boundary.\<close>

theorem ws_stream_delivery_witness:
  "fst (deliver example_client
     [[0x81, 0x82, 1, 2], [3, 4, 0x69, 0x6B, 0x89, 0], [0x81, 1, 0x21]]) = [On_Text ''hi'', On_Text ''!'']"
proof -
  let ?frames = "[(1, Some [1, 2, 3, 4], [0x68, 0x69]), (9, None, []), (1, None, [0x21])]"
  let ?chunks = "[[0x81, 0x82, 1, 2], [3, 4, 0x69, 0x6B, 0x89, 0], [0x81, 1, 0x21]]"
  have st: "concat ?chunks = frame_stream ?frames"
    by (simp add: frame_stream_def ws_frame_def xor_mask_def upt_rec)
  have tx: "frame_texts ?frames = [On_Text ''hi'', On_Text ''!'']" by code_simp
  have "ws_open example_client" "c_rx example_client = []" by (simp_all add: example_client_def ws_open_def)
  moreover have "list_all (\<lambda>f. frame_ok f \<and> fst f \<noteq> 8) ?frames" "list_all chunk_ok ?chunks"
    by (simp_all add: frame_ok_def chunk_ok_def)
  ultimately have "fst (deliver example_client ?chunks) = frame_texts ?frames"
    using st by (rule conjunct1 [OF ws_stream_delivery])
  then show ?thesis by (simp only: tx)
qed

text \<open>
  C38: What \<open>rtw_ws_send_text\<close> has put on the wire when it returns. On success it is one text frame
  that a receiver decodes to exactly the given text, whatever follows it; on failure the return code
  is -1 and a proper prefix of that frame was written (nothing at all when the text is 64 KiB or
  longer).
\<close>

theorem ws_send_text_outcome:
  assumes "rtw_ws_send_text c t urandom ok sends = Some (rc, out)"
  shows "(rc = 0 \<and> length t < 65536 \<and> (\<forall>ys. parse_frame (out @ ys) = Frame 1 (map char_byte t) ys)) \<or>
    (rc = - 1 \<and> (if length t < 65536
      then strict_prefix out (ws_frame 1 (Some (mask_key urandom)) (map char_byte t)) else out = []))"
proof -
  let ?f = "ws_frame 1 (Some (mask_key urandom)) (map char_byte t)"
  have key: "length (mask_key urandom) = 4" by (simp add: mask_key_def split: option.splits)
  have ne: "strict_prefix [] ?f" by (simp add: ws_frame_def Let_def)
  have parse: "parse_frame (?f @ ys) = Frame 1 (map char_byte t) ys" if "length t < 65536" for ys
    using that key by (intro parse_ws_frame) (simp add: frame_ok_def)
  show ?thesis
    using assms ne parse io_write_all_True [of ?f sends] io_write_all_False [of ?f sends]
    by (auto simp: rtw_ws_send_text_def encode_frame_eq split: if_splits)
qed

theorem ws_send_text_outcome_witness:
  "\<exists>out. rtw_ws_send_text example_client ''ok'' None True [Sent 3, Interrupted, Sent 5] = Some (0, out) \<and>
     parse_frame out = Frame 1 [0x6F, 0x6B] []"
proof -
  have "rtw_ws_send_text example_client ''ok'' None True [Sent 3, Interrupted, Sent 5] =
    Some (0, [0x81, 0x82, 0x12, 0x34, 0x56, 0x78, 0x7D, 0x5F])"
    by (simp add: rtw_ws_send_text_def example_client_def encode_frame_eq ws_frame_def mask_key_def
        xor_mask_def upt_rec char_byte_def)
  from ws_send_text_outcome [OF this] this show ?thesis
    by (auto simp: char_byte_def dest: spec [of _ "[]"])
qed

text \<open>
  Sending completes. On an open socket, with memory for the frame, a text below 64 KiB is sent
  in full as soon as the kernel has accepted bytes often enough, however the sends are split and
  interrupted, as long as none fails.
\<close>

lemma ws_send_text_completes:
  assumes "0 \<le> c_fd c" "length t < 65536" "Send_Failed \<notin> set sends" "Sent 0 \<notin> set sends"
    and "length t + 8 \<le> length (filter (\<lambda>r. r \<noteq> Interrupted) sends)"
  shows "rtw_ws_send_text c t urandom True sends =
    Some (0, ws_frame 1 (Some (mask_key urandom)) (map char_byte t))"
proof -
  have "length (mask_key urandom) = 4" by (simp add: mask_key_def split: option.splits)
  then have "length (ws_frame 1 (Some (mask_key urandom)) (map char_byte t)) \<le> length t + 8"
    by (simp add: ws_frame_def Let_def)
  then show ?thesis
    using assms io_write_all_live [of sends "ws_frame 1 (Some (mask_key urandom)) (map char_byte t)"]
    by (simp add: rtw_ws_send_text_def encode_frame_eq)
qed

text \<open>
  On every path of connecting, of the sockets opened all are closed again except, when a client is
  returned, the one it holds.
\<close>

lemma connect_balance:
  assumes "rtw_ws_connect_ex url hdrs env = (res, tr)"
  shows "opened tr = shut tr + (case res of None \<Rightarrow> {#} | Some c \<Rightarrow> {#nat (c_fd c)#})"
    and "res = Some c \<Longrightarrow> 0 \<le> c_fd c"
  using assms connect_addrs_balance
  by (fastforce simp: rtw_ws_connect_ex_def rtw_ws_close_def Let_def split: option.splits prod.splits if_splits)+

definition example_env :: connect_env where
  "example_env = \<lparr>e_has_openssl = False, e_addrs = (\<lambda>h p. Some [(Some 4, False), (Some 5, True)]),
     e_alloc = (\<lambda>_. True), e_tls = \<lparr>t_ctx_ok = True, t_ssl_ok = True, t_connect = (\<lambda>_ _. False), t_forced = 0, t_getenv = None\<rparr>,
     e_sends = [Send_Failed], e_reads = []\<rparr>"

text \<open>
  URLs. Every URL written from a scheme, a host name or IPv6 literal, a port and a path that fit
  the buffers is read back as exactly those parts.
\<close>

lemma ws_url_roundtrip:
  assumes "url_ok u" shows "parse_url True (url_string u) 256 512 = Some u"
proof -
  obtain p where p: "url_port u = int p" "p < 10 ^ Suc 4" "p < 2 ^ 31"
    using assms by (cases "url_port u") (auto simp: url_ok_def)
  let ?h = "url_host u" and ?d = "show_nat p"
  define b where "b = (if CHR '':'' \<in> set ?h then ''['' @ ?h @ '']'' else ?h)"
  have dig: "CHR '':'' \<notin> set ?d" "CHR ''/'' \<notin> set ?d"
    using show_nat_digits [of "CHR '':''" p] show_nat_digits [of "CHR ''/''" p] by (auto simp: is_digit_def)
  let ?hp = "b @ '':'' @ ?d"
  have noslash: "CHR ''/'' \<notin> set ?hp" using assms dig by (auto simp: b_def url_ok_def)
  have len: "length ?hp < 256" using assms length_show_nat [OF p(2)] by (auto simp: b_def url_ok_def)
  obtain rest where path: "url_path u = CHR ''/'' # rest" using assms by (cases "url_path u") (auto simp: url_ok_def)
  have split: "takeWhile (\<lambda>c. c \<noteq> CHR ''/'') (?hp @ url_path u) = ?hp"
    "dropWhile (\<lambda>c. c \<noteq> CHR ''/'') (?hp @ url_path u) = url_path u"
    using noslash by (auto simp: path takeWhile_append dropWhile_append)
  have host: "parse_hostport ?hp 256 d = Some (?h, int p)" for d
  proof (cases "CHR '':'' \<in> set ?h")
    case True
    have "split_at_char (CHR '']'') (''['' @ ?h @ CHR '']'' # '':'' @ ?d) = Some (''['' @ ?h, '':'' @ ?d)"
      using split_at_char_append [of "CHR '']''" "''['' @ ?h" "'':'' @ ?d"] assms by (simp add: url_ok_def)
    then show ?thesis using True assms atoi_show_nat [OF p(3)]
      by (simp add: parse_hostport_def b_def url_ok_def Let_def)
  next
    case False
    have "take 1 ?hp \<noteq> ''[''" using False assms by (cases ?h) (auto simp: b_def url_ok_def)
    moreover have "split_at_last (CHR '':'') ?hp = Some (?h, ?d)"
      using split_at_last_append [OF dig(1), of ?h] False by (simp add: b_def)
    ultimately show ?thesis using assms atoi_show_nat [OF p(3)] by (simp add: parse_hostport_def url_ok_def)
  qed
  have str: "url_string u = (if url_tls u then ''wss://'' else ''ws://'') @ ?hp @ url_path u"
    by (simp add: url_string_def b_def p(1) show_int_def)
  have path': "snprintf_s 512 (url_path u) = url_path u" using assms by (simp add: url_ok_def snprintf_s_fits)
  note parts = split path' host len noslash
  show ?thesis
  proof (cases "url_tls u")
    case True
    then have "take 5 (url_string u) \<noteq> ''ws://''" "take 6 (url_string u) = ''wss://''"
      "drop 6 (url_string u) = ?hp @ url_path u" by (simp_all add: str)
    then show ?thesis using True parts p(1) path unfolding parse_url_def Let_def by (simp del: append_assoc)
  next
    case False
    then have "take 5 (url_string u) = ''ws://''" "drop 5 (url_string u) = ?hp @ url_path u" by (simp_all add: str)
    then show ?thesis using False parts p(1) path unfolding parse_url_def Let_def by (simp del: append_assoc)
  qed
qed

lemma ws_url_roundtrip_example:
  "parse_url True ''wss://[::1]:8443/media'' 256 512 =
     Some \<lparr>url_host = ''::1'', url_port = 8443, url_path = ''/media'', url_tls = True\<rparr>"
proof -
  let ?u = "\<lparr>url_host = ''::1'', url_port = 8443, url_path = ''/media'', url_tls = True\<rparr>"
  have d: "digit_char 8 = CHR ''8''" "digit_char 4 = CHR ''4''" "digit_char 3 = CHR ''3''" by code_simp+
  have "url_ok ?u" by (simp add: url_ok_def)
  moreover have "url_string ?u = ''wss://[::1]:8443/media''"
    by (simp add: url_string_def show_int_def show_nat.simps d)
  ultimately show ?thesis using ws_url_roundtrip [of ?u] by simp
qed

text \<open>
  A text that the peer sends in two fragments is not reassembled: its first fragment is
  reported as if it were the whole text and the rest is discarded.
\<close>

lemma ws_fragments_not_joined:
  "fst (deliver example_client [[0x01, 2, 0x61, 0x62, 0x80, 2, 0x63, 0x64]]) = [On_Text ''ab'']"
proof -
  have e: "drain [] = (0, [], [], False)" by (simp add: drain_simps [of "[]"] parse_frame_def)
  have ab: "byte_char 0x61 = CHR ''a''" "byte_char 0x62 = CHR ''b''" by code_simp+
  have f2: "parse_frame [0x80, 2, 0x63, 0x64] = Frame 0 [0x63, 0x64] []"
    and f1: "parse_frame [0x01, 2, 0x61, 0x62, 0x80, 2, 0x63, 0x64] = Frame 1 [0x61, 0x62] [0x80, 2, 0x63, 0x64]"
    by (simp_all add: parse_frame_def)
  have "drain [0x01, 2, 0x61, 0x62, 0x80, 2, 0x63, 0x64] = (0, [On_Text ''ab''], [], False)"
    by (simp add: drain_simps [of "[0x01, 2, 0x61, 0x62, 0x80, 2, 0x63, 0x64]"] drain_simps [of "[0x80, 2, 0x63, 0x64]"]
        f1 f2 e ab)
  then show ?thesis
    using deliver_drain [of example_client "[[0x01, 2, 0x61, 0x62, 0x80, 2, 0x63, 0x64]]" "[On_Text ''ab'']" "[]"] e
    by (auto simp: example_client_def ws_open_def chunk_ok_def)
qed

end
