(* ===== verification/Rtw_Bridge.thy ===== *)
theory Rtw_Bridge
  imports Rtw_Session Rtw_Ws_Client
begin

text \<open>
  The bridge between a call and its WebSocket, \<open>src/mod/rtw_bridge.c\<close>: it owns one session and one
  client, a worker thread that polls and flushes, and the entry points of the media threads and of
  the command interface.
  \<^item> An entry point is one step at the moment it holds the mutex; whether the mutex was obtained is
    an argument, and so is every flag another thread may raise while the worker waits.
  \<^item> What is put on the wire is returned as bytes. A \<open>None\<close> means that the given outcomes of the
    kernel end while a send still waits; \<open>UB\<close> is undefined behaviour.
\<close>

section \<open>Definitions\<close>

datatype rtw_inject_mode_t = RTW_INJECT_REPLACE | RTW_INJECT_MIX

definition RTW_MAX_SID :: nat where "RTW_MAX_SID = 64"
definition RTW_MAX_WS_URI :: nat where "RTW_MAX_WS_URI = 4096"
definition RTW_MAX_META :: nat where "RTW_MAX_META = 8192"

record rtw_tech_t =
  tech_session_id :: string
  tech_stream_sid :: string
  tech_call_sid :: string
  tech_ws_uri :: string
  tech_metadata :: string
  tech_extra_headers :: "string option"
  tech_peer_custom_params :: "string option"
  tech_sampling :: int
  tech_channels :: int
  tech_audio_paused :: bool
  tech_close_requested :: bool
  tech_cleanup_started :: bool
  tech_ws_ready :: bool
  tech_session :: rtw_session_t
  tech_ws :: "rtw_ws_client_t option"
  tech_worker_started :: bool
  tech_pcm_hold :: "int16 list"
  tech_inject_mode :: rtw_inject_mode_t
  tech_reconnect_enabled :: bool
  tech_reconnect_max :: int
  tech_reconnect_attempts :: int
  tech_reconnect_ok :: uint64
  tech_record_injected :: bool

type_synonym 'a run = "'a option c_exec"

definition run_bind :: "'a run \<Rightarrow> ('a \<Rightarrow> 'b run) \<Rightarrow> 'b run" where
  "run_bind m f = exec_bind m (\<lambda>r. case r of None \<Rightarrow> Ret None | Some x \<Rightarrow> f x)"

definition stopping :: "rtw_tech_t \<Rightarrow> bool" where
  "stopping tech \<longleftrightarrow> tech_close_requested tech \<or> tech_cleanup_started tech"

subsection \<open>Sending\<close>

text \<open>
  What one turn of the loop meets: the allocations of the acknowledgements, the random bytes, the
  allocation of the frame and the outcomes of the sends.
\<close>

record flush_env =
  f_mem :: alloc
  f_urandom :: "bytes option"
  f_malloc :: bool
  f_sends :: "send_result list"

fun flush_loop :: "rtw_tech_t \<Rightarrow> rtw_ws_client_t \<Rightarrow> flush_env list \<Rightarrow> (bytes \<times> rtw_tech_t) option" where
  "flush_loop tech ws [] = None"
| "flush_loop tech ws (e # es) =
     (case rtw_session_peek_outbound (tech_session tech) (f_mem e) of
        (None, s1) \<Rightarrow> Some ([], tech\<lparr>tech_session := s1\<rparr>)
      | (Some (None, len), s1) \<Rightarrow> Some ([], tech\<lparr>tech_session := s1, tech_ws_ready := False\<rparr>)
      | (Some (Some json, len), s1) \<Rightarrow>
          (case rtw_ws_send_text ws (take len json) (f_urandom e) (f_malloc e) (f_sends e) of
             None \<Rightarrow> None
           | Some (rc, out) \<Rightarrow>
               if rc \<noteq> 0 then Some (out, tech\<lparr>tech_session := s1, tech_ws_ready := False\<rparr>)
               else map_option (\<lambda>(out2, t2). (out @ out2, t2))
                      (flush_loop (tech\<lparr>tech_session := snd (rtw_session_drop_outbound_head s1)\<rparr>) ws es)))"

definition flush_outbound :: "rtw_tech_t \<Rightarrow> flush_env list \<Rightarrow> (bytes \<times> rtw_tech_t) option" where
  "flush_outbound tech es =
     (case tech_ws tech of
        None \<Rightarrow> Some ([], tech)
      | Some ws \<Rightarrow> if \<not> tech_ws_ready tech then Some ([], tech) else flush_loop tech ws es)"

subsection \<open>Callbacks of the client\<close>

record text_env =
  x_lock :: bool
  x_malloc :: bool
  x_now :: uint64
  x_mem :: alloc
  x_flush :: "flush_env list"

definition peer_json :: "rtw_tech_t \<Rightarrow> string \<Rightarrow> text_env \<Rightarrow> (bytes \<times> rtw_tech_t) run" where
  "peer_json tech json e =
     exec_bind (rtw_session_handle_peer_json (tech_session tech) json (x_malloc e) (x_now e) (x_mem e))
       (\<lambda>(rc, s1). Ret (flush_outbound (tech\<lparr>tech_session := s1\<rparr>) (x_flush e)))"

definition on_ws_text :: "rtw_tech_t \<Rightarrow> string \<Rightarrow> text_env \<Rightarrow> (bytes \<times> rtw_tech_t) run" where
  "on_ws_text tech txt e =
     (if stopping tech then Ret (Some ([], tech))
      else if \<not> x_lock e then Ret (Some ([], tech))
      else peer_json tech (c_str txt) e)"

definition on_ws_close :: "rtw_tech_t \<Rightarrow> rtw_tech_t" where
  "on_ws_close tech = tech\<lparr>tech_ws_ready := False\<rparr>"

text \<open>The callbacks of one poll, in the order of the events.\<close>

fun dispatch :: "rtw_tech_t \<Rightarrow> ws_event list \<Rightarrow> (nat \<Rightarrow> text_env) \<Rightarrow> nat \<Rightarrow> (bytes \<times> rtw_tech_t) run" where
  "dispatch tech [] e i = Ret (Some ([], tech))"
| "dispatch tech (On_Close code # evs) e i = dispatch (on_ws_close tech) evs e i"
| "dispatch tech (On_Text txt # evs) e i =
     run_bind (on_ws_text tech txt (e i)) (\<lambda>(out1, t1).
     run_bind (dispatch t1 evs e (Suc i)) (\<lambda>(out2, t2). Ret (Some (out1 @ out2, t2))))"

subsection \<open>Reconnecting\<close>

text \<open>
  \<open>sleep_interruptible_ms\<close>: return code and the milliseconds slept; \<open>stop i\<close> and \<open>enabled i\<close> are what
  the i-th check of the two flags sees.
\<close>

function sleep_loop :: "(nat \<Rightarrow> bool) \<Rightarrow> (nat \<Rightarrow> bool) \<Rightarrow> nat \<Rightarrow> nat \<Rightarrow> int \<times> nat" where
  "sleep_loop stop enabled i left =
     (if 0 < left then
        (let slice = (if 50 < left then 50 else left)
         in if stop i \<or> \<not> enabled i then (- 1, 0)
            else (case sleep_loop stop enabled (Suc i) (left - slice) of (rc, ms) \<Rightarrow> (rc, slice + ms)))
      else (if stop i then - 1 else 0, 0))"
  by pat_completeness auto
termination by (relation "measure (\<lambda>(stop, enabled, i, left). left)") auto

declare sleep_loop.simps [simp del]

definition sleep_interruptible_ms :: "(nat \<Rightarrow> bool) \<Rightarrow> (nat \<Rightarrow> bool) \<Rightarrow> nat \<Rightarrow> int \<times> nat" where
  "sleep_interruptible_ms stop enabled total_ms = sleep_loop stop enabled 0 total_ms"

definition backoff_ms :: "int \<Rightarrow> nat" where
  "backoff_ms attempts =
     (let shift = nat (if attempts > 5 then 5 else attempts); b = 100 * 2 ^ shift
      in if b > 3000 then 3000 else b)"

record reconnect_env =
  r_stop :: "nat \<Rightarrow> bool"
  r_enabled :: "nat \<Rightarrow> bool"
  r_connect :: connect_env
  r_stop_connected :: bool
  r_lock :: bool
  r_stop_locked :: bool
  r_mem :: alloc
  r_flush :: "flush_env list"

definition close_ws :: "rtw_tech_t \<Rightarrow> sock_event list" where
  "close_ws tech = (case tech_ws tech of None \<Rightarrow> [] | Some c \<Rightarrow> rtw_ws_close c)"

text \<open>Return code, bytes on the wire, sockets opened and closed, and the bridge afterwards.\<close>

definition try_reconnect ::
  "rtw_tech_t \<Rightarrow> reconnect_env \<Rightarrow> (int \<times> bytes \<times> sock_event list \<times> rtw_tech_t) option" where
  "try_reconnect tech e =
     (if \<not> tech_reconnect_enabled tech \<or> stopping tech then Some (- 1, [], [], tech)
      else if tech_reconnect_max tech > 0 \<and> tech_reconnect_attempts tech \<ge> tech_reconnect_max tech
      then Some (- 1, [], [], tech)
      else
        let t1 = tech\<lparr>tech_reconnect_attempts := tech_reconnect_attempts tech + 1\<rparr>;
            slept = sleep_interruptible_ms (r_stop e) (r_enabled e) (backoff_ms (tech_reconnect_attempts t1))
        in if fst slept \<noteq> 0 then Some (- 1, [], [], t1)
           else (case rtw_ws_connect_ex (tech_ws_uri t1) (tech_extra_headers t1) (r_connect e) of
             (None, tr) \<Rightarrow> Some (- 1, [], close_ws t1 @ tr, t1\<lparr>tech_ws := None\<rparr>)
           | (Some c, tr) \<Rightarrow>
               if r_stop_connected e then Some (- 1, [], close_ws t1 @ tr @ rtw_ws_close c, t1\<lparr>tech_ws := None\<rparr>)
               else
                 let t2 = t1\<lparr>tech_ws := Some c, tech_ws_ready := True\<rparr>;
                     locked = (if r_lock e \<and> \<not> r_stop_locked e
                       then flush_outbound (t2\<lparr>tech_session := snd (rtw_session_rehandshake (tech_session t2) (r_mem e))\<rparr>)
                              (r_flush e)
                       else Some ([], t2))
                 in map_option (\<lambda>(out, t3). (0, out, close_ws t1 @ tr,
                      t3\<lparr>tech_reconnect_ok := tech_reconnect_ok t3 + 1, tech_reconnect_attempts := 0\<rparr>)) locked))"

subsection \<open>The worker\<close>

record worker_env =
  w_stop :: bool
  w_poll :: poll_result
  w_realloc :: bool
  w_text_mem :: "nat \<Rightarrow> bool"
  w_texts :: "nat \<Rightarrow> text_env"
  w_reconnect :: reconnect_env
  w_stop_after :: bool
  w_trylock :: bool
  w_flush :: "flush_env list"

text \<open>One turn: whether the loop goes on, bytes on the wire, sockets opened and closed, the bridge.\<close>

definition worker_reconnect ::
  "rtw_tech_t \<Rightarrow> reconnect_env \<Rightarrow> (bool \<times> bytes \<times> sock_event list \<times> rtw_tech_t) run" where
  "worker_reconnect tech e = Ret (map_option (\<lambda>(rc, out, tr, t1). (rc = 0, out, tr, t1)) (try_reconnect tech e))"

definition worker_flush ::
  "rtw_tech_t \<Rightarrow> worker_env \<Rightarrow> (bool \<times> bytes \<times> sock_event list \<times> rtw_tech_t) run" where
  "worker_flush tech e =
     (if stopping tech \<or> w_stop_after e then Ret (Some (False, [], [], tech))
      else if w_trylock e
      then Ret (map_option (\<lambda>(out, t1). (True, out, [], t1)) (flush_outbound tech (w_flush e)))
      else Ret (Some (True, [], [], tech)))"

definition ws_worker_turn ::
  "rtw_tech_t \<Rightarrow> worker_env \<Rightarrow> (bool \<times> bytes \<times> sock_event list \<times> rtw_tech_t) run" where
  "ws_worker_turn tech e =
     (if stopping tech \<or> w_stop e then Ret (Some (False, [], [], tech))
      else case tech_ws tech of
        None \<Rightarrow> worker_flush tech e
      | Some ws \<Rightarrow>
          if tech_ws_ready tech then
            (case rtw_ws_poll ws (w_poll e) (w_realloc e) (w_text_mem e) of (rc, evs, ws1) \<Rightarrow>
               run_bind (dispatch (tech\<lparr>tech_ws := Some ws1\<rparr>) evs (w_texts e) 0) (\<lambda>(out1, t1).
               run_bind (if rc < 0 then worker_reconnect (t1\<lparr>tech_ws_ready := False\<rparr>) (w_reconnect e)
                         else worker_flush t1 e)
                 (\<lambda>(more, out2, tr, t2). Ret (Some (more, out1 @ out2, tr, t2)))))
          else worker_reconnect tech (w_reconnect e))"

text \<open>The worker over a sequence of turns; \<open>None\<close> while it still runs when the sequence ends.\<close>

fun ws_worker :: "rtw_tech_t \<Rightarrow> worker_env list \<Rightarrow> (bytes \<times> sock_event list \<times> rtw_tech_t) run" where
  "ws_worker tech [] = Ret None"
| "ws_worker tech (e # es) =
     run_bind (ws_worker_turn tech e) (\<lambda>(more, out1, tr1, t1).
       if more then run_bind (ws_worker t1 es) (\<lambda>(out2, tr2, t2). Ret (Some (out1 @ out2, tr1 @ tr2, t2)))
       else Ret (Some (out1, tr1, t1)))"

subsection \<open>Names\<close>

definition rtw_validate_ws_uri :: "bool \<Rightarrow> string \<Rightarrow> nat \<Rightarrow> string option" where
  "rtw_validate_ws_uri has_openssl url out_cap =
     (if out_cap < 8 then None
      else if take 5 url \<noteq> ''ws://'' \<and> (take 6 url \<noteq> ''wss://'' \<or> \<not> has_openssl) then None
      else if out_cap \<le> length url then None
      else Some (snprintf_s out_cap url))"

definition isxdigit :: "char \<Rightarrow> bool" where
  "isxdigit c \<longleftrightarrow> hex_digit c \<noteq> None"

definition isalnum :: "char \<Rightarrow> bool" where
  "isalnum c \<longleftrightarrow> is_digit c \<or> (97 \<le> (of_char (ascii_lower c) :: nat) \<and> (of_char (ascii_lower c) :: nat) \<le> 122)"

text \<open>The loop of \<open>hex_compact\<close>, with room for \<open>room\<close> more digits, and the zeros behind it.\<close>

fun hex_loop :: "string \<Rightarrow> nat \<Rightarrow> string" where
  "hex_loop [] room = replicate room (CHR ''0'')"
| "hex_loop (c # cs) room =
     (if room = 0 then []
      else if isxdigit c then ascii_lower c # hex_loop cs (room - 1) else hex_loop cs room)"

definition hex_compact :: "string \<Rightarrow> nat \<Rightarrow> nat \<Rightarrow> string" where
  "hex_compact uuid out_cap want = hex_loop uuid (min want (out_cap - 1))"

definition make_stream_sid :: "nat \<Rightarrow> string \<Rightarrow> string" where
  "make_stream_sid cap uuid = snprintf_s cap (''MZ'' @ hex_compact uuid 33 32)"

definition make_call_sid :: "nat \<Rightarrow> string \<Rightarrow> string" where
  "make_call_sid cap uuid = snprintf_s cap (''CA'' @ hex_compact uuid 33 32)"

definition mark_name_char :: "char \<Rightarrow> bool" where
  "mark_name_char c \<longleftrightarrow> isalnum c \<or> c = CHR ''_'' \<or> c = CHR ''-'' \<or> c = CHR ''.''"

definition valid_mark_name :: "string \<Rightarrow> bool" where
  "valid_mark_name name \<longleftrightarrow> name \<noteq> [] \<and> length name < RTW_MARK_NAME_LEN \<and> list_all mark_name_char name"

definition clamp_s16 :: "int \<Rightarrow> int16" where
  "clamp_s16 v = (if v > 32767 then 32767 else if v < - 32768 then - 32768 else word_of_int v)"

subsection \<open>Metadata\<close>

text \<open>Outcomes of the allocations: the parse, the copy, the first header line, the later ones, the print.\<close>

record meta_env =
  m_parse :: bool
  m_strdup :: bool
  m_line :: bool
  m_realloc :: "nat \<Rightarrow> bool"
  m_print :: bool

definition header_line :: "string \<Rightarrow> string \<Rightarrow> string" where
  "header_line key val = key @ '': '' @ val @ CRLF"

fun add_headers :: "(string \<times> cJSON) list \<Rightarrow> string \<Rightarrow> (nat \<Rightarrow> bool) \<Rightarrow> nat \<Rightarrow> string option" where
  "add_headers [] hdr ok i = Some hdr"
| "add_headers ((key, J_String val) # ms) hdr ok i =
     (if ok i then add_headers ms (hdr @ header_line key val) ok (Suc i) else None)"
| "add_headers (m # ms) hdr ok i = add_headers ms hdr ok i"

text \<open>\<open>None\<close> is the return code -1; otherwise the two outputs, \<open>None\<close> for a NULL pointer.\<close>

definition split_metadata :: "string \<Rightarrow> meta_env \<Rightarrow> (string option \<times> string option) option" where
  "split_metadata metadata e =
     (if metadata = [] then Some (None, None)
      else case (if m_parse e then cJSON_Parse metadata else None) of
        Some (J_Object ms) \<Rightarrow>
          (let obj = J_Object ms;
               auth = cJSON_GetObjectItemCaseSensitive (Some obj) ''authorization'';
               first = (case auth of Some (J_String v) \<Rightarrow> if v = [] then None else Some v | _ \<Rightarrow> None);
               hdr = (case first of Some v \<Rightarrow> header_line ''Authorization'' v | None \<Rightarrow> []);
               obj1 = (if first = None then obj else cJSON_DeleteItemFromObject obj ''authorization'');
               headers = cJSON_GetObjectItemCaseSensitive (Some obj1) ''ws_headers''
           in if first \<noteq> None \<and> \<not> m_line e then None
              else (case (case headers of
                            Some (J_Object hs) \<Rightarrow> map_option (\<lambda>h. (h, cJSON_DeleteItemFromObject obj1 ''ws_headers''))
                                                    (add_headers hs hdr (m_realloc e) 0)
                          | _ \<Rightarrow> Some (hdr, obj1)) of
                      None \<Rightarrow> None
                    | Some (h, obj2) \<Rightarrow>
                        Some (if h = [] then None else Some h,
                              if obj2 \<noteq> J_Object [] \<and> m_print e then cJSON_PrintUnformatted obj2 else None)))
      | _ \<Rightarrow> if m_strdup e then Some (None, Some metadata) else None)"

subsection \<open>Start and stop\<close>

record start_env =
  st_calloc :: bool
  st_mutex :: bool
  st_uuid :: "string option"
  st_env_reconnect :: "string option"
  st_env_mix :: "string option"
  st_meta :: meta_env
  st_queue_calloc :: bool
  st_playout_malloc :: "(nat \<Rightarrow> uint8) option"
  st_strdup :: bool
  st_mem :: alloc
  st_connect :: connect_env
  st_flush :: "flush_env list"
  st_pthread :: bool

definition first_char_is :: "char \<Rightarrow> string option \<Rightarrow> bool" where
  "first_char_is c env = (case env of Some (x # _) \<Rightarrow> x = c | _ \<Rightarrow> False)"

definition bridge_account_sid :: string where
  "bridge_account_sid = ''ACmodrealtimews0000000000000000000''"

text \<open>The fields of the new bridge before its session and its socket exist.\<close>

definition init_tech :: "string \<Rightarrow> int \<Rightarrow> int \<Rightarrow> string option \<Rightarrow> start_env \<Rightarrow> rtw_tech_t" where
  "init_tech ws_uri sampling channels metadata e =
     (let id = snprintf_s RTW_MAX_SID (case st_uuid e of Some u \<Rightarrow> u | None \<Rightarrow> ''unknown'')
      in \<lparr>tech_session_id = id,
          tech_stream_sid = snprintf_s RTW_SID_MAX (make_stream_sid RTW_SID_MAX id),
          tech_call_sid = snprintf_s RTW_SID_MAX (make_call_sid RTW_SID_MAX id),
          tech_ws_uri = snprintf_s RTW_MAX_WS_URI ws_uri,
          tech_metadata = (case metadata of Some m \<Rightarrow> snprintf_s RTW_MAX_META m | None \<Rightarrow> []),
          tech_extra_headers = None, tech_peer_custom_params = None,
          tech_sampling = (if sampling > 0 then sampling else 8000),
          tech_channels = (if channels > 0 then channels else 1),
          tech_audio_paused = False, tech_close_requested = False, tech_cleanup_started = False,
          tech_ws_ready = False, tech_session = zero_session, tech_ws = None,
          tech_worker_started = False, tech_pcm_hold = [],
          tech_inject_mode = (if first_char_is (CHR ''1'') (st_env_mix e) then RTW_INJECT_MIX else RTW_INJECT_REPLACE),
          tech_reconnect_enabled = (\<not> first_char_is (CHR ''0'') (st_env_reconnect e)),
          tech_reconnect_max = 10, tech_reconnect_attempts = 0, tech_reconnect_ok = 0,
          tech_record_injected = True\<rparr>)"

definition start_session :: "rtw_tech_t \<Rightarrow> start_env \<Rightarrow> rtw_tech_t option" where
  "start_session tech e =
     (case split_metadata (tech_metadata tech) (st_meta e) of
        None \<Rightarrow> None
      | Some (hdrs, params) \<Rightarrow>
          (case rtw_session_init 256 (64 * 1024) (st_queue_calloc e) (st_playout_malloc e) of
             None \<Rightarrow> None
           | Some s \<Rightarrow>
               (case rtw_session_start s (tech_stream_sid tech) (Some (tech_call_sid tech)) (Some bridge_account_sid)
                       params (st_strdup e) (st_mem e) of (rc, s1) \<Rightarrow>
                  if rc \<noteq> 0 then None
                  else Some (tech\<lparr>tech_extra_headers := hdrs, tech_peer_custom_params := params, tech_session := s1\<rparr>))))"

text \<open>The new bridge (\<open>None\<close> for \<open>SWITCH_STATUS_FALSE\<close>), the bytes on the wire, the sockets.\<close>

definition rtw_bridge_start ::
  "string \<Rightarrow> int \<Rightarrow> int \<Rightarrow> string option \<Rightarrow> start_env \<Rightarrow> (rtw_tech_t option \<times> bytes \<times> sock_event list) option" where
  "rtw_bridge_start ws_uri sampling channels metadata e =
     (if sampling \<noteq> 8000 \<and> sampling \<noteq> 16000 \<and> \<not> 8000 dvd sampling then Some (None, [], [])
      else if \<not> st_calloc e \<or> \<not> st_mutex e then Some (None, [], [])
      else case start_session (init_tech ws_uri sampling channels metadata e) e of
        None \<Rightarrow> Some (None, [], [])
      | Some t1 \<Rightarrow>
          (case rtw_ws_connect_ex ws_uri (tech_extra_headers t1) (st_connect e) of
             (None, tr) \<Rightarrow> Some (None, [], tr)
           | (Some c, tr) \<Rightarrow>
               map_option (\<lambda>(out, t2).
                   if st_pthread e then (Some (t2\<lparr>tech_worker_started := True\<rparr>), out, tr)
                   else (None, out, tr @ rtw_ws_close c))
                 (flush_outbound (t1\<lparr>tech_ws := Some c, tech_ws_ready := True\<rparr>) (st_flush e))))"

record stop_env =
  sp_lock :: bool
  sp_mem :: "bool \<times> bool"
  sp_flush :: "flush_env list"

text \<open>
  \<open>rtw_bridge_stop\<close> after the worker has been joined. The bridge is freed: the bytes on the wire,
  the sockets closed and the messages that were still queued and freed unsent are left. A second
  call on the same bridge would read freed memory, so the test of \<open>cleanup_started\<close> only shows in
  calls that find the flag set on a live bridge.
\<close>

definition rtw_bridge_stop ::
  "rtw_tech_t \<Rightarrow> stop_env \<Rightarrow> (bytes \<times> sock_event list \<times> string list) option" where
  "rtw_bridge_stop tech e =
     (if tech_cleanup_started tech then Some ([], [], [])
      else
        let t1 = tech\<lparr>tech_cleanup_started := True, tech_close_requested := True,
                       tech_reconnect_enabled := False, tech_worker_started := False\<rparr>;
            flushed = (if sp_lock e
              then flush_outbound
                     (t1\<lparr>tech_session := snd (rtw_session_stop (tech_session t1) (sp_mem e)),
                         tech_ws_ready := (tech_ws t1 \<noteq> None \<or> tech_ws_ready t1)\<rparr>) (sp_flush e)
              else Some ([], t1))
        in map_option (\<lambda>(out, t2). (out, close_ws t2, fst (rtw_session_destroy (tech_session t2)))) flushed)"

subsection \<open>Commands\<close>

text \<open>Each returns whether it succeeded, what it put on the wire and the bridge.\<close>

definition rtw_bridge_pause :: "rtw_tech_t \<Rightarrow> bool \<Rightarrow> bool \<Rightarrow> bool \<times> rtw_tech_t" where
  "rtw_bridge_pause tech pause lock =
     (if tech_cleanup_started tech \<or> \<not> lock then (False, tech)
      else (True, tech\<lparr>tech_audio_paused := pause, tech_session := (tech_session tech)\<lparr>s_paused := pause\<rparr>\<rparr>))"

definition clear_command :: "string \<Rightarrow> string" where
  "clear_command sid = snprintf_s 128
     ([CHR ''{'', QUOTE] @ ''event'' @ [QUOTE, CHR '':'', QUOTE] @ ''clear'' @ [QUOTE, CHR '','', QUOTE] @
      ''streamSid'' @ [QUOTE, CHR '':'', QUOTE] @ sid @ [QUOTE, CHR ''}''])"

definition mark_command :: "string \<Rightarrow> string \<Rightarrow> string" where
  "mark_command sid name = snprintf_s 256
     ([CHR ''{'', QUOTE] @ ''event'' @ [QUOTE, CHR '':'', QUOTE] @ ''mark'' @ [QUOTE, CHR '','', QUOTE] @
      ''streamSid'' @ [QUOTE, CHR '':'', QUOTE] @ sid @ [QUOTE, CHR '','', QUOTE] @
      ''mark'' @ [QUOTE, CHR '':'', CHR ''{'', QUOTE] @ ''name'' @ [QUOTE, CHR '':'', QUOTE] @ name @
      [QUOTE, CHR ''}'', CHR ''}''])"

definition locked_json :: "rtw_tech_t \<Rightarrow> string \<Rightarrow> text_env \<Rightarrow> (bool \<times> bytes \<times> rtw_tech_t) run" where
  "locked_json tech json e =
     (if \<not> x_lock e then Ret (Some (False, [], tech))
      else run_bind (peer_json tech json e) (\<lambda>(out, t1). Ret (Some (True, out, t1))))"

definition rtw_bridge_clear :: "rtw_tech_t \<Rightarrow> text_env \<Rightarrow> (bool \<times> bytes \<times> rtw_tech_t) run" where
  "rtw_bridge_clear tech e =
     (if tech_cleanup_started tech then Ret (Some (False, [], tech))
      else locked_json tech (clear_command (tech_stream_sid tech)) e)"

definition rtw_bridge_send_mark :: "rtw_tech_t \<Rightarrow> string \<Rightarrow> text_env \<Rightarrow> (bool \<times> bytes \<times> rtw_tech_t) run" where
  "rtw_bridge_send_mark tech name e =
     (if tech_cleanup_started tech \<or> \<not> valid_mark_name name then Ret (Some (False, [], tech))
      else locked_json tech (mark_command (tech_stream_sid tech) name) e)"

subsection \<open>Audio\<close>

text \<open>\<open>((int)a + (int)b) / 2\<close>, which truncates towards zero.\<close>

definition avg_s16 :: "int16 \<Rightarrow> int16 \<Rightarrow> int16" where
  "avg_s16 a b = (let v = sint a + sint b in word_of_int (if v < 0 then - ((- v) div 2) else v div 2))"

definition hold_sample :: "int16 \<Rightarrow> alloc \<Rightarrow> rtw_session_t \<times> int16 list \<Rightarrow> rtw_session_t \<times> int16 list" where
  "hold_sample sample mem = (\<lambda>(s, hold).
     let hold1 = (if length hold < 320 then hold @ [sample] else hold)
     in if 160 \<le> length hold1 then (snd (rtw_session_push_pcm16 s (take 160 hold1) mem), []) else (s, hold1))"

fun read_stereo :: "bool \<Rightarrow> int16 list \<Rightarrow> (nat \<Rightarrow> alloc) \<Rightarrow> nat \<Rightarrow> rtw_session_t \<times> int16 list \<Rightarrow> rtw_session_t \<times> int16 list" where
  "read_stereo wide (a # _ # c # d # pcm) mem i st =
     (if wide then read_stereo wide pcm mem (Suc i) (hold_sample (avg_s16 a c) (mem i) st)
      else read_stereo wide (c # d # pcm) mem (Suc i) (hold_sample a (mem i) st))"
| "read_stereo wide (a # _ # pcm) mem i st = hold_sample a (mem i) st"
| "read_stereo wide pcm mem i st = st"

fun read_mono :: "bool \<Rightarrow> int16 list \<Rightarrow> (nat \<Rightarrow> alloc) \<Rightarrow> nat \<Rightarrow> rtw_session_t \<times> int16 list \<Rightarrow> rtw_session_t \<times> int16 list" where
  "read_mono wide [] mem i st = st"
| "read_mono wide [a] mem i st = hold_sample a (mem i) st"
| "read_mono wide (a # b # pcm) mem i st =
     (if wide then read_mono wide pcm mem (Suc i) (hold_sample (avg_s16 a b) (mem i) st)
      else read_mono wide (b # pcm) mem (Suc i) (hold_sample a (mem i) st))"

definition rtw_bridge_on_read_pcm16 :: "rtw_tech_t \<Rightarrow> int16 list \<Rightarrow> bool \<Rightarrow> (nat \<Rightarrow> alloc) \<Rightarrow> rtw_tech_t" where
  "rtw_bridge_on_read_pcm16 tech pcm lock mem =
     (if stopping tech \<or> tech_audio_paused tech then tech
      else if \<not> lock then tech
      else let wide = (tech_sampling tech = 16000);
               st = (tech_session tech, tech_pcm_hold tech)
        in case (if tech_channels tech \<ge> 2 then read_stereo wide pcm mem 0 st else read_mono wide pcm mem 0 st) of
             (s, hold) \<Rightarrow> tech\<lparr>tech_session := s, tech_pcm_hold := hold\<rparr>)"

definition take_playout :: "rtw_session_t \<Rightarrow> nat \<Rightarrow> uint64 \<Rightarrow> bytes \<times> rtw_session_t" where
  "take_playout s want now =
     (case rtw_session_read_playout s want of (mulaw, s1) \<Rightarrow>
        (mulaw, if mulaw = [] then rtw_session_note_write_after_clear s1 0 now else s1))"

definition rtw_bridge_on_write_pcm16 :: "rtw_tech_t \<Rightarrow> nat \<Rightarrow> bool \<Rightarrow> uint64 \<Rightarrow> int16 list \<times> rtw_tech_t" where
  "rtw_bridge_on_write_pcm16 tech max_samples lock now =
     (if max_samples = 0 \<or> tech_cleanup_started tech then ([], tech)
      else if \<not> lock then ([], tech)
      else case take_playout (tech_session tech) (min max_samples 640) now of
        (mulaw, s1) \<Rightarrow> (rtw_mulaw_to_pcm16 mulaw, tech\<lparr>tech_session := s1\<rparr>))"

text \<open>The number of samples taken, the frame as it is left and the bridge.\<close>

definition rtw_bridge_apply_write_frame ::
  "rtw_tech_t \<Rightarrow> int16 list \<Rightarrow> bool \<Rightarrow> uint64 \<Rightarrow> nat \<times> int16 list \<times> rtw_tech_t" where
  "rtw_bridge_apply_write_frame tech pcm lock now =
     (if pcm = [] \<or> tech_cleanup_started tech then (0, pcm, tech)
      else if \<not> lock then (0, pcm, tech)
      else case take_playout (tech_session tech) (min (length pcm) 640) now of
        (mulaw, s1) \<Rightarrow>
          let agent = rtw_mulaw_to_pcm16 mulaw; n = length mulaw; t1 = tech\<lparr>tech_session := s1\<rparr>
          in if n = 0 then (0, pcm, t1)
             else (case tech_inject_mode tech of
                     RTW_INJECT_MIX \<Rightarrow>
                       (n, map2 (\<lambda>x y. clamp_s16 (sint x + sint y)) (take n pcm) agent @ drop n pcm, t1)
                   | RTW_INJECT_REPLACE \<Rightarrow>
                       (n, agent @ replicate (length pcm - n) 0, t1)))"

subsection \<open>Statistics\<close>

record rtw_bridge_stats_t =
  stats_stream_sid :: string
  stats_call_sid :: string
  stats_ws_ready :: bool
  stats_reconnect_enabled :: bool
  stats_reconnect_ok :: uint64
  stats_uplink_frames :: uint64
  stats_downlink_frames :: uint64
  stats_clear_events :: uint64
  stats_clear_latency_last_us :: uint64
  stats_clear_latency_max_us :: uint64
  stats_clear_latency_avg_us :: uint64
  stats_clear_latency_samples :: uint64
  stats_outbound_queue :: nat
  stats_playout_bytes :: nat
  stats_record_injected :: bool
  stats_inject_mode :: rtw_inject_mode_t

definition rtw_bridge_get_stats :: "rtw_tech_t \<Rightarrow> bool \<Rightarrow> rtw_bridge_stats_t option" where
  "rtw_bridge_get_stats tech lock =
     (if tech_cleanup_started tech \<or> \<not> lock then None
      else let s = tech_session tech in
        Some \<lparr>stats_stream_sid = snprintf_s RTW_SID_MAX (tech_stream_sid tech),
              stats_call_sid = snprintf_s RTW_SID_MAX (tech_call_sid tech),
              stats_ws_ready = tech_ws_ready tech,
              stats_reconnect_enabled = tech_reconnect_enabled tech,
              stats_reconnect_ok = tech_reconnect_ok tech,
              stats_uplink_frames = s_uplink_frames s,
              stats_downlink_frames = s_downlink_frames s,
              stats_clear_events = s_clear_events s,
              stats_clear_latency_last_us = s_clear_latency_last_us s,
              stats_clear_latency_max_us = s_clear_latency_max_us s,
              stats_clear_latency_avg_us =
                (if s_clear_latency_samples s \<noteq> 0 then s_clear_latency_sum_us s div s_clear_latency_samples s else 0),
              stats_clear_latency_samples = s_clear_latency_samples s,
              stats_outbound_queue = rtw_queue_size (s_outbound s),
              stats_playout_bytes = rtw_playout_size (s_playout s),
              stats_record_injected = tech_record_injected tech,
              stats_inject_mode = tech_inject_mode tech\<rparr>)"

end
