(* ===== verification/Rtw_Bridge_Correct.thy ===== *)
theory Rtw_Bridge_Correct
  imports Rtw_Bridge
begin

text \<open>
  Lemmas and properties of the bridge: what a flush puts on the wire and keeps, the invariant and its
  preservation by every step, the packing of call audio, the injection of agent audio, the
  identifiers, the commands, the metadata and the reconnect policy.
\<close>

section \<open>The transport\<close>

text \<open>
  What the bridge relies on when it hands a text to the client: the bytes that went out are a whole
  frame on success and a proper prefix of it on failure, and a patient kernel takes all of it.
\<close>

locale text_transport =
  fixes send :: "'c \<Rightarrow> string \<Rightarrow> 'e \<Rightarrow> (int \<times> bytes) option"
    and frame :: "'e \<Rightarrow> string \<Rightarrow> bytes"
    and good :: "'c \<Rightarrow> string \<Rightarrow> 'e \<Rightarrow> bool"
  assumes sent: "send c t e = Some (0, out) \<Longrightarrow> out = frame e t"
    and cut: "send c t e = Some (rc, out) \<Longrightarrow> rc \<noteq> 0 \<Longrightarrow> strict_prefix out (frame e t)"
    and live: "good c t e \<Longrightarrow> send c t e = Some (0, frame e t)"
begin

lemma whole_or_cut:
  assumes "send c t e = Some (rc, out)"
  obtains "rc = 0" "out = frame e t" | "rc \<noteq> 0" "strict_prefix out (frame e t)"
  using assms sent cut by metis

end

definition env_send :: "rtw_ws_client_t \<Rightarrow> string \<Rightarrow> flush_env \<Rightarrow> (int \<times> bytes) option" where
  "env_send ws t e = rtw_ws_send_text ws t (f_urandom e) (f_malloc e) (f_sends e)"

definition text_frame :: "flush_env \<Rightarrow> string \<Rightarrow> bytes" where
  "text_frame e t = ws_frame 1 (Some (mask_key (f_urandom e))) (map char_byte t)"

definition good_env :: "rtw_ws_client_t \<Rightarrow> string \<Rightarrow> flush_env \<Rightarrow> bool" where
  "good_env ws t e \<longleftrightarrow> 0 \<le> c_fd ws \<and> length t < 65536 \<and> f_malloc e \<and>
     Send_Failed \<notin> set (f_sends e) \<and> Sent 0 \<notin> set (f_sends e) \<and>
     length t + 8 \<le> length (filter (\<lambda>r. r \<noteq> Interrupted) (f_sends e))"

interpretation wire: text_transport env_send text_frame good_env
proof unfold_locales
  fix c t e out
  let ?f = "text_frame e t"
  have ne: "strict_prefix [] ?f" by (simp add: text_frame_def ws_frame_def Let_def)
  show "env_send c t e = Some (0, out) \<Longrightarrow> out = ?f"
    using io_write_all_True [of ?f "f_sends e"]
    by (auto simp: env_send_def rtw_ws_send_text_def encode_frame_eq text_frame_def split: if_splits)
  show "strict_prefix out ?f" if "env_send c t e = Some (rc, out)" "rc \<noteq> 0" for rc
    using that ne io_write_all_False [of ?f "f_sends e"]
    by (auto simp: env_send_def rtw_ws_send_text_def encode_frame_eq text_frame_def split: if_splits)
  show "env_send c t e = Some (0, ?f)" if "good_env c t e"
  proof -
    have "length (mask_key (f_urandom e)) = 4" by (simp add: mask_key_def split: option.splits)
    then have "length ?f \<le> length t + 8" by (simp add: text_frame_def ws_frame_def Let_def)
    then show ?thesis
      using that io_write_all_live [of "f_sends e" ?f]
      by (simp add: env_send_def good_env_def rtw_ws_send_text_def encode_frame_eq text_frame_def)
  qed
qed

section \<open>Flushing\<close>

text \<open>No mark waits to be acknowledged: then a harvest does nothing.\<close>

definition quiet :: "rtw_session_t \<Rightarrow> bool" where
  "quiet s \<longleftrightarrow> list_all (\<lambda>m. bytes_after m \<noteq> 0) (active_marks (s_playout s))"

lemma pop_marks_loop_none:
  assumes "list_all (\<lambda>m. bytes_after m \<noteq> 0) (take cnt ms)" "cnt \<le> length ms"
  shows "pop_marks_loop ms cnt i max_out names = (names, ms, cnt)"
  using assms
proof (induction "cnt - i" arbitrary: i)
  case (Suc n)
  have "bytes_after (ms ! i) \<noteq> 0"
    using Suc.prems Suc.hyps(2) by (simp add: list_all_length)
  then show ?case using Suc by (subst pop_marks_loop.simps) simp
qed (simp add: pop_marks_loop.simps)

lemma harvest_quiet: "session_inv s \<Longrightarrow> quiet s \<Longrightarrow> rtw_session_harvest_marks s mem = s"
  using playout_invD(6,7) [OF session_invD(2), of s]
  by (simp add: rtw_session_harvest_marks_def rtw_playout_pop_completed_marks_def quiet_def active_marks_def
      pop_marks_loop_none)

lemma ack_all_playout [simp]: "s_playout (ack_all s ns i mem) = s_playout s"
  by (induction ns arbitrary: s i) (simp_all add: ack_mark_def)

lemma quiet_harvest:
  assumes "session_inv s" shows "quiet (rtw_session_harvest_marks s mem)"
proof -
  let ?p = "s_playout s"
  obtain names ms cnt where loop: "pop_marks_loop (p_marks ?p) (p_mark_count ?p) 0 8 [] = (names, ms, cnt)"
    by (cases "pop_marks_loop (p_marks ?p) (p_mark_count ?p) 0 8 []") auto
  have "take cnt ms = filter (\<lambda>m. bytes_after m \<noteq> 0) (active_marks ?p)"
    using pop_marks_loop_filter [of 0 "p_mark_count ?p" "p_marks ?p" "[]" 8] loop
      playout_invD(6,7) [OF session_invD(2) [OF assms]] by (simp add: active_marks_def)
  then show ?thesis
    by (simp add: quiet_def rtw_session_harvest_marks_def rtw_playout_pop_completed_marks_def loop active_marks_def
        list_all_iff)
qed

lemma flush_loop_harvest:
  assumes "session_inv (tech_session tech)"
  shows "flush_loop tech ws (e # es) =
    flush_loop (tech\<lparr>tech_session := rtw_session_harvest_marks (tech_session tech) (f_mem e)\<rparr>) ws (e # es)"
  using harvest_quiet [OF harvest_inv [OF assms] quiet_harvest [OF assms]]
  by (auto simp: rtw_session_peek_outbound_def Let_def split: option.splits)

lemma quiet_outbound [simp]: "quiet (s\<lparr>s_outbound := q\<rparr>) = quiet s"
  by (simp add: quiet_def)

text \<open>A turn of the loop in terms of the queued texts.\<close>

lemma peek_contents:
  assumes "session_inv s" "quiet s"
  shows "rtw_session_peek_outbound s mem =
    (case queue_contents (s_outbound s) of [] \<Rightarrow> None | m # _ \<Rightarrow> Some (Some m, length m), s)"
proof -
  have "rtw_queue_peek (s_outbound s) =
    (case queue_contents (s_outbound s) of [] \<Rightarrow> None | m # _ \<Rightarrow> Some (Some m, length m))"
    using queue_head_item [OF session_invD(1) [OF assms(1)]] queue_empty_iff [of "s_outbound s"]
    by (cases "queue_contents (s_outbound s)") (auto simp: rtw_queue_peek_def mk_item_def)
  then show ?thesis by (simp add: rtw_session_peek_outbound_def harvest_quiet [OF assms])
qed

lemma drop_contents:
  assumes "session_inv s"
  shows "queue_contents (s_outbound (snd (rtw_session_drop_outbound_head s))) = tl (queue_contents (s_outbound s))"
    "quiet (snd (rtw_session_drop_outbound_head s)) = quiet s"
  using outq.advance_contents [OF session_invD(1) [OF assms]]
  by (simp_all add: rtw_session_drop_outbound_head_def case_prod_beta)

lemma flush_loop_contents:
  assumes "session_inv (tech_session tech)" "quiet (tech_session tech)"
  shows "flush_loop tech ws (e # es) =
    (case queue_contents (s_outbound (tech_session tech)) of
       [] \<Rightarrow> Some ([], tech)
     | m # _ \<Rightarrow> (case env_send ws m e of
          None \<Rightarrow> None
        | Some (rc, out) \<Rightarrow>
            if rc \<noteq> 0 then Some (out, tech\<lparr>tech_ws_ready := False\<rparr>)
            else map_option (\<lambda>(out2, t2). (out @ out2, t2))
                   (flush_loop (tech\<lparr>tech_session := snd (rtw_session_drop_outbound_head (tech_session tech))\<rparr>) ws es)))"
  by (auto simp: peek_contents [OF assms] env_send_def split: list.splits option.splits)

definition frames :: "string list \<Rightarrow> flush_env list \<Rightarrow> bytes" where
  "frames msgs es = concat (map2 (\<lambda>m e. text_frame e m) msgs es)"

lemma flush_loop_sends:
  assumes "session_inv (tech_session tech)" "quiet (tech_session tech)" "tech_ws_ready tech"
    and "queue_contents (s_outbound (tech_session tech)) = msgs"
    and "flush_loop tech ws es = Some (out, t2)"
  shows "\<exists>k tail. k < length es \<and> queue_contents (s_outbound (tech_session t2)) = drop k msgs \<and>
    out = frames (take k msgs) es @ tail \<and>
    (if tech_ws_ready t2 then k = length msgs \<and> tail = []
     else k < length msgs \<and> strict_prefix tail (text_frame (es ! k) (msgs ! k)))"
  using assms
proof (induction es arbitrary: tech msgs out)
  case (Cons e es)
  note step = Cons.prems(5) [unfolded flush_loop_contents [OF Cons.prems(1,2)]]
  show ?case
  proof (cases msgs)
    case Nil
    then show ?thesis using step Cons.prems by (auto simp: frames_def)
  next
    case msgs: (Cons m ms)
    obtain rc o1 where s: "env_send ws m e = Some (rc, o1)"
      using step Cons.prems(4) msgs by (auto split: option.splits)
    show ?thesis
    proof (cases "rc = 0")
      case False
      then have "out = o1" "t2 = tech\<lparr>tech_ws_ready := False\<rparr>" using step s Cons.prems(4) msgs by auto
      then show ?thesis
        using wire.cut [OF s False] Cons.prems(4) msgs
        by (intro exI [of _ 0] exI [of _ out]) (auto simp: frames_def)
    next
      case True
      let ?t = "tech\<lparr>tech_session := snd (rtw_session_drop_outbound_head (tech_session tech))\<rparr>"
      obtain o2 where o2: "flush_loop ?t ws es = Some (o2, t2)" "out = text_frame e m @ o2"
        using step s Cons.prems(4) msgs True wire.sent [of ws m e o1] by (auto split: option.splits)
      have "queue_contents (s_outbound (tech_session ?t)) = ms"
        using drop_contents [OF Cons.prems(1)] Cons.prems(4) msgs by simp
      from Cons.IH [OF _ _ _ this o2(1)] drop_outbound_inv [OF Cons.prems(1)] drop_contents [OF Cons.prems(1)] Cons.prems(2,3)
      obtain k tail where IH: "k < length es" "queue_contents (s_outbound (tech_session t2)) = drop k ms" "o2 = frames (take k ms) es @ tail"
        "if tech_ws_ready t2 then k = length ms \<and> tail = [] else k < length ms \<and> strict_prefix tail (text_frame (es ! k) (ms ! k))"
        by auto
      then show ?thesis
        by (intro exI [of _ "Suc k"] exI [of _ tail]) (auto simp: msgs o2(2) frames_def)
    qed
  qed
qed simp

lemma flush_loop_all:
  assumes "session_inv (tech_session tech)" "quiet (tech_session tech)"
    and "queue_contents (s_outbound (tech_session tech)) = msgs" "length msgs < length es"
    and "\<forall>i < length msgs. good_env ws (msgs ! i) (es ! i)"
  shows "\<exists>s. flush_loop tech ws es = Some (frames msgs es, tech\<lparr>tech_session := s\<rparr>) \<and>
    queue_contents (s_outbound s) = []"
  using assms
proof (induction es arbitrary: tech msgs)
  case (Cons e es)
  note step = flush_loop_contents [OF Cons.prems(1,2), of ws e es]
  show ?case
  proof (cases msgs)
    case Nil
    then show ?thesis using step Cons.prems(3) by (auto simp: frames_def intro!: exI [of _ "tech_session tech"])
  next
    case msgs: (Cons m ms)
    let ?s = "snd (rtw_session_drop_outbound_head (tech_session tech))"
    have "good_env ws m e" using Cons.prems(5) msgs by fastforce
    note sent = wire.live [OF this]
    have "queue_contents (s_outbound ?s) = ms" using drop_contents [OF Cons.prems(1)] Cons.prems(3) msgs by simp
    moreover have "\<forall>i < length ms. good_env ws (ms ! i) (es ! i)"
      using Cons.prems(5) msgs by (metis Suc_less_eq length_Cons nth_Cons_Suc)
    ultimately obtain s where "flush_loop (tech\<lparr>tech_session := ?s\<rparr>) ws es = Some (frames ms es, tech\<lparr>tech_session := s\<rparr>)"
      "queue_contents (s_outbound s) = []"
      using Cons.IH [of "tech\<lparr>tech_session := ?s\<rparr>" ms] drop_outbound_inv [OF Cons.prems(1)]
        drop_contents [OF Cons.prems(1)] Cons.prems(2,4) msgs by auto
    then show ?thesis using step sent Cons.prems(3) msgs by (auto simp: frames_def)
  qed
qed simp

section \<open>The stream identifier of the session\<close>

lemma push_frame_sid [simp]: "s_stream_sid (snd (push_frame s pcm ok)) = s_stream_sid s"
  by (simp add: push_frame_def Let_def case_prod_beta)

lemma push_loop_sid [simp]: "s_stream_sid (snd (push_loop s pcm i mem)) = s_stream_sid s"
proof (induction s pcm i mem rule: push_loop.induct)
  case (1 s pcm i mem)
  obtain rc s1 where f: "push_frame s pcm (mem i) = (rc, s1)" by fastforce
  then have "s_stream_sid s1 = s_stream_sid s" using push_frame_sid [of s pcm "mem i"] by simp
  then show ?case using 1 f by (subst push_loop.simps) simp
qed

lemma ack_mark_sid [simp]: "s_stream_sid (snd (ack_mark s n ok)) = s_stream_sid s"
  by (simp add: ack_mark_def)

lemma ack_until_error_sid [simp]: "s_stream_sid (snd (ack_until_error s ns i mem)) = s_stream_sid s"
proof (induction s ns i mem rule: ack_until_error.induct)
  case (2 s n ns i mem)
  obtain rc s1 where f: "ack_mark s n (mem i) = (rc, s1)" by fastforce
  then have "s_stream_sid s1 = s_stream_sid s" using ack_mark_sid [of s n "mem i"] by simp
  then show ?case using 2 f by simp
qed simp

lemma ack_all_sid [simp]: "s_stream_sid (ack_all s ns i mem) = s_stream_sid s"
  by (induction s ns i mem rule: ack_all.induct) simp_all

lemma session_op_sid [simp]:
  "s_stream_sid (rtw_session_harvest_marks s mem) = s_stream_sid s"
  "s_stream_sid (snd (rtw_session_drop_outbound_head s)) = s_stream_sid s"
  "s_stream_sid (snd (rtw_session_push_pcm16 s pcm mem2)) = s_stream_sid s"
  "s_stream_sid (snd (rtw_session_read_playout s n)) = s_stream_sid s"
  "s_stream_sid (rtw_session_note_write_after_clear s k now) = s_stream_sid s"
  "s_stream_sid (snd (rtw_session_rehandshake s mem)) = s_stream_sid s"
  by (simp_all add: rtw_session_harvest_marks_def rtw_session_drop_outbound_head_def rtw_session_push_pcm16_def
      rtw_session_read_playout_def rtw_session_note_write_after_clear_def record_clear_latency_def
      rtw_session_rehandshake_def send_handshake_def case_prod_beta)

lemma handle_peer_json_sid:
  assumes "rtw_session_handle_peer_json s json mok now mem = Ret (rc, s')"
  shows "s_stream_sid s' = s_stream_sid s"
proof -
  have "s_stream_sid (snd (on_media s d)) = s_stream_sid s" "s_stream_sid (snd (on_mark s n)) = s_stream_sid s"
    "s_stream_sid (snd (on_clear s now mem)) = s_stream_sid s" for d n
    by (simp_all add: on_media_def on_mark_def on_clear_def case_prod_beta)
  then show ?thesis using assms
    by (auto simp: rtw_session_handle_peer_json_def exec_bind_def
        split: if_splits c_exec.splits option.splits rtw_event_type_t.splits) (metis snd_conv)+
qed

lemma handle_peer_json_total:
  assumes "length json \<le> 65535" shows "\<exists>rc s'. rtw_session_handle_peer_json s json mok now mem = Ret (rc, s')"
proof -
  have "rtw_parse_inbound json payload_cap \<noteq> UB"
    by (rule parse_inbound_safe) (use assms in \<open>simp add: payload_cap_def\<close>)
  then obtain parsed where "rtw_parse_inbound json payload_cap = Ret parsed"
    by (cases "rtw_parse_inbound json payload_cap") auto
  then show ?thesis
    by (auto simp: rtw_session_handle_peer_json_def on_clear_def split: option.splits rtw_event_type_t.splits)
qed

section \<open>Invariant\<close>

definition bridge_inv :: "rtw_tech_t \<Rightarrow> bool" where
  "bridge_inv tech \<longleftrightarrow> session_inv (tech_session tech) \<and> length (tech_pcm_hold tech) < 160 \<and>
     s_stream_sid (tech_session tech) = tech_stream_sid tech \<and>
     length (tech_stream_sid tech) = 34 \<and> list_all isalnum (tech_stream_sid tech) \<and> \<not> tech_cleanup_started tech"

lemma bridge_invD:
  assumes "bridge_inv tech"
  shows "session_inv (tech_session tech)" "length (tech_pcm_hold tech) < 160"
    "s_stream_sid (tech_session tech) = tech_stream_sid tech"
    "length (tech_stream_sid tech) = 34" "list_all isalnum (tech_stream_sid tech)" "\<not> tech_cleanup_started tech"
  using assms by (simp_all add: bridge_inv_def)

lemma bridge_inv_session [intro]:
  assumes "bridge_inv tech" "session_inv s" "s_stream_sid s = s_stream_sid (tech_session tech)"
  shows "bridge_inv (tech\<lparr>tech_session := s\<rparr>)"
  using assms by (simp add: bridge_inv_def)

lemma bridge_inv_fields [simp]:
  "bridge_inv (tech\<lparr>tech_ws_ready := b\<rparr>) = bridge_inv tech"
  "bridge_inv (tech\<lparr>tech_ws := w\<rparr>) = bridge_inv tech"
  "bridge_inv (tech\<lparr>tech_reconnect_attempts := n\<rparr>) = bridge_inv tech"
  "bridge_inv (tech\<lparr>tech_reconnect_ok := c\<rparr>) = bridge_inv tech"
  "bridge_inv (tech\<lparr>tech_audio_paused := b\<rparr>) = bridge_inv tech"
  "bridge_inv (tech\<lparr>tech_worker_started := b\<rparr>) = bridge_inv tech"
  "bridge_inv (tech\<lparr>tech_close_requested := b\<rparr>) = bridge_inv tech"
  by (simp_all add: bridge_inv_def)

lemma flush_loop_inv:
  "bridge_inv tech \<Longrightarrow> flush_loop tech ws es = Some (out, t2) \<Longrightarrow> bridge_inv t2"
proof (induction es arbitrary: tech out)
  case (Cons e es)
  note inv = bridge_invD(1) [OF Cons.prems(1)]
  let ?t = "tech\<lparr>tech_session := rtw_session_harvest_marks (tech_session tech) (f_mem e)\<rparr>"
  have t: "bridge_inv ?t" using Cons.prems(1) harvest_inv [OF inv] by auto
  have "bridge_inv (?t\<lparr>tech_session := snd (rtw_session_drop_outbound_head (tech_session ?t))\<rparr>)"
    using bridge_inv_session [OF t drop_outbound_inv [OF bridge_invD(1) [OF t]]] by simp
  then show ?case
    using Cons.prems(2) Cons.IH t
    by (auto simp: rtw_session_peek_outbound_def Let_def split: option.splits if_splits)
qed simp

lemma flush_loop_session_inv:
  "session_inv (tech_session tech) \<Longrightarrow> flush_loop tech ws es = Some (out, t2) \<Longrightarrow> session_inv (tech_session t2)"
proof (induction es arbitrary: tech out)
  case (Cons e es)
  note inv = harvest_inv [OF Cons.prems(1), of "f_mem e"]
  then show ?case
    using Cons.prems(2) Cons.IH [of "tech\<lparr>tech_session := snd (rtw_session_drop_outbound_head (rtw_session_harvest_marks (tech_session tech) (f_mem e)))\<rparr>"]
      drop_outbound_inv [OF inv]
    by (auto simp: rtw_session_peek_outbound_def Let_def split: option.splits if_splits)
qed simp

lemma flush_outbound_inv:
  assumes "bridge_inv tech" "flush_outbound tech es = Some (out, t2)" shows "bridge_inv t2"
  using assms flush_loop_inv by (auto simp: flush_outbound_def split: option.splits if_splits)

lemma run_bind_simps [simp]:
  "run_bind UB f = UB"
  "run_bind (Ret None) f = Ret None"
  "run_bind (Ret (Some x)) f = f x"
  by (simp_all add: run_bind_def)

text \<open>A bridge action is safe: no undefined behaviour, and the bridge it leaves is well formed.\<close>

definition run_safe :: "('a \<Rightarrow> bool) \<Rightarrow> 'a run \<Rightarrow> bool" where
  "run_safe P m \<longleftrightarrow> (\<exists>r. m = Ret r \<and> (\<forall>x. r = Some x \<longrightarrow> P x))"

lemma run_safe_Ret [intro!]: "(\<And>x. r = Some x \<Longrightarrow> P x) \<Longrightarrow> run_safe P (Ret r)"
  by (auto simp: run_safe_def)

lemma run_safe_bind [intro?]:
  assumes "run_safe P m" "\<And>x. P x \<Longrightarrow> run_safe Q (f x)" shows "run_safe Q (run_bind m f)"
  using assms by (auto simp: run_safe_def run_bind_def split: option.splits)

lemma run_safe_mono: "run_safe P m \<Longrightarrow> (\<And>x. P x \<Longrightarrow> Q x) \<Longrightarrow> run_safe Q m"
  by (auto simp: run_safe_def)

lemma run_safe_not_UB: "run_safe P m \<Longrightarrow> m \<noteq> UB"
  by (auto simp: run_safe_def)

lemma peer_json_safe:
  assumes "bridge_inv tech" "length json \<le> 65535"
  shows "run_safe (\<lambda>(out, t). bridge_inv t) (peer_json tech json e)"
proof -
  obtain rc s where s: "rtw_session_handle_peer_json (tech_session tech) json (x_malloc e) (x_now e) (x_mem e) = Ret (rc, s)"
    using handle_peer_json_total [OF assms(2)] by blast
  have "bridge_inv (tech\<lparr>tech_session := s\<rparr>)"
    using assms(1) handle_peer_json_inv [OF bridge_invD(1) [OF assms(1)] s] handle_peer_json_sid [OF s] by auto
  then show ?thesis using flush_outbound_inv by (auto simp: peer_json_def s)
qed

lemma on_ws_text_safe:
  assumes "bridge_inv tech" "length txt \<le> 65535"
  shows "run_safe (\<lambda>(out, t). bridge_inv t) (on_ws_text tech txt e)"
proof -
  have "length (c_str txt) \<le> 65535" using assms(2) length_takeWhile_le le_trans unfolding c_str_def by blast
  then show ?thesis using assms peer_json_safe by (auto simp: on_ws_text_def)
qed

lemma dispatch_safe:
  assumes "bridge_inv tech" "\<And>t. On_Text t \<in> set evs \<Longrightarrow> length t \<le> 65535"
  shows "run_safe (\<lambda>(out, t). bridge_inv t) (dispatch tech evs e i)"
  using assms
proof (induction tech evs e i rule: dispatch.induct)
  case (3 tech t evs e i)
  show ?case
    unfolding dispatch.simps
    by (rule run_safe_bind [OF on_ws_text_safe [OF "3.prems"(1)]])
      (use 3 in \<open>auto intro!: run_safe_bind\<close>)
qed (auto simp: on_ws_close_def)

lemma try_reconnect_inv:
  assumes "bridge_inv tech" "try_reconnect tech e = Some (rc, out, tr, t2)" shows "bridge_inv t2"
proof -
  have s: "bridge_inv (tech\<lparr>tech_reconnect_attempts := n, tech_ws := w, tech_ws_ready := b,
      tech_session := snd (rtw_session_rehandshake (tech_session tech) mem)\<rparr>)" for n w b mem
    using bridge_inv_session [OF _ rehandshake_inv [OF bridge_invD(1) [OF assms(1)]], of "tech\<lparr>tech_reconnect_attempts := n, tech_ws := w, tech_ws_ready := b\<rparr>"]
      assms(1) by simp
  show ?thesis
    using assms flush_outbound_inv [OF s]
    by (auto simp: try_reconnect_def Let_def split: if_splits option.splits prod.splits)
qed

lemma poll_text_bound:
  assumes "rtw_ws_poll c pr rok mem = (rc, evs, c')" "On_Text t \<in> set evs" shows "length t \<le> 65535"
  using assms process_text_bound
  by (fastforce simp: rtw_ws_poll_def process_frames_def split: if_splits poll_result.splits prod.splits)

lemma worker_turn_safe:
  assumes "bridge_inv tech" shows "run_safe (\<lambda>(more, out, tr, t). bridge_inv t) (ws_worker_turn tech e)"
proof -
  have rec: "run_safe (\<lambda>(more, out, tr, t). bridge_inv t) (worker_reconnect t e')" if "bridge_inv t" for t e'
    using that try_reconnect_inv by (auto simp: worker_reconnect_def)
  have fl: "run_safe (\<lambda>(more, out, tr, t). bridge_inv t) (worker_flush t e)" if "bridge_inv t" for t
    using that flush_outbound_inv by (auto simp: worker_flush_def)
  show ?thesis
  proof (cases "tech_ws tech")
    case None
    then show ?thesis using assms fl by (auto simp: ws_worker_turn_def)
  next
    case (Some ws)
    obtain rc evs ws1 where p: "rtw_ws_poll ws (w_poll e) (w_realloc e) (w_text_mem e) = (rc, evs, ws1)"
      by (cases "rtw_ws_poll ws (w_poll e) (w_realloc e) (w_text_mem e)")
    have d: "run_safe (\<lambda>(out, t). bridge_inv t) (dispatch (tech\<lparr>tech_ws := Some ws1\<rparr>) evs (w_texts e) 0)"
      by (rule dispatch_safe) (use assms poll_text_bound [OF p] in auto)
    have "run_safe (\<lambda>(more, out, tr, t). bridge_inv t)
        (run_bind (if rc < 0 then worker_reconnect (t1\<lparr>tech_ws_ready := False\<rparr>) (w_reconnect e) else worker_flush t1 e)
          (\<lambda>(more, out2, tr, t2). Ret (Some (more, out1 @ out2, tr, t2))))" if "bridge_inv t1" for t1 out1
      by (rule run_safe_bind [where P = "\<lambda>(more, out, tr, t). bridge_inv t"]) (use that rec fl in auto)
    then show ?thesis using assms rec
      by (auto simp: ws_worker_turn_def Some p intro!: run_safe_bind [OF d])
  qed
qed

section \<open>Call audio\<close>

text \<open>
  What the samples of a frame become on the wire: the left channel of stereo audio, and at 16 kHz
  the means of successive pairs.
\<close>

fun left_channel :: "int16 list \<Rightarrow> int16 list" where
  "left_channel (a # _ # pcm) = a # left_channel pcm"
| "left_channel pcm = []"

fun halve_rate :: "int16 list \<Rightarrow> int16 list" where
  "halve_rate (a # b # pcm) = avg_s16 a b # halve_rate pcm"
| "halve_rate pcm = pcm"

definition wire_samples :: "rtw_tech_t \<Rightarrow> int16 list \<Rightarrow> int16 list" where
  "wire_samples tech pcm =
     (if tech_sampling tech = 16000 then halve_rate else id) ((if tech_channels tech \<ge> 2 then left_channel else id) pcm)"

fun feed :: "int16 list \<Rightarrow> (nat \<Rightarrow> alloc) \<Rightarrow> nat \<Rightarrow> rtw_session_t \<times> int16 list \<Rightarrow> rtw_session_t \<times> int16 list" where
  "feed [] mem i st = st"
| "feed (x # xs) mem i st = feed xs mem (Suc i) (hold_sample x (mem i) st)"

lemma read_mono_feed: "read_mono wide pcm mem i st = feed ((if wide then halve_rate else id) pcm) mem i st"
  by (induction wide pcm mem i st rule: read_mono.induct) auto

lemma read_stereo_feed: "read_stereo wide pcm mem i st = feed ((if wide then halve_rate else id) (left_channel pcm)) mem i st"
  by (induction wide pcm mem i st rule: read_stereo.induct) auto

lemma on_read_feed:
  assumes "\<not> stopping tech" "\<not> tech_audio_paused tech"
  shows "rtw_bridge_on_read_pcm16 tech pcm True mem =
    (case feed (wire_samples tech pcm) mem 0 (tech_session tech, tech_pcm_hold tech) of
       (s, hold) \<Rightarrow> tech\<lparr>tech_session := s, tech_pcm_hold := hold\<rparr>)"
  using assms by (simp add: rtw_bridge_on_read_pcm16_def wire_samples_def read_mono_feed read_stereo_feed Let_def)

lemma hold_sample_inv:
  assumes "session_inv s" "length hold < 160" "hold_sample x mem (s, hold) = (s', hold')"
  shows "session_inv s' \<and> length hold' < 160 \<and> s_stream_sid s' = s_stream_sid s"
  using assms push_pcm16_inv [OF assms(1), of _ mem] session_op_sid(3) [of s _ mem]
  by (auto simp: hold_sample_def Let_def split: if_splits)

lemma feed_inv:
  assumes "session_inv s" "length hold < 160" "feed xs mem i (s, hold) = (s', hold')"
  shows "session_inv s' \<and> length hold' < 160 \<and> s_stream_sid s' = s_stream_sid s"
  using assms
proof (induction xs arbitrary: i s hold)
  case (Cons x xs)
  obtain s1 hold1 where "hold_sample x (mem i) (s, hold) = (s1, hold1)" by fastforce
  with Cons hold_sample_inv [OF Cons.prems(1,2) this] show ?case by fastforce
qed simp

lemma on_read_inv:
  assumes "bridge_inv tech" shows "bridge_inv (rtw_bridge_on_read_pcm16 tech pcm lock mem)"
proof (cases "stopping tech \<or> tech_audio_paused tech \<or> \<not> lock")
  case False
  obtain s hold where f: "feed (wire_samples tech pcm) mem 0 (tech_session tech, tech_pcm_hold tech) = (s, hold)"
    by fastforce
  from feed_inv [OF bridge_invD(1,2) [OF assms] f] assms f on_read_feed [of tech pcm mem] False show ?thesis
    by (auto simp: bridge_inv_def)
qed (use assms in \<open>auto simp: rtw_bridge_on_read_pcm16_def\<close>)

text \<open>With memory available, feeding samples one by one packs the same frames as one block.\<close>

abbreviation ample :: "nat \<Rightarrow> alloc" where
  "ample \<equiv> (\<lambda>_. all_ok)"

lemma push_loop_index: "push_loop s pcm i all_ok = push_loop s pcm j all_ok"
proof (induction s pcm i "all_ok" arbitrary: j rule: push_loop.induct)
  case (1 s pcm i)
  obtain rc s1 where f: "push_frame s pcm (True, True) = (rc, s1)" by fastforce
  then show ?case
    using 1 [of rc s1 "Suc j"] push_loop.simps [of s pcm i all_ok] push_loop.simps [of s pcm j all_ok] by simp
qed

lemma push_frame_paused [simp]: "s_paused (snd (push_frame s pcm ok)) = s_paused s"
  by (simp add: push_frame_def enqueue_json_def Let_def case_prod_beta split: option.splits)

lemma feed_push_loop:
  assumes "session_inv s" "s_state s = RTW_STATE_RUNNING" "\<not> s_paused s" "length hold < 160"
  shows "feed xs ample i (s, hold) =
    (snd (push_loop s (hold @ xs) 0 all_ok), drop (160 * (length (hold @ xs) div 160)) (hold @ xs))"
  using assms
proof (induction xs arbitrary: s hold i)
  case Nil
  then show ?case by (subst push_loop.simps) (simp add: RTW_FRAME_MULAW_BYTES_def)
next
  case (Cons x xs)
  show ?case
  proof (cases "length (hold @ [x]) < 160")
    case True
    then have "hold_sample x all_ok (s, hold) = (s, hold @ [x])" by (simp add: hold_sample_def)
    then show ?thesis using Cons.IH [OF Cons.prems(1-3) True, of "Suc i"] by simp
  next
    case False
    then have l: "length (hold @ [x]) = 160" using Cons.prems(4) by simp
    let ?s = "snd (push_frame s (hold @ [x]) (True, True))"
    have ok: "fst (push_frame s (hold @ y) (True, True)) = 0" if "160 \<le> length (hold @ y)" for y
      using push_frame_ok [OF Cons.prems(1), of "hold @ y"] that by (simp add: RTW_FRAME_MULAW_BYTES_def)
    have one: "snd (push_loop s (hold @ [x]) 0 all_ok) = ?s"
      using l ok [of "[x]"]
      by (subst push_loop.simps, subst push_loop.simps) (simp add: RTW_FRAME_MULAW_BYTES_def case_prod_beta)
    have same: "push_frame s (hold @ x # xs) (True, True) = push_frame s (hold @ [x]) (True, True)"
      using l by (simp add: push_frame_def RTW_FRAME_MULAW_BYTES_def)
    have more: "snd (push_loop s (hold @ x # xs) 0 all_ok) = snd (push_loop ?s xs 0 all_ok)"
      using l ok [of "x # xs"] same push_loop_index [of ?s xs 1 0]
      by (subst push_loop.simps) (simp add: RTW_FRAME_MULAW_BYTES_def case_prod_beta)
    have h: "hold_sample x all_ok (s, hold) = (?s, [])"
      using l one Cons.prems(2,3) by (simp add: hold_sample_def rtw_session_push_pcm16_def)
    have len: "length (hold @ x # xs) = 160 + length xs" using l by simp
    have d: "drop (160 * (length (hold @ x # xs) div 160)) (hold @ x # xs) = drop (160 * (length xs div 160)) xs"
    proof -
      have "drop (160 + k) (hold @ x # xs) = drop k xs" for k
        using l drop_append [of "160 + k" "hold @ [x]" xs] by simp
      then show ?thesis unfolding len by simp
    qed
    have "feed xs ample (Suc i) (?s, []) = (snd (push_loop ?s xs 0 all_ok), drop (160 * (length xs div 160)) xs)"
      using Cons.IH [of ?s "[]" "Suc i"] push_frame_inv [OF Cons.prems(1), of "hold @ [x]" "(True, True)"] Cons.prems(2,3)
      by simp
    then show ?thesis using h more d by simp
  qed
qed

lemma feed_append: "feed (xs @ ys) ample i st = feed ys ample j (feed xs ample i st)"
proof -
  have "feed zs ample i st = feed zs ample j st" for zs i j st by (induction zs arbitrary: i j st) auto
  then show ?thesis by (induction xs arbitrary: i st) auto
qed

lemma halve_rate_append: "even (length xs) \<Longrightarrow> halve_rate (xs @ ys) = halve_rate xs @ halve_rate ys"
  by (induction xs rule: halve_rate.induct) auto

lemma left_channel_append: "even (length xs) \<Longrightarrow> left_channel (xs @ ys) = left_channel xs @ left_channel ys"
  by (induction xs rule: left_channel.induct) auto

lemma length_left_channel [simp]: "length (left_channel xs) = length xs div 2"
  by (induction xs rule: left_channel.induct) auto

text \<open>A block that ends with a whole sample of the wire rate.\<close>

definition aligned :: "rtw_tech_t \<Rightarrow> int16 list \<Rightarrow> bool" where
  "aligned tech pcm \<longleftrightarrow>
     length pcm mod ((if tech_channels tech \<ge> 2 then 2 else 1) * (if tech_sampling tech = 16000 then 2 else 1)) = 0"

lemma wire_samples_append:
  assumes "aligned tech a" shows "wire_samples tech (a @ b) = wire_samples tech a @ wire_samples tech b"
proof -
  have "even n \<and> even (n div 2)" if "n mod 4 = 0" for n :: nat using that by presburger
  then show ?thesis
    using assms halve_rate_append [of a b] left_channel_append [of a b] halve_rate_append [of "left_channel a" "left_channel b"]
    by (auto simp: wire_samples_def aligned_def even_iff_mod_2_eq_zero split: if_splits)
qed

section \<open>Agent audio\<close>

lemma take_playout_audio:
  assumes "session_inv s" "take_playout s want now = (mulaw, s1)"
  shows "mulaw = take want (playout_audio (s_playout s))"
    "playout_audio (s_playout s1) = drop want (playout_audio (s_playout s))"
    "session_inv s1" "s_stream_sid s1 = s_stream_sid s"
proof -
  note p = playout_read [OF session_invD(2) [OF assms(1)], of want]
  have n: "s_playout (rtw_session_note_write_after_clear s k now) = s_playout s" for s k
    by (simp add: rtw_session_note_write_after_clear_def record_clear_latency_def)
  have "playout_audio (snd (rtw_playout_read (s_playout s) want)) = drop want (playout_audio (s_playout s))"
    using arg_cong [OF p(3), of audio_of] by (simp add: audio_of_skip_audio)
  then show "mulaw = take want (playout_audio (s_playout s))" "playout_audio (s_playout s1) = drop want (playout_audio (s_playout s))"
    using assms(2) p(1) n by (auto simp: take_playout_def rtw_session_read_playout_def case_prod_beta)
  have "session_inv (snd (rtw_session_read_playout s want))" by (intro inv_intros assms(1))
  then show "session_inv s1" "s_stream_sid s1 = s_stream_sid s"
    using assms(2) note_write_inv by (auto simp: take_playout_def case_prod_beta)
qed

lemma clamp_s16_saturates: "sint (clamp_s16 v) = max (- 32768) (min 32767 v)"
  by (simp add: clamp_s16_def sint_sbintrunc' signed_take_bit_int_eq_self)

lemma on_write_inv: "bridge_inv tech \<Longrightarrow> bridge_inv (snd (rtw_bridge_on_write_pcm16 tech n lock now))"
  using take_playout_audio(3,4) [OF bridge_invD(1)]
  by (auto simp: rtw_bridge_on_write_pcm16_def split: prod.splits)

lemma apply_write_inv: "bridge_inv tech \<Longrightarrow> bridge_inv (snd (snd (rtw_bridge_apply_write_frame tech pcm lock now)))"
  using take_playout_audio(3,4) [OF bridge_invD(1)]
  by (auto simp: rtw_bridge_apply_write_frame_def Let_def split: prod.splits rtw_inject_mode_t.splits)

section \<open>Identifiers and commands\<close>

lemma hex_loop_eq: "hex_loop uuid n = take n (map ascii_lower (filter isxdigit uuid) @ replicate n (CHR ''0''))"
  by (induction uuid n rule: hex_loop.induct) (auto simp: take_Cons' replicate_append_same [symmetric])

lemma of_char_lower: "(of_char (ascii_lower c) :: nat) =
    (if 65 \<le> (of_char c :: nat) \<and> (of_char c :: nat) \<le> 90 then of_char c + 32 else of_char c)"
  by (simp add: ascii_lower_def)

lemma isxdigit_lower: "isxdigit c \<Longrightarrow> isalnum (ascii_lower c)"
  by (auto simp: isxdigit_def hex_digit_def Let_def isalnum_def is_digit_def of_char_lower split: if_splits)

lemma plain_isalnum: "isalnum c \<Longrightarrow> plain_char c"
  by (auto simp: isalnum_def plain_char_def is_digit_def of_char_lower split: if_splits)

lemma plain_mark_name: "mark_name_char c \<Longrightarrow> plain_char c"
  by (auto simp: mark_name_char_def plain_isalnum) (simp_all add: plain_char_def)

lemma make_stream_sid_eq:
  "make_stream_sid 64 uuid = ''MZ'' @ take 32 (map ascii_lower (filter isxdigit uuid) @ replicate 32 (CHR ''0''))"
  by (simp add: make_stream_sid_def hex_compact_def hex_loop_eq snprintf_s_def)

lemma make_stream_sid_ok:
  "length (make_stream_sid 64 uuid) = 34" "list_all isalnum (make_stream_sid 64 uuid)"
proof -
  show "length (make_stream_sid 64 uuid) = 34" by (simp add: make_stream_sid_eq)
  have "isalnum (CHR ''0'')" "isalnum (CHR ''M'')" "isalnum (CHR ''Z'')"
    by (simp_all add: isalnum_def is_digit_def of_char_lower)
  then show "list_all isalnum (make_stream_sid 64 uuid)"
    using isxdigit_lower by (auto simp: make_stream_sid_eq list_all_iff dest!: in_set_takeD)
qed

lemma print_plain: "list_all plain_char s \<Longrightarrow> print_string_ptr s = QUOTE # s @ [QUOTE]"
  by (induction s) (simp_all add: print_string_ptr_def escape_char_def)

lemma plain_no_nul: "list_all plain_char s \<Longrightarrow> NUL \<notin> set s"
  using plain_char_not_nul by (auto simp: list_all_iff)

lemma sid_plain: "list_all isalnum s \<Longrightarrow> list_all plain_char s"
  by (auto simp: list_all_iff plain_isalnum)

lemma command_names: "list_all plain_char ''event''" "list_all plain_char ''clear''" "list_all plain_char ''mark''"
  "list_all plain_char ''streamSid''" "list_all plain_char ''name''"
  by (simp_all add: plain_char_def)

lemma clear_command_parse:
  assumes "list_all isalnum sid" "length sid = 34"
  shows "rtw_parse_inbound (clear_command sid) cap =
    Ret (Some (zero_event\<lparr>ev_type := RTW_EVT_CLEAR, ev_stream_sid := sid\<rparr>))"
proof -
  let ?v = "J_Object [(''event'', J_String ''clear''), (''streamSid'', J_String sid)]"
  note p = sid_plain [OF assms(1)]
  have "cJSON_PrintUnformatted ?v = Some (clear_command sid)"
    using assms(2) p command_names
    by (simp add: cJSON_PrintUnformatted_def print_plain clear_command_def snprintf_s_fits)
  then have "cJSON_Parse (clear_command sid) = Some ?v"
    using plain_no_nul [OF p] by (intro print_parse) simp_all
  then show ?thesis
    using assms(2) by (simp add: rtw_parse_inbound_def json_get parse_header_def map_event_def copy_str_def snprintf_s_fits
        zero_event_def RTW_SID_MAX_def)
qed

lemma mark_command_parse:
  assumes "list_all isalnum sid" "length sid = 34" "valid_mark_name name"
  shows "rtw_parse_inbound (mark_command sid name) cap =
    Ret (Some (zero_event\<lparr>ev_type := RTW_EVT_MARK, ev_stream_sid := sid, ev_mark_name := name\<rparr>))"
proof -
  let ?v = "J_Object [(''event'', J_String ''mark''), (''streamSid'', J_String sid),
    (''mark'', J_Object [(''name'', J_String name)])]"
  note p = sid_plain [OF assms(1)]
  have n: "list_all plain_char name" "length name < 128"
    using assms(3) plain_mark_name by (auto simp: valid_mark_name_def list_all_iff RTW_MARK_NAME_LEN_def)
  have "cJSON_PrintUnformatted ?v = Some (mark_command sid name)"
    using assms(2) p n command_names
    by (simp add: cJSON_PrintUnformatted_def print_plain mark_command_def snprintf_s_fits)
  then have "cJSON_Parse (mark_command sid name) = Some ?v"
    using plain_no_nul [OF p] plain_no_nul [OF n(1)] by (intro print_parse) simp_all
  then show ?thesis
    using assms(2) n(2) by (simp add: rtw_parse_inbound_def json_get parse_header_def map_event_def copy_str_def snprintf_s_fits
        zero_event_def RTW_SID_MAX_def RTW_MARK_NAME_MAX_def)
qed

lemma command_lengths:
  "length (clear_command sid) \<le> 65535" "length (mark_command sid name) \<le> 65535"
  by (simp_all add: clear_command_def mark_command_def snprintf_s_def)

text \<open>A flush changes the playout stream at most by removing the marks that are due.\<close>

lemma flush_loop_playout:
  "session_inv (tech_session tech) \<Longrightarrow> quiet (tech_session tech) \<Longrightarrow> flush_loop tech ws es = Some (out, t2) \<Longrightarrow>
   s_playout (tech_session t2) = s_playout (tech_session tech)"
proof (induction es arbitrary: tech out)
  case (Cons e es)
  have d: "s_playout (snd (rtw_session_drop_outbound_head s)) = s_playout s" for s
    by (simp add: rtw_session_drop_outbound_head_def case_prod_beta)
  show ?case
    using Cons.prems(3) Cons.IH [of "tech\<lparr>tech_session := snd (rtw_session_drop_outbound_head (tech_session tech))\<rparr>"]
      drop_outbound_inv [OF Cons.prems(1)] drop_contents(2) [OF Cons.prems(1)] Cons.prems(2) d
    unfolding flush_loop_contents [OF Cons.prems(1,2)]
    by (auto split: list.splits option.splits if_splits)
qed simp

lemma flush_stream:
  assumes "session_inv (tech_session tech)" "flush_outbound tech es = Some (out, t2)"
  shows "playout_stream (s_playout (tech_session t2)) \<in>
    {playout_stream (s_playout (tech_session tech)), after_marks (playout_stream (s_playout (tech_session tech)))}"
proof (cases "\<exists>ws. tech_ws tech = Some ws \<and> tech_ws_ready tech")
  case True
  then obtain ws e es' where es: "flush_loop tech ws (e # es') = Some (out, t2)"
    using assms(2) by (cases es) (auto simp: flush_outbound_def)
  let ?s = "rtw_session_harvest_marks (tech_session tech) (f_mem e)"
  have "s_playout (tech_session t2) = s_playout ?s"
    using flush_loop_playout [of "tech\<lparr>tech_session := ?s\<rparr>"] es flush_loop_harvest [OF assms(1), of ws e es']
      harvest_inv [OF assms(1)] quiet_harvest [OF assms(1)] by (simp del: flush_loop.simps)
  also have "playout_stream (s_playout ?s) = after_marks (playout_stream (s_playout (tech_session tech)))"
    using playout_pop(3) [OF session_invD(2) [OF assms(1)], of 8]
    by (simp add: rtw_session_harvest_marks_def case_prod_beta)
  finally show ?thesis by simp
qed (use assms in \<open>auto simp: flush_outbound_def split: option.splits\<close>)

lemma after_marks_last:
  "audio_of ts \<noteq> [] \<Longrightarrow> after_marks (ts @ [Mark n]) = after_marks ts @ [Mark n]"
  by (induction ts rule: after_marks.induct) auto

lemma peer_json_cases:
  assumes "peer_json tech json e = Ret (Some (out, t2))"
    and "rtw_session_handle_peer_json (tech_session tech) json (x_malloc e) (x_now e) (x_mem e) = Ret (rc, s1)"
  shows "flush_outbound (tech\<lparr>tech_session := s1\<rparr>) (x_flush e) = Some (out, t2)"
  using assms by (simp add: peer_json_def)

section \<open>Waiting and reconnecting\<close>

lemma sleep_loop_done:
  assumes "\<forall>j \<ge> i. \<not> stop j \<and> enabled j" shows "sleep_loop stop enabled i n = (0, n)"
  using assms
  by (induction stop enabled i n rule: sleep_loop.induct) (subst sleep_loop.simps, auto simp: Let_def)

lemma sleep_loop_stopped:
  assumes "\<forall>j < k. \<not> stop (i + j) \<and> enabled (i + j)" "stop (i + k) \<or> \<not> enabled (i + k)" "50 * k < n"
  shows "sleep_loop stop enabled i n = (- 1, 50 * k)"
  using assms
proof (induction k arbitrary: i n)
  case 0
  then show ?case by (subst sleep_loop.simps) (auto simp: Let_def)
next
  case (Suc k)
  have "sleep_loop stop enabled (Suc i) (n - 50) = (- 1, 50 * k)"
    by (rule Suc.IH) (use Suc.prems in \<open>auto\<close>)
  moreover have "\<not> stop i" "enabled i" using Suc.prems(1) by force+
  ultimately show ?case using Suc.prems(3) by (subst sleep_loop.simps) (simp add: Let_def)
qed

lemma backoff_ms_values: "1 \<le> a \<Longrightarrow> 200 \<le> backoff_ms a \<and> backoff_ms a \<le> 3000"
proof -
  assume a: "1 \<le> a"
  then consider "a = 1" | "a = 2" | "a = 3" | "a = 4" | "a \<ge> 5" by linarith
  then show ?thesis by cases (auto simp: backoff_ms_def Let_def)
qed

section \<open>Metadata\<close>

lemma remove_first_filter:
  assumes "\<And>i j. i < length xs \<Longrightarrow> j < length xs \<Longrightarrow> P (xs ! i) \<Longrightarrow> P (xs ! j) \<Longrightarrow> i = j"
  shows "remove_first P xs = filter (\<lambda>x. \<not> P x) xs"
  using assms
proof (induction xs)
  case (Cons x xs)
  show ?case
  proof (cases "P x")
    case True
    have "\<not> P y" if y: "y \<in> set xs" for y
    proof
      assume "P y"
      obtain j where "j < length xs" "xs ! j = y" using y by (metis in_set_conv_nth)
      then show False using Cons.prems [of 0 "Suc j"] True \<open>P y\<close> by simp
    qed
    then show ?thesis using True by simp
  next
    case False
    have "remove_first P xs = filter (\<lambda>x. \<not> P x) xs"
      by (rule Cons.IH) (use Cons.prems [of "Suc _" "Suc _"] in auto)
    then show ?thesis using False by simp
  qed
qed simp

lemma delete_member:
  assumes "distinct (map (\<lambda>(k, _). map ascii_lower k) ms)" "(name, v) \<in> set ms"
  shows "cJSON_DeleteItemFromObject (J_Object ms) name = J_Object (filter (\<lambda>(k, _). k \<noteq> name) ms)"
proof -
  have eq: "i = j" if "i < length ms" "j < length ms" "map ascii_lower (fst (ms ! i)) = map ascii_lower (fst (ms ! j))" for i j
    using that assms(1) by (auto simp: distinct_conv_nth case_prod_beta)
  have "k = name" if k: "(k, w) \<in> set ms" "map ascii_lower name = map ascii_lower k" for k w
  proof -
    obtain i j where "i < length ms" "ms ! i = (k, w)" "j < length ms" "ms ! j = (name, v)"
      using k(1) assms(2) by (metis in_set_conv_nth)
    then show ?thesis using eq [of i j] k(2) by simp
  qed
  then have "filter (\<lambda>x. \<not> (case x of (k, _) \<Rightarrow> case_insensitive_eq name k)) ms = filter (\<lambda>(k, _). k \<noteq> name) ms"
    by (intro filter_cong) (auto simp: case_insensitive_eq_def)
  moreover have "remove_first (\<lambda>(k, _). case_insensitive_eq name k) ms =
      filter (\<lambda>x. \<not> (case x of (k, _) \<Rightarrow> case_insensitive_eq name k)) ms"
    by (rule remove_first_filter) (auto simp: case_insensitive_eq_def case_prod_beta intro: eq)
  ultimately show ?thesis by (simp add: cJSON_DeleteItemFromObject_def)
qed

section \<open>Steps\<close>

text \<open>
  What the threads of a bridge do between start and stop, in any order: turns of the worker, frames of
  the two media directions, commands, and another thread asking for the end.
\<close>

inductive bridge_step :: "rtw_tech_t \<Rightarrow> rtw_tech_t \<Rightarrow> bool" where
  worker: "ws_worker_turn tech e = Ret (Some (go, out, tr, t2)) \<Longrightarrow> bridge_step tech t2"
| read_audio: "rtw_bridge_on_read_pcm16 tech pcm lock mem = t2 \<Longrightarrow> bridge_step tech t2"
| write_audio: "rtw_bridge_on_write_pcm16 tech n lock now = (out, t2) \<Longrightarrow> bridge_step tech t2"
| write_frame: "rtw_bridge_apply_write_frame tech pcm lock now = (n, out, t2) \<Longrightarrow> bridge_step tech t2"
| pause: "rtw_bridge_pause tech p lock = (ok, t2) \<Longrightarrow> bridge_step tech t2"
| clear: "rtw_bridge_clear tech e = Ret (Some (ok, out, t2)) \<Longrightarrow> bridge_step tech t2"
| mark: "rtw_bridge_send_mark tech name e = Ret (Some (ok, out, t2)) \<Longrightarrow> bridge_step tech t2"
| close_request: "bridge_step tech (tech\<lparr>tech_close_requested := True\<rparr>)"

inductive bridge_reachable :: "rtw_tech_t \<Rightarrow> bool" where
  started: "rtw_bridge_start ws_uri sampling channels metadata e = Some (Some tech, out, tr) \<Longrightarrow> bridge_reachable tech"
| stepped: "bridge_reachable tech \<Longrightarrow> bridge_step tech t2 \<Longrightarrow> bridge_reachable t2"

lemma locked_json_safe:
  assumes "bridge_inv tech" "length json \<le> 65535"
  shows "run_safe (\<lambda>(ok, out, t). bridge_inv t) (locked_json tech json e)"
  using assms peer_json_safe [OF assms, of e] by (auto simp: locked_json_def intro: run_safe_bind)

lemma command_safe:
  assumes "bridge_inv tech"
  shows "run_safe (\<lambda>(ok, out, t). bridge_inv t) (rtw_bridge_clear tech e)"
    "run_safe (\<lambda>(ok, out, t). bridge_inv t) (rtw_bridge_send_mark tech name e)"
  using assms locked_json_safe [OF assms command_lengths(1)] locked_json_safe [OF assms command_lengths(2)]
  by (auto simp: rtw_bridge_clear_def rtw_bridge_send_mark_def)

lemma run_safeD: "run_safe P m \<Longrightarrow> m = Ret (Some x) \<Longrightarrow> P x"
  by (auto simp: run_safe_def)

lemma bridge_step_inv: "bridge_step tech t2 \<Longrightarrow> bridge_inv tech \<Longrightarrow> bridge_inv t2"
proof (induction rule: bridge_step.induct)
  case (worker tech e go out tr t2)
  then show ?case using run_safeD [OF worker_turn_safe] by fastforce
next
  case (read_audio tech pcm lock mem t2)
  then show ?case using on_read_inv by blast
next
  case (write_audio tech n lock now out t2)
  then show ?case using on_write_inv [of tech n lock now] by simp
next
  case (write_frame tech pcm lock now n out t2)
  then show ?case using apply_write_inv [of tech pcm lock now] by simp
next
  case (pause tech p lock ok t2)
  then show ?case by (auto simp: rtw_bridge_pause_def bridge_inv_def split: if_splits)
next
  case (clear tech e ok out t2)
  then show ?case using run_safeD [OF command_safe(1)] by fastforce
next
  case (mark tech name e ok out t2)
  then show ?case using run_safeD [OF command_safe(2)] by fastforce
next
  case (close_request tech)
  then show ?case by simp
qed

lemma isalnum_no_nul: "list_all isalnum s \<Longrightarrow> NUL \<notin> set s"
  using plain_no_nul [OF sid_plain] .

lemma make_call_sid_no_nul: "NUL \<notin> set (make_call_sid 64 uuid)"
proof -
  have "NUL \<notin> set (hex_compact uuid 33 32)"
    using make_stream_sid_ok(2) [of uuid, THEN isalnum_no_nul] by (simp add: make_stream_sid_def hex_compact_def hex_loop_eq snprintf_s_def)
  then show ?thesis by (simp add: make_call_sid_def)
qed

lemma session_start_sid:
  "s_stream_sid (snd (rtw_session_start s sid call acc cp dup mem)) = snprintf_s RTW_SID_MAX sid"
  by (simp add: rtw_session_start_def send_handshake_def Let_def case_prod_beta)

lemma start_session_inv:
  assumes "start_session (init_tech ws_uri sampling channels metadata e) e = Some tech"
  shows "bridge_inv tech"
proof -
  let ?t = "init_tech ws_uri sampling channels metadata e"
  obtain hdrs params s s1 where s: "rtw_session_init 256 (64 * 1024) (st_queue_calloc e) (st_playout_malloc e) = Some s"
    "rtw_session_start s (tech_stream_sid ?t) (Some (tech_call_sid ?t)) (Some bridge_account_sid) params (st_strdup e) (st_mem e) = (0, s1)"
    "tech = ?t\<lparr>tech_extra_headers := hdrs, tech_peer_custom_params := params, tech_session := s1\<rparr>"
    using assms by (auto simp: start_session_def split: option.splits prod.splits if_splits)
  obtain uuid where sid: "tech_stream_sid ?t = make_stream_sid 64 uuid"
    and call: "tech_call_sid ?t = snprintf_s 64 (make_call_sid 64 uuid)"
    by (simp add: init_tech_def Let_def RTW_SID_MAX_def snprintf_s_fits make_stream_sid_ok(1))
  note ok = make_stream_sid_ok [of uuid]
  have "session_inv s1"
    using rtw_session_start_inv [OF session_init_inv [OF s(1)], of "tech_stream_sid ?t" "Some (tech_call_sid ?t)"
        "Some bridge_account_sid" params "st_strdup e" "st_mem e"]
      s(2) isalnum_no_nul [OF ok(2)] make_call_sid_no_nul [of uuid] by (simp add: sid call bridge_account_sid_def)
  moreover have "s_stream_sid s1 = tech_stream_sid ?t"
    using session_start_sid [of s "tech_stream_sid ?t" "Some (tech_call_sid ?t)" "Some bridge_account_sid" params "st_strdup e" "st_mem e"]
      s(2) ok(1) by (simp add: sid RTW_SID_MAX_def snprintf_s_fits)
  ultimately show ?thesis using s(3) ok by (simp add: bridge_inv_def sid) (simp add: init_tech_def Let_def)
qed

lemma bridge_start_inv:
  assumes "rtw_bridge_start ws_uri sampling channels metadata e = Some (Some tech, out, tr)"
  shows "bridge_inv tech"
proof -
  let ?t = "init_tech ws_uri sampling channels metadata e"
  obtain t1 where t1: "start_session ?t e = Some t1"
    using assms by (cases "start_session ?t e") (simp_all add: rtw_bridge_start_def split: if_splits)
  obtain res tr1 where c: "rtw_ws_connect_ex ws_uri (tech_extra_headers t1) (st_connect e) = (res, tr1)" by fastforce
  then obtain c t2 where fl: "flush_outbound (t1\<lparr>tech_ws := Some c, tech_ws_ready := True\<rparr>) (st_flush e) = Some (out, t2)"
    "tech = t2\<lparr>tech_worker_started := True\<rparr>"
    using assms t1 by (cases res) (auto simp: rtw_bridge_start_def split: if_splits)
  with flush_outbound_inv [OF _ fl(1)] start_session_inv [OF t1] show ?thesis by simp
qed

lemma bridge_reachable_inv: "bridge_reachable tech \<Longrightarrow> bridge_inv tech"
  by (induction rule: bridge_reachable.induct) (auto intro: bridge_start_inv bridge_step_inv)

section \<open>Stopping\<close>

definition stop_text :: "rtw_session_t \<Rightarrow> string" where
  "stop_text s = the (rtw_build_stop (s_stream_sid s) (Some (s_account_sid s)) (Some (s_call_sid s)) (s_seq s) True)"

lemma session_stop_ok:
  assumes "session_inv s" "s_state s = RTW_STATE_RUNNING"
  shows "outbound (snd (rtw_session_stop s (True, True))) = last_n (q_capacity (s_outbound s)) (outbound s @ [stop_text s])"
    "s_playout (snd (rtw_session_stop s (True, True))) = s_playout s"
proof -
  have "json_ok (stop_json (s_stream_sid s) (Some (s_account_sid s)) (Some (s_call_sid s)) (s_seq s))"
    using session_invD(3-5) [OF assms(1)] by (simp add: stop_json_eq sid_ok_def)
  from print_Some [OF this] have b: "rtw_build_stop (s_stream_sid s) (Some (s_account_sid s)) (Some (s_call_sid s)) (s_seq s) True = Some (stop_text s)"
    by (auto simp: rtw_build_stop_def stop_text_def)
  show "outbound (snd (rtw_session_stop s (True, True))) = last_n (q_capacity (s_outbound s)) (outbound s @ [stop_text s])"
    "s_playout (snd (rtw_session_stop s (True, True))) = s_playout s"
    using outq.push_ok [OF session_invD(1) [OF assms(1)], of "stop_text s"] assms(2)
    by (simp_all add: rtw_session_stop_def b enqueue_json_def Let_def case_prod_beta)
qed

section \<open>An example bridge\<close>

definition demo_sid :: string where
  "demo_sid = make_stream_sid 64 ''0af1''"

definition demo_bridge :: rtw_tech_t where
  "demo_bridge = \<lparr>tech_session_id = ''0af1'', tech_stream_sid = demo_sid, tech_call_sid = ''CA'', tech_ws_uri = ''ws://h/'',
     tech_metadata = [], tech_extra_headers = None, tech_peer_custom_params = None, tech_sampling = 8000,
     tech_channels = 1, tech_audio_paused = False, tech_close_requested = False, tech_cleanup_started = False,
     tech_ws_ready = True, tech_session = demo_session\<lparr>s_stream_sid := demo_sid\<rparr>, tech_ws = Some example_client,
     tech_worker_started = True, tech_pcm_hold = [], tech_inject_mode = RTW_INJECT_REPLACE,
     tech_reconnect_enabled = True, tech_reconnect_max = 10, tech_reconnect_attempts = 0, tech_reconnect_ok = 0,
     tech_record_injected = True\<rparr>"

lemma demo_session_sid_inv: "session_inv (demo_session\<lparr>s_stream_sid := demo_sid\<rparr>)"
  using demo_inv isalnum_no_nul [OF make_stream_sid_ok(2)] make_stream_sid_ok(1)
  by (simp add: session_inv_def sid_ok_def demo_sid_def RTW_SID_MAX_def)

lemma demo_bridge_inv: "bridge_inv demo_bridge"
  using demo_session_sid_inv make_stream_sid_ok by (simp add: bridge_inv_def demo_bridge_def demo_sid_def)

lemma demo_session_simps [simp]:
  "s_state demo_session = RTW_STATE_RUNNING" "\<not> s_paused demo_session"
  "q_capacity (s_outbound demo_session) = 4" "queue_contents (s_outbound demo_session) = []"
  "quiet (demo_session\<lparr>s_stream_sid := x\<rparr>)"
  by (simp_all add: demo_session_def zero_session_def queue_contents_def quiet_def active_marks_def zero_queue_def zero_playout_def)

lemma demo_bridge_simps [simp]:
  "tech_session demo_bridge = demo_session\<lparr>s_stream_sid := demo_sid\<rparr>" "tech_pcm_hold demo_bridge = []"
  "tech_ws demo_bridge = Some example_client" "tech_ws_ready demo_bridge" "\<not> stopping demo_bridge"
  "\<not> tech_audio_paused demo_bridge" "\<not> tech_cleanup_started demo_bridge" "tech_stream_sid demo_bridge = demo_sid"
  "tech_sampling demo_bridge = 8000" "tech_channels demo_bridge = 1" "tech_inject_mode demo_bridge = RTW_INJECT_REPLACE"
  by (simp_all add: demo_bridge_def stopping_def)

section \<open>Properties\<close>

text \<open>
  C2: Nothing is lost or repeated by a flush. Let the queue hold, once the marks that are due are
  acknowledged, the messages \<open>msgs\<close>. A flush that returns has sent a number of them from the front,
  each as one whole frame and in order, and keeps exactly the others: all were sent when the
  connection is still up, and otherwise what went out behind the whole frames is a proper prefix of the
  frame of the first message kept.
\<close>

theorem bridge_flush_lossless:
  assumes "bridge_inv tech" "tech_ws tech = Some ws" "tech_ws_ready tech"
    and "flush_outbound tech (e # es) = Some (out, t2)"
    and "msgs = outbound (rtw_session_harvest_marks (tech_session tech) (f_mem e))"
  shows "\<exists>k tail. k \<le> length es \<and> outbound (tech_session t2) = drop k msgs \<and> out = frames (take k msgs) (e # es) @ tail \<and>
    (if tech_ws_ready t2 then k = length msgs \<and> tail = []
     else k < length msgs \<and> strict_prefix tail (text_frame ((e # es) ! k) (msgs ! k)))"
proof -
  note inv = bridge_invD(1) [OF assms(1)]
  let ?t = "tech\<lparr>tech_session := rtw_session_harvest_marks (tech_session tech) (f_mem e)\<rparr>"
  have "flush_loop ?t ws (e # es) = Some (out, t2)"
    using assms(2-4) flush_loop_harvest [OF inv, of ws e es] by (simp add: flush_outbound_def del: flush_loop.simps)
  from flush_loop_sends [OF _ _ _ _ this, of msgs] harvest_inv [OF inv] quiet_harvest [OF inv] assms(3,5) show ?thesis
    by (simp add: less_Suc_eq_le)
qed

definition loaded_bridge :: rtw_tech_t where
  "loaded_bridge = demo_bridge\<lparr>tech_session := (tech_session demo_bridge)\<lparr>s_outbound :=
     snd (rtw_queue_push (snd (rtw_queue_push (s_outbound demo_session) ''a'' True)) ''b'' True)\<rparr>\<rparr>"

lemma loaded_bridge_facts:
  "bridge_inv loaded_bridge" "quiet (tech_session loaded_bridge)" "outbound (tech_session loaded_bridge) = [''a'', ''b'']"
proof -
  note q = session_invD(1) [OF demo_inv]
  show "bridge_inv loaded_bridge"
    unfolding loaded_bridge_def
    by (rule bridge_inv_session [OF demo_bridge_inv session_inv_outbound])
      (use demo_session_sid_inv q in \<open>simp_all add: outq.push_inv\<close>)
  show "quiet (tech_session loaded_bridge)" "outbound (tech_session loaded_bridge) = [''a'', ''b'']"
    using q by (simp_all add: loaded_bridge_def outq.push_ok outq.push_inv outq.push_cap last_n_def)
qed

definition kernel_env :: "send_result list \<Rightarrow> flush_env" where
  "kernel_env sends = \<lparr>f_mem = all_ok, f_urandom = None, f_malloc = True, f_sends = sends\<rparr>"

text \<open>Two messages are queued; the connection breaks two bytes into the second.\<close>

theorem bridge_flush_lossless_witness:
  "\<exists>out t2. flush_outbound loaded_bridge [kernel_env [Sent 9], kernel_env [Sent 2, Send_Failed]] = Some (out, t2) \<and>
     outbound (tech_session t2) = [''b''] \<and> \<not> tech_ws_ready t2"
proof -
  let ?es = "[kernel_env [Sent 2, Send_Failed]]" and ?t = "loaded_bridge"
  let ?t1 = "?t\<lparr>tech_session := snd (rtw_session_drop_outbound_head (tech_session ?t))\<rparr>"
  note inv = bridge_invD(1) [OF loaded_bridge_facts(1)]
  note d = drop_contents [OF inv] drop_outbound_inv [OF inv] loaded_bridge_facts
  have send: "env_send example_client ''a'' (kernel_env [Sent 9]) = Some (0, text_frame (kernel_env [Sent 9]) ''a'')"
    "\<exists>o2. env_send example_client ''b'' (kernel_env [Sent 2, Send_Failed]) = Some (- 1, o2)"
    by (simp_all add: env_send_def rtw_ws_send_text_def example_client_def encode_frame_eq text_frame_def ws_frame_def
        kernel_env_def mask_key_def xor_mask_def)
  have "\<exists>o2. flush_loop ?t1 example_client ?es = Some (o2, ?t1\<lparr>tech_ws_ready := False\<rparr>)"
    using flush_loop_contents [of ?t1 example_client "kernel_env [Sent 2, Send_Failed]" "[]"] send(2) d
    by (auto simp del: flush_loop.simps)
  then have "\<exists>out. flush_loop ?t example_client (kernel_env [Sent 9] # ?es) = Some (out, ?t1\<lparr>tech_ws_ready := False\<rparr>)"
    using flush_loop_contents [OF inv loaded_bridge_facts(2), of example_client "kernel_env [Sent 9]" ?es] send(1) d
    by (auto simp del: flush_loop.simps)
  then obtain out where f: "flush_outbound ?t (kernel_env [Sent 9] # ?es) = Some (out, ?t1\<lparr>tech_ws_ready := False\<rparr>)"
    by (auto simp: flush_outbound_def loaded_bridge_def simp del: flush_loop.simps)
  have h: "outbound (rtw_session_harvest_marks (tech_session ?t) mem) = [''a'', ''b'']" for mem
    using harvest_quiet [OF inv loaded_bridge_facts(2)] loaded_bridge_facts(3) by simp
  from bridge_flush_lossless [OF loaded_bridge_facts(1) _ _ f h [symmetric]]
  obtain k where "outbound (tech_session (?t1\<lparr>tech_ws_ready := False\<rparr>)) = drop k [''a'', ''b'']" "k < 2"
    by (auto simp: loaded_bridge_def)
  then show ?thesis using f d by auto
qed


lemma demo_stop_text: "length (stop_text (tech_session demo_bridge)) < 200"
proof -
  have "list_all plain_char ''sequenceNumber''" "list_all plain_char ''accountSid''" "list_all plain_char ''callSid''"
    "list_all plain_char ''stop''" "list_all plain_char ''0''" "list_all plain_char []"
    by (simp_all add: plain_char_def)
  moreover have "list_all plain_char demo_sid" "length demo_sid = 34"
    using make_stream_sid_ok sid_plain by (simp_all add: demo_sid_def)
  moreover have "show_nat 0 = ''0''" by code_simp
  ultimately show ?thesis
    using command_names
    by (simp add: stop_text_def rtw_build_stop_def cJSON_PrintUnformatted_def stop_json_eq print_plain seq_str_eq
        demo_session_def zero_session_def)
qed


text \<open>
  C8: Call audio. While the bridge runs and memory suffices, a block of samples of any size, together
  with what was held back before, becomes one media message per 160 samples of the wire rate (the left
  channel of stereo, pairs averaged at 16 kHz), in order and with consecutive numbers, under the
  drop-oldest bound of the queue; exactly the incomplete rest is held back for the next block.
\<close>

theorem bridge_uplink:
  assumes "bridge_inv tech" "\<not> stopping tech" "\<not> tech_audio_paused tech"
    and "s = tech_session tech" "s_state s = RTW_STATE_RUNNING" "\<not> s_paused s"
    and "pending = tech_pcm_hold tech @ wire_samples tech pcm" "n = length pending div 160"
    and "t2 = rtw_bridge_on_read_pcm16 tech pcm True ample"
  shows "outbound (tech_session t2) = last_n (q_capacity (s_outbound s)) (outbound s @ map (\<lambda>k.
       the (rtw_build_media (s_stream_sid s) (Some ''inbound'') (s_chunk s + of_nat k) (s_timestamp_ms s + 20 * of_nat k)
         (s_seq s + of_nat k) (rtw_pcm16_to_mulaw (take 160 (drop (k * 160) pending))) True)) [0..<n]) \<and>
    tech_pcm_hold t2 = drop (160 * n) pending \<and> s_seq (tech_session t2) = s_seq s + of_nat n \<and>
    s_playout (tech_session t2) = s_playout s"
proof -
  note inv = bridge_invD(1,2) [OF assms(1)]
  have "t2 = tech\<lparr>tech_session := snd (push_loop s pending 0 all_ok), tech_pcm_hold := drop (160 * n) pending\<rparr>"
    using on_read_feed [OF assms(2,3), of pcm ample] feed_push_loop [of s "tech_pcm_hold tech" "wire_samples tech pcm" 0]
      inv assms(4-9) by simp
  then show ?thesis
    using push_loop_ok [of s pending 0] inv(1) assms(4,8)
    by (simp add: case_prod_beta Let_def media_text_def [abs_def] frame_mulaw_def RTW_FRAME_MULAW_BYTES_def)
qed

theorem bridge_uplink_witness:
  "tech_pcm_hold (rtw_bridge_on_read_pcm16 demo_bridge (replicate 170 0) True ample) = replicate 10 0 \<and>
   s_seq (tech_session (rtw_bridge_on_read_pcm16 demo_bridge (replicate 170 0) True ample)) = 1"
proof -
  have "wire_samples demo_bridge pcm = pcm" for pcm by (simp add: wire_samples_def)
  moreover have "s_seq demo_session = 0" by (simp add: demo_session_def zero_session_def)
  ultimately show ?thesis
    using bridge_uplink [OF demo_bridge_inv _ _ refl _ _ refl refl refl, of "replicate 170 0"] by simp
qed

text \<open>
  How the media thread cuts the audio does not matter: two blocks, the first of which ends with
  a whole sample of the wire rate, leave the bridge exactly as their concatenation does.
\<close>

lemma bridge_read_split:
  assumes "\<not> stopping tech" "\<not> tech_audio_paused tech" "aligned tech a"
  shows "rtw_bridge_on_read_pcm16 (rtw_bridge_on_read_pcm16 tech a True ample) b True ample =
    rtw_bridge_on_read_pcm16 tech (a @ b) True ample"
proof -
  obtain s hold where f: "feed (wire_samples tech a) ample 0 (tech_session tech, tech_pcm_hold tech) = (s, hold)"
    by fastforce
  let ?t = "tech\<lparr>tech_session := s, tech_pcm_hold := hold\<rparr>"
  have t: "rtw_bridge_on_read_pcm16 tech a True ample = ?t" using on_read_feed [OF assms(1,2)] f by simp
  have w: "wire_samples ?t b = wire_samples tech b" by (simp add: wire_samples_def)
  have st: "\<not> stopping ?t" "\<not> tech_audio_paused ?t" using assms(1,2) by (simp_all add: stopping_def)
  have "feed (wire_samples tech (a @ b)) ample 0 (tech_session tech, tech_pcm_hold tech) =
      feed (wire_samples tech b) ample 0 (s, hold)"
    using feed_append [of "wire_samples tech a" "wire_samples tech b" 0 _ 0] f by (simp add: wire_samples_append [OF assms(3)])
  then show ?thesis
    using on_read_feed [OF st, of b ample] on_read_feed [OF assms(1,2), of "a @ b" ample] by (simp add: t w case_prod_beta)
qed

lemma bridge_read_split_example:
  "rtw_bridge_on_read_pcm16 (rtw_bridge_on_read_pcm16 demo_bridge [1, 2, 3] True ample) [4] True ample =
     rtw_bridge_on_read_pcm16 demo_bridge [1, 2, 3, 4] True ample"
  using bridge_read_split [of demo_bridge "[1, 2, 3]" "[4]"] by (simp add: aligned_def)

text \<open>
  C9: Agent audio. A frame of the call is changed only as far as buffered audio reaches, at most 640
  samples: in replace mode it becomes the decoded audio followed by silence, in mix mode each
  sample becomes the sum, saturated at the 16-bit range, and the rest stays; with nothing buffered
  the frame is untouched. The length of the frame never changes and the buffer loses exactly the
  bytes used.
\<close>

theorem bridge_inject:
  assumes "bridge_inv tech" "\<not> tech_cleanup_started tech" "pcm \<noteq> []"
    and "rtw_bridge_apply_write_frame tech pcm True now = (n, frame, t2)"
    and "audio = playout_audio (s_playout (tech_session tech))"
    and "agent = map rtw_mulaw_to_linear (take n audio)"
  shows "n = min (min (length pcm) 640) (length audio) \<and> length frame = length pcm \<and>
    playout_audio (s_playout (tech_session t2)) = drop n audio \<and>
    (if n = 0 then frame = pcm
     else if tech_inject_mode tech = RTW_INJECT_REPLACE then frame = agent @ replicate (length pcm - n) 0
     else drop n frame = drop n pcm \<and>
       (\<forall>i < n. sint (frame ! i) = max (- 32768) (min 32767 (sint (pcm ! i) + sint (agent ! i)))))"
proof -
  let ?want = "min (length pcm) 640"
  obtain mulaw s1 where tp: "take_playout (tech_session tech) ?want now = (mulaw, s1)" by fastforce
  note a = take_playout_audio [OF bridge_invD(1) [OF assms(1)] tp, folded assms(5)]
  have n: "n = length mulaw" and t2: "t2 = tech\<lparr>tech_session := s1\<rparr>"
    using assms(2-4) tp by (auto simp: rtw_bridge_apply_write_frame_def Let_def split: if_splits rtw_inject_mode_t.splits)
  have nn: "n = min ?want (length audio)" using n a(1) by simp
  have ag: "rtw_mulaw_to_pcm16 mulaw = agent"
    using a(1) n nn by (simp add: rtw_mulaw_to_pcm16_def assms(6) take_map min_def)
  have len: "length agent = n" "n \<le> length pcm" using ag n nn by (auto simp: rtw_mulaw_to_pcm16_def)
  have "playout_audio (s_playout (tech_session t2)) = drop n audio"
    using a(2) nn by (auto simp: t2 min_def)
  moreover have "(n = 0 \<longrightarrow> frame = pcm) \<and> (n \<noteq> 0 \<longrightarrow> (case tech_inject_mode tech of
      RTW_INJECT_REPLACE \<Rightarrow> frame = agent @ replicate (length pcm - n) 0
    | RTW_INJECT_MIX \<Rightarrow> frame = map2 (\<lambda>x y. clamp_s16 (sint x + sint y)) (take n pcm) agent @ drop n pcm))"
    using assms(2-4) tp n ag
    by (auto simp: rtw_bridge_apply_write_frame_def Let_def split: if_splits rtw_inject_mode_t.splits)
  ultimately show ?thesis
    using nn len by (auto simp: nth_append clamp_s16_saturates split: rtw_inject_mode_t.splits)
qed

definition sounding_bridge :: rtw_tech_t where
  "sounding_bridge = demo_bridge\<lparr>tech_session := (tech_session demo_bridge)\<lparr>s_playout :=
     snd (rtw_playout_write (s_playout demo_session) [0x80, 0x00])\<rparr>\<rparr>"

lemma sounding_bridge_facts:
  "bridge_inv sounding_bridge" "playout_audio (s_playout (tech_session sounding_bridge)) = [0x80, 0x00]"
proof -
  note p = session_invD(2) [OF demo_inv]
  have e: "playout_stream (s_playout demo_session) = []" "p_capacity (s_playout demo_session) = 400"
    by (simp_all add: demo_session_def zero_playout_def playout_stream_def playout_audio_def active_marks_def)
  then have w: "playout_stream (snd (rtw_playout_write (s_playout demo_session) [0x80, 0x00])) = [Audio 0x80, Audio 0x00]"
    "playout_inv (snd (rtw_playout_write (s_playout demo_session) [0x80, 0x00]))"
    using play.write_ok [OF p, of "[0x80, 0x00]"] play.write_inv [OF p, of "[0x80, 0x00]"]
    by (simp_all del: audio_of_playout_stream)
  show "playout_audio (s_playout (tech_session sounding_bridge)) = [0x80, 0x00]"
    using arg_cong [OF w(1), of audio_of] by (simp add: sounding_bridge_def)
  show "bridge_inv sounding_bridge"
    unfolding sounding_bridge_def
    by (rule bridge_inv_session [OF demo_bridge_inv])
      (use session_inv_playout [OF demo_session_sid_inv w(2), of "{}"] w(1) in \<open>simp_all del: marks_of_playout_stream\<close>)
qed

theorem bridge_inject_witness:
  "\<exists>t2. rtw_bridge_apply_write_frame sounding_bridge [5, 6, 7] True 0 =
     (2, [rtw_mulaw_to_linear 0x80, rtw_mulaw_to_linear 0x00, 0], t2)"
proof -
  obtain n frame t2 where r: "rtw_bridge_apply_write_frame sounding_bridge [5, 6, 7] True 0 = (n, frame, t2)"
    by (cases "rtw_bridge_apply_write_frame sounding_bridge [5, 6, 7] True 0")
  have "\<not> tech_cleanup_started sounding_bridge" "tech_inject_mode sounding_bridge = RTW_INJECT_REPLACE"
    by (simp_all add: sounding_bridge_def)
  then show ?thesis
    using bridge_inject [OF sounding_bridge_facts(1) _ _ r refl refl] r sounding_bridge_facts(2) by simp
qed

text \<open>
  C3: Safety. In every state a started bridge can reach, whatever the peer and the threads do, the
  session is well formed and addressed by the identifier of the stream, fewer than 160 samples
  are held back, and neither a turn of the worker nor a command has undefined behaviour.
\<close>

theorem bridge_reachable_safe:
  assumes "bridge_reachable tech"
  shows "session_inv (tech_session tech) \<and> length (tech_pcm_hold tech) < 160 \<and>
    s_stream_sid (tech_session tech) = tech_stream_sid tech \<and> length (tech_stream_sid tech) = 34 \<and>
    ws_worker_turn tech e \<noteq> UB \<and> rtw_bridge_clear tech e2 \<noteq> UB \<and> rtw_bridge_send_mark tech name e2 \<noteq> UB"
proof -
  note inv = bridge_reachable_inv [OF assms]
  from worker_turn_safe [OF inv, of e] command_safe(1) [OF inv, of e2] command_safe(2) [OF inv, of name e2] bridge_invD [OF inv] show ?thesis
    by (auto simp: run_safe_def)
qed

text \<open>
  Barge-in from the command line. On a running bridge the clear command succeeds and leaves no
  audio and no mark in the playout buffer.
\<close>

lemma bridge_clear_empties:
  assumes "bridge_inv tech" "\<not> tech_cleanup_started tech" "s_state (tech_session tech) = RTW_STATE_RUNNING"
    and "x_lock e" "x_malloc e" "x_mem e = all_ok"
    and "rtw_bridge_clear tech e = Ret (Some (ok, out, t2))"
  shows "ok \<and> playout_stream (s_playout (tech_session t2)) = []"
proof -
  note inv = bridge_invD [OF assms(1)]
  obtain rc s1 where c: "on_clear (tech_session tech) (x_now e) all_ok = (rc, s1)" by fastforce
  have h: "rtw_session_handle_peer_json (tech_session tech) (clear_command (tech_stream_sid tech)) (x_malloc e) (x_now e) (x_mem e) =
      Ret (rc, s1)"
    using assms(3,5,6) c inv(3) by (simp add: rtw_session_handle_peer_json_def clear_command_parse [OF inv(5,4)])
  have p: "peer_json tech (clear_command (tech_stream_sid tech)) e = Ret (Some (out, t2))" "ok"
    using assms(2,4,7) by (auto simp: rtw_bridge_clear_def locked_json_def run_bind_def exec_bind_def split: option.splits c_exec.splits)
  have "playout_stream (s_playout s1) = []"
    using on_clear_ok [OF inv(1), of "x_now e"] c by (simp add: Let_def)
  moreover have "session_inv s1" using on_clear_inv [OF inv(1), of "x_now e" all_ok] c by simp
  ultimately show ?thesis
    using flush_stream [OF _ peer_json_cases [OF p(1) h]] p(2) by simp
qed

definition quick_env :: text_env where
  "quick_env = \<lparr>x_lock = True, x_malloc = True, x_now = 0, x_mem = all_ok, x_flush = []\<rparr>"

text \<open>
  A mark set by command waits for the audio before it. While audio is buffered and the table has
  room, the command succeeds for every valid name and the mark becomes the last element of the
  playout stream, behind all of the audio.
\<close>

lemma bridge_mark_behind_audio:
  assumes "bridge_inv tech" "\<not> tech_cleanup_started tech" "s_state (tech_session tech) = RTW_STATE_RUNNING"
    and "valid_mark_name name" "x_lock e" "x_malloc e"
    and "playout_audio (s_playout (tech_session tech)) \<noteq> []" "p_mark_count (s_playout (tech_session tech)) < RTW_MARK_MAX"
    and "rtw_bridge_send_mark tech name e = Ret (Some (ok, out, t2))"
  shows "ok \<and> last (playout_stream (s_playout (tech_session t2))) = Mark name \<and>
    playout_audio (s_playout (tech_session t2)) = playout_audio (s_playout (tech_session tech))"
proof -
  note inv = bridge_invD [OF assms(1)]
  let ?p = "s_playout (tech_session tech)"
  obtain rc s1 where c: "on_mark (tech_session tech) name = (rc, s1)" by fastforce
  have h: "rtw_session_handle_peer_json (tech_session tech) (mark_command (tech_stream_sid tech) name) (x_malloc e) (x_now e) (x_mem e) =
      Ret (rc, s1)"
    using assms(3,6) c inv(3) by (simp add: rtw_session_handle_peer_json_def mark_command_parse [OF inv(5,4) assms(4)])
  have p: "peer_json tech (mark_command (tech_stream_sid tech) name) e = Ret (Some (out, t2))" "ok"
    using assms(2,4,5,9) by (auto simp: rtw_bridge_send_mark_def locked_json_def run_bind_def exec_bind_def split: option.splits c_exec.splits)
  have nm: "snprintf_s RTW_MARK_NAME_LEN name = name" "NUL \<notin> set name"
    using assms(4) plain_mark_name plain_no_nul [of name] by (auto simp: valid_mark_name_def snprintf_s_fits list_all_iff)
  have st: "playout_stream (s_playout s1) = playout_stream ?p @ [Mark name]"
    using playout_add_mark(3) [OF session_invD(2) [OF inv(1)] assms(8), of name] c nm
    by (auto simp: on_mark_def case_prod_beta)
  have "session_inv s1" using on_mark_inv [OF inv(1) nm(2)] c by (metis snd_conv)
  from flush_stream [OF _ peer_json_cases [OF p(1) h]] this st
  have "playout_stream (s_playout (tech_session t2)) \<in> {playout_stream ?p @ [Mark name], after_marks (playout_stream ?p @ [Mark name])}"
    by simp
  moreover have "audio_of (playout_stream ?p) \<noteq> []" using assms(7) by simp
  ultimately have "last (playout_stream (s_playout (tech_session t2))) = Mark name"
    "audio_of (playout_stream (s_playout (tech_session t2))) = audio_of (playout_stream ?p)"
    by (auto simp: after_marks_last simp del: audio_of_playout_stream)
  then show ?thesis using p(2) by simp
qed

lemma bridge_mark_behind_audio_example:
  "\<exists>out t2. rtw_bridge_send_mark (sounding_bridge\<lparr>tech_ws_ready := False\<rparr>) ''m.1'' quick_env = Ret (Some (True, out, t2)) \<and>
     last (playout_stream (s_playout (tech_session t2))) = Mark ''m.1''"
proof -
  let ?t = "sounding_bridge\<lparr>tech_ws_ready := False\<rparr>"
  have inv: "bridge_inv ?t" using sounding_bridge_facts(1) by simp
  have st: "\<not> tech_cleanup_started ?t" "s_state (tech_session ?t) = RTW_STATE_RUNNING" "\<not> tech_ws_ready ?t"
    by (simp_all add: sounding_bridge_def)
  have v: "valid_mark_name ''m.1''"
    by (simp add: valid_mark_name_def mark_name_char_def isalnum_def is_digit_def of_char_lower RTW_MARK_NAME_LEN_def)
  have a: "playout_audio (s_playout (tech_session ?t)) \<noteq> []" "p_mark_count (s_playout (tech_session ?t)) < RTW_MARK_MAX"
    using sounding_bridge_facts(2)
    by (simp_all add: sounding_bridge_def rtw_playout_write_def demo_session_def zero_playout_def RTW_MARK_MAX_def Let_def case_prod_beta)
  obtain rc s where h: "rtw_session_handle_peer_json (tech_session ?t) (mark_command (tech_stream_sid ?t) ''m.1'') True 0 all_ok = Ret (rc, s)"
    using handle_peer_json_total [OF command_lengths(2)] by blast
  have "rtw_bridge_send_mark ?t ''m.1'' quick_env = Ret (Some (True, [], ?t\<lparr>tech_session := s\<rparr>))"
    using st h v by (simp add: rtw_bridge_send_mark_def locked_json_def peer_json_def quick_env_def run_bind_def flush_outbound_def
        split: option.splits)
  from bridge_mark_behind_audio [OF inv st(1,2) v _ _ a this] this show ?thesis by (simp add: quick_env_def)
qed

subsection \<open>Starting\<close>

lemma flush_loop_state:
  "flush_loop tech ws es = Some (out, t2) \<Longrightarrow> s_state (tech_session t2) = s_state (tech_session tech)"
proof (induction es arbitrary: tech out)
  case (Cons e es)
  have "s_state (snd (rtw_session_drop_outbound_head s)) = s_state s" for s
    by (simp add: rtw_session_drop_outbound_head_def case_prod_beta)
  then show ?case
    using Cons.prems Cons.IH
    by (auto simp: rtw_session_peek_outbound_def Let_def split: option.splits if_splits)
qed simp

lemma flush_outbound_state:
  "flush_outbound tech es = Some (out, t2) \<Longrightarrow> s_state (tech_session t2) = s_state (tech_session tech)"
  using flush_loop_state by (auto simp: flush_outbound_def split: option.splits if_splits)

lemma start_session_ok:
  assumes "st_queue_calloc e" "st_playout_malloc e = Some g" "st_mem e = all_ok"
    and "tech = init_tech ws_uri sampling channels None e"
  shows "\<exists>hello start s. start_session tech e = Some (tech\<lparr>tech_session := s\<rparr>) \<and> session_inv s \<and> quiet s \<and>
    s_state s = RTW_STATE_RUNNING \<and>
    rtw_build_connected (Some ''1.0.0'') True = Some hello \<and>
    rtw_build_start (tech_stream_sid tech) (Some bridge_account_sid) (Some (tech_call_sid tech)) None 1 True = Some start \<and>
    outbound s = [hello, start]"
proof -
  obtain uuid where sid: "tech_stream_sid tech = make_stream_sid 64 uuid" and call: "tech_call_sid tech = snprintf_s 64 (make_call_sid 64 uuid)"
    by (simp add: assms(4) init_tech_def Let_def RTW_SID_MAX_def snprintf_s_fits make_stream_sid_ok(1))
  have none: "tech_metadata tech = []" "tech_extra_headers tech = None" "tech_peer_custom_params tech = None"
    by (simp_all add: assms(4) init_tech_def Let_def)
  obtain s0 where s0: "rtw_session_init 256 (64 * 1024) (st_queue_calloc e) (st_playout_malloc e) = Some s0"
    and q0: "outbound s0 = []" "q_capacity (s_outbound s0) = 256" "active_marks (s_playout s0) = []"
    using assms(1,2) by (simp add: rtw_session_init_def rtw_queue_init_def rtw_playout_init_def queue_contents_def
        zero_queue_def active_marks_def zero_playout_def)
  have acc: "snprintf_s 64 bridge_account_sid = bridge_account_sid" "snprintf_s 64 (tech_call_sid tech) = tech_call_sid tech"
    by (simp_all add: bridge_account_sid_def snprintf_s_def call)
  have ok: "sid_ok (tech_stream_sid tech)" "NUL \<notin> set (tech_call_sid tech)" "NUL \<notin> set bridge_account_sid"
    using isalnum_no_nul [OF make_stream_sid_ok(2)] make_stream_sid_ok(1) make_call_sid_no_nul
    by (simp_all add: sid_ok_def sid call RTW_SID_MAX_def bridge_account_sid_def)
  obtain rc s where s: "rtw_session_start s0 (tech_stream_sid tech) (Some (tech_call_sid tech)) (Some bridge_account_sid)
      None (st_strdup e) all_ok = (rc, s)" by fastforce
  note hs = session_start_handshake [OF session_init_inv [OF s0] ok s]
  have inv: "session_inv s"
    using rtw_session_start_inv [OF session_init_inv [OF s0], of "tech_stream_sid tech" "Some (tech_call_sid tech)"
        "Some bridge_account_sid" None "st_strdup e" all_ok] ok s by (simp add: sid_ok_def)
  have "s_playout s = s_playout s0"
    using arg_cong [OF s, of "\<lambda>r. s_playout (snd r)"]
    by (simp add: rtw_session_start_def send_handshake_def Let_def case_prod_beta split: if_splits)
  then have "quiet s" using q0(3) by (simp add: quiet_def)
  moreover have "start_session tech e = Some (tech\<lparr>tech_session := s\<rparr>)"
    using hs s s0 assms(3) none by (simp add: start_session_def split_metadata_def)
  ultimately show ?thesis
    using hs inv q0 acc by (auto simp: RTW_SID_MAX_def last_n_def)
qed


definition good_connect :: connect_env where
  "good_connect = example_env\<lparr>e_addrs := \<lambda>h p. Some [(Some 7, True)], e_sends := replicate 1000 (Sent 1),
     e_reads := [[0x31, 0x30, 0x31, 0x0D, 0x0A, 0x0D, 0x0A]]\<rparr>"

definition connected_client :: rtw_ws_client_t where
  "connected_client = \<lparr>c_fd = 7, c_rx = [], c_rx_cap = 65536, c_closed = False, c_use_tls = False, c_extra_headers = None\<rparr>"

text \<open>
  What the opening handshake accepts: any reply with a blank line in which \<open>101\<close> occurs somewhere, be it in
  the text of an error. What the reply carries behind its header is gone: the client starts with an
  empty buffer, so frames the peer sent along with its reply are lost.
\<close>

lemma any_101_accepted:
  assumes "r \<noteq> []" "length r \<le> 2047"
    and "contains (CRLF @ CRLF) (c_str (map byte_char r))" "contains ''101'' (c_str (map byte_char r))"
  shows "rtw_ws_connect_ex ''ws://h/'' None (good_connect\<lparr>e_reads := [r]\<rparr>) = (Some connected_client, [Sock_Open 7])"
proof -
  have u: "parse_url False ''ws://h/'' 256 512 = Some \<lparr>url_host = ''h'', url_port = 80, url_path = ''/'', url_tls = False\<rparr>"
    by (simp add: parse_url_def parse_hostport_def split_at_last_def split_at_char_def snprintf_s_def)
  have r: "read_reply [] [r] = Some (map byte_char r)"
    using assms by (subst read_reply.simps) (simp del: contains.simps)
  have w: "io_write_all (map char_byte (handshake_request ''/'' ''h'' [])) (replicate 1000 (Sent 1)) =
      Some (True, map char_byte (handshake_request ''/'' ''h'' []))"
    by (rule io_write_all_live) (simp_all add: handshake_request_def snprintf_s_def)
  have h: "host_header False ''h'' 80 = ''h''" by (simp add: host_header_def snprintf_s_def)
  show ?thesis
    using w r assms(4)
    by (simp add: rtw_ws_connect_ex_def good_connect_def example_env_def u http_handshake_def h Let_def connected_client_def
        del: contains.simps)
qed

lemma good_connect_ok: "rtw_ws_connect_ex ''ws://h/'' None good_connect = (Some connected_client, [Sock_Open 7])"
proof -
  have "contains (CRLF @ CRLF) (c_str (map byte_char [0x31, 0x30, 0x31, 0x0D, 0x0A, 0x0D, 0x0A]))"
    "contains ''101'' (c_str (map byte_char [0x31, 0x30, 0x31, 0x0D, 0x0A, 0x0D, 0x0A]))" by code_simp+
  from any_101_accepted [OF _ _ this] show ?thesis by (simp add: good_connect_def)
qed

lemma error_reply_accepted:
  "rtw_ws_connect_ex ''ws://h/'' None (good_connect\<lparr>e_reads := [map char_byte (''HTTP/1.1 404 No user 101'' @ CRLF @ CRLF)]\<rparr>) =
     (Some connected_client, [Sock_Open 7])"
proof (rule any_101_accepted)
  have m: "map byte_char (map char_byte s) = s" for s by (simp add: comp_def)
  show "contains (CRLF @ CRLF) (c_str (map byte_char (map char_byte (''HTTP/1.1 404 No user 101'' @ CRLF @ CRLF))))"
    "contains ''101'' (c_str (map byte_char (map char_byte (''HTTP/1.1 404 No user 101'' @ CRLF @ CRLF))))"
    unfolding m by code_simp+
qed simp_all

definition good_start :: "flush_env list \<Rightarrow> start_env" where
  "good_start es = \<lparr>st_calloc = True, st_mutex = True, st_uuid = None, st_env_reconnect = None, st_env_mix = None,
     st_meta = \<lparr>m_parse = True, m_strdup = True, m_line = True, m_realloc = (\<lambda>_. True), m_print = True\<rparr>,
     st_queue_calloc = True, st_playout_malloc = Some (\<lambda>_. 0), st_strdup = True, st_mem = all_ok,
     st_connect = good_connect, st_flush = es, st_pthread = True\<rparr>"

lemma good_start_fields [simp]:
  "st_calloc (good_start es)" "st_mutex (good_start es)" "st_queue_calloc (good_start es)"
  "st_playout_malloc (good_start es) = Some (\<lambda>_. 0)" "st_mem (good_start es) = all_ok" "st_pthread (good_start es)"
  "st_connect (good_start es) = good_connect" "st_flush (good_start es) = es"
  by (simp_all add: good_start_def)

lemma demo_start_texts:
  assumes "tech = init_tech ws_uri sampling channels None (good_start es)"
  shows "\<exists>hello start. rtw_build_connected (Some ''1.0.0'') True = Some hello \<and> length hello < 1000 \<and>
    rtw_build_start (tech_stream_sid tech) (Some bridge_account_sid) (Some (tech_call_sid tech)) None 1 True = Some start \<and>
    length start < 1000"
proof -
  have sid: "tech_stream_sid tech = make_stream_sid 64 ''unknown''" "tech_call_sid tech = make_call_sid 64 ''unknown''"
    by (simp_all add: assms init_tech_def good_start_def Let_def RTW_SID_MAX_def RTW_MAX_SID_def snprintf_s_def make_stream_sid_def make_call_sid_def)
  have c: "make_stream_sid 64 ''unknown'' = ''MZ00000000000000000000000000000000''"
    "make_call_sid 64 ''unknown'' = ''CA00000000000000000000000000000000''"
    by (simp_all add: make_stream_sid_def make_call_sid_def hex_compact_def hex_loop_eq snprintf_s_def isxdigit_def hex_digit_def
        numeral_eq_Suc)
  show ?thesis
    unfolding sid c
    by (simp add: rtw_build_connected_def rtw_build_start_def connected_json_eq start_json_eq cJSON_PrintUnformatted_def
        print_string_ptr_def escape_char_def plain_char_def bridge_account_sid_def custom_json_def cJSON_CreateObject_def
        print_number_def int_of_double_def INT_MAX_def INT_MIN_def show_int_def show_nat.simps seq_str_eq)
qed


lemma demo_start: "\<exists>tech. rtw_bridge_start ''ws://h/'' 8000 1 None (good_start [kernel_env [Send_Failed]]) = Some (Some tech, [], [Sock_Open 7])"
proof -
  let ?e = "good_start [kernel_env [Send_Failed]]"
  let ?t = "init_tech ''ws://h/'' 8000 1 None ?e"
  obtain s hello start where s: "start_session ?t ?e = Some (?t\<lparr>tech_session := s\<rparr>)" "session_inv s" "quiet s" "outbound s = [hello, start]"
    using start_session_ok [of ?e _ ?t "''ws://h/''" 8000 1] by auto
  let ?t1 = "?t\<lparr>tech_session := s, tech_ws := Some connected_client, tech_ws_ready := True\<rparr>"
  have f: "env_send connected_client hello (kernel_env [Send_Failed]) = Some (- 1, [])"
    by (simp add: env_send_def rtw_ws_send_text_def encode_frame_eq ws_frame_def kernel_env_def connected_client_def Let_def)
  have fl: "flush_outbound ?t1 (st_flush ?e) = Some ([], ?t1\<lparr>tech_ws_ready := False\<rparr>)"
    using flush_loop_contents [of ?t1 connected_client "kernel_env [Send_Failed]" "[]"] s(2-4) f
    by (simp add: flush_outbound_def del: flush_loop.simps)
  have h: "tech_extra_headers ?t = None" by (simp add: init_tech_def Let_def)
  show ?thesis using s(1) fl h good_connect_ok by (simp add: rtw_bridge_start_def)
qed

lemma started_bridge: "\<exists>tech. bridge_reachable tech"
  using demo_start by (blast intro: started)

theorem bridge_reachable_safe_witness:
  "\<exists>tech. bridge_reachable tech \<and> (\<forall>e. ws_worker_turn tech e \<noteq> UB)"
  using started_bridge bridge_reachable_safe by blast

text \<open>
  One failed attempt ends the worker. A connection that is down is retried once, after the backoff;
  when that attempt does not connect, the worker returns, although nine of the ten attempts the
  bridge allows are left and nobody asked it to stop.
\<close>

lemma reconnect_gives_up_at_once:
  assumes "\<not> stopping tech" "\<not> w_stop e" "tech_ws tech = Some ws" "\<not> tech_ws_ready tech"
    and "tech_reconnect_enabled tech" "tech_reconnect_attempts tech = 0" "tech_reconnect_max tech = 10"
    and "\<forall>i. \<not> r_stop (w_reconnect e) i \<and> r_enabled (w_reconnect e) i"
    and "rtw_ws_connect_ex (tech_ws_uri tech) (tech_extra_headers tech) (r_connect (w_reconnect e)) = (None, tr)"
  shows "ws_worker tech (e # es) =
    Ret (Some ([], rtw_ws_close ws @ tr, tech\<lparr>tech_reconnect_attempts := 1, tech_ws := None\<rparr>))"
proof -
  have "sleep_interruptible_ms (r_stop (w_reconnect e)) (r_enabled (w_reconnect e)) n = (0, n)" for n
    using assms(8) by (simp add: sleep_interruptible_ms_def sleep_loop_done)
  then have "try_reconnect tech (w_reconnect e) =
      Some (- 1, [], rtw_ws_close ws @ tr, tech\<lparr>tech_reconnect_attempts := 1, tech_ws := None\<rparr>)"
    using assms by (simp add: try_reconnect_def close_ws_def Let_def)
  then show ?thesis
    using assms(1-4) by (simp add: ws_worker_turn_def worker_reconnect_def run_bind_def)
qed

definition down_env :: worker_env where
  "down_env = \<lparr>w_stop = False, w_poll = Poll_Timeout, w_realloc = True, w_text_mem = text_ok, w_texts = (\<lambda>_. quick_env),
     w_reconnect = \<lparr>r_stop = (\<lambda>_. False), r_enabled = (\<lambda>_. True), r_connect = example_env\<lparr>e_addrs := \<lambda>h p. None\<rparr>,
       r_stop_connected = False, r_lock = True, r_stop_locked = False, r_mem = all_ok, r_flush = []\<rparr>,
     w_stop_after = False, w_trylock = True, w_flush = []\<rparr>"

lemma reconnect_gives_up_at_once_example:
  "ws_worker (demo_bridge\<lparr>tech_ws_ready := False\<rparr>) [down_env, down_env] =
     Ret (Some ([], [Sock_Close 3], demo_bridge\<lparr>tech_ws_ready := False, tech_reconnect_attempts := 1, tech_ws := None\<rparr>))"
proof -
  let ?t = "demo_bridge\<lparr>tech_ws_ready := False\<rparr>"
  have c: "rtw_ws_connect_ex (tech_ws_uri ?t) (tech_extra_headers ?t) (r_connect (w_reconnect down_env)) = (None, [])"
    by (simp add: rtw_ws_connect_ex_def down_env_def split: option.splits)
  have "\<not> stopping ?t" "tech_reconnect_enabled ?t" "tech_reconnect_attempts ?t = 0" "tech_reconnect_max ?t = 10"
    by (simp_all add: demo_bridge_def stopping_def)
  from reconnect_gives_up_at_once [OF this(1) _ _ _ this(2-4) _ c, of example_client "[down_env]"] show ?thesis
    by (simp add: down_env_def rtw_ws_close_def example_client_def)
qed

definition is_secret :: "string \<times> cJSON \<Rightarrow> bool" where
  "is_secret = (\<lambda>(k, v). (k = ''authorization'' \<and> (\<exists>s. v = J_String s \<and> s \<noteq> [])) \<or> (k = ''ws_headers'' \<and> (\<exists>hs. v = J_Object hs)))"

definition auth_line :: "(string \<times> cJSON) list \<Rightarrow> string" where
  "auth_line ms = (case map_of ms ''authorization'' of
     Some (J_String v) \<Rightarrow> if v = [] then [] else header_line ''Authorization'' v | _ \<Rightarrow> [])"

definition header_lines :: "(string \<times> cJSON) list \<Rightarrow> string" where
  "header_lines ms = (case map_of ms ''ws_headers'' of
     Some (J_Object hs) \<Rightarrow> concat (map (\<lambda>(k, v). case v of J_String s \<Rightarrow> header_line k s | _ \<Rightarrow> []) hs) | _ \<Rightarrow> [])"

lemma get_member: "cJSON_GetObjectItemCaseSensitive (Some (J_Object ms)) name = map_of ms name"
  by (induction ms) (auto simp: cJSON_GetObjectItemCaseSensitive_def get_object_item_def)

lemma add_headers_ok:
  "\<forall>i. ok i \<Longrightarrow> add_headers hs hdr ok i =
    Some (hdr @ concat (map (\<lambda>(k, v). case v of J_String s \<Rightarrow> header_line k s | _ \<Rightarrow> []) hs))"
  by (induction hs hdr ok i rule: add_headers.induct) auto

text \<open>Deleting a member under a condition on its value, as the code does, is a filter.\<close>

lemma distinct_names:
  assumes "distinct (map (\<lambda>(k, _). map ascii_lower k) ms)"
  shows "map_of ms k = Some v \<longleftrightarrow> (k, v) \<in> set ms"
proof -
  have "distinct (map fst ms)"
    using assms by (induction ms) (auto simp: image_iff case_prod_beta)
  then show ?thesis by simp
qed

lemma delete_if:
  assumes "distinct (map (\<lambda>(k, _). map ascii_lower k) ms)"
  shows "(case map_of ms name of Some v \<Rightarrow> if P v then cJSON_DeleteItemFromObject (J_Object ms) name else J_Object ms
            | None \<Rightarrow> J_Object ms) = J_Object (filter (\<lambda>(k, v). \<not> (k = name \<and> P v)) ms)"
proof (cases "\<exists>v. map_of ms name = Some v \<and> P v")
  case True
  then obtain v where v: "map_of ms name = Some v" "P v" by blast
  have "k = name \<Longrightarrow> w = v" if "(k, w) \<in> set ms" for k w
    using that v(1) distinct_names [OF assms, of k w] by (metis option.inject)
  then have "filter (\<lambda>(k, v). \<not> (k = name \<and> P v)) ms = filter (\<lambda>(k, _). k \<noteq> name) ms"
    using v(2) by (intro filter_cong) auto
  then show ?thesis using v delete_member [OF assms map_of_SomeD [OF v(1)]] by simp
next
  case False
  then have "filter (\<lambda>(k, v). \<not> (k = name \<and> P v)) ms = ms"
    using distinct_names [OF assms, of name] by (auto simp: filter_id_conv)
  then show ?thesis using False by (auto split: option.splits)
qed

lemma map_of_filter_other: "a \<noteq> b \<Longrightarrow> map_of (filter (\<lambda>(k, v). \<not> (k = a \<and> P v)) ms) b = map_of ms b"
  by (induction ms) auto

definition is_auth :: "cJSON \<Rightarrow> bool" where
  "is_auth v \<longleftrightarrow> (\<exists>s. v = J_String s \<and> s \<noteq> [])"

definition is_object :: "cJSON \<Rightarrow> bool" where
  "is_object v \<longleftrightarrow> (\<exists>hs. v = J_Object hs)"


text \<open>A token, an extra header and a parameter for the peer.\<close>

definition demo_metadata :: string where
  "demo_metadata = map (\<lambda>c. if c = CHR 0x27 then QUOTE else c)
     ([CHR ''{'', CHR 0x27] @ ''authorization'' @ [CHR 0x27, CHR '':'', CHR 0x27] @ ''T'' @ [CHR 0x27, CHR '','', CHR 0x27] @
      ''lang'' @ [CHR 0x27, CHR '':'', CHR 0x27] @ ''en'' @ [CHR 0x27, CHR ''}''])"


definition leaky_metadata :: string where
  "leaky_metadata = map (\<lambda>c. if c = CHR 0x27 then QUOTE else c)
     ([CHR ''{'', CHR 0x27] @ ''Authorization'' @ [CHR 0x27, CHR '':'', CHR 0x27] @ ''x'' @ [CHR 0x27, CHR '','', CHR 0x27] @
      ''authorization'' @ [CHR 0x27, CHR '':'', CHR 0x27] @ ''key'' @ [CHR 0x27, CHR ''}''])"

text \<open>
  With a second name that differs in case only, the wrong member is deleted: the lookup of the
  credential minds case, its removal does not. Here the secret of \<open>authorization\<close> is used for the
  request and still sent to the peer among the parameters of the stream.
\<close>

lemma metadata_secret_forwarded:
  "\<exists>params. split_metadata leaky_metadata (st_meta (good_start [])) = Some (Some (header_line ''Authorization'' ''key''), Some params) \<and>
     cJSON_GetObjectItemCaseSensitive (cJSON_Parse params) ''authorization'' = Some (J_String ''key'')"
proof -
  let ?ms = "[(''Authorization'', J_String ''x''), (''authorization'', J_String ''key'')]"
  have p: "cJSON_Parse leaky_metadata = Some (J_Object ?ms)" by code_simp
  have d: "cJSON_DeleteItemFromObject (J_Object ?ms) ''authorization'' = J_Object [(''authorization'', J_String ''key'')]"
    by code_simp
  let ?v = "J_Object [(''authorization'', J_String ''key'')]"
  have "json_ok ?v" "nesting ?v \<le> 1000" by simp_all
  moreover obtain params where pr: "cJSON_PrintUnformatted ?v = Some params"
    using print_Some [OF \<open>json_ok ?v\<close>] by blast
  ultimately have "cJSON_Parse params = Some ?v" by (intro print_parse)
  moreover have "leaky_metadata \<noteq> []" by (simp add: leaky_metadata_def)
  ultimately show ?thesis
    using pr by (simp add: split_metadata_def p d get_member good_start_def header_line_def Let_def)
qed

end
