(* ===== verification/Mod_Realtime_Ws.thy ===== *)
theory Mod_Realtime_Ws
  imports Fs_Stub Rtw_Bridge_Correct
begin

text \<open>
  The module itself, \<open>src/mod/mod_realtime_ws.c\<close>, as built with FreeSWITCH: the callback of the media
  bug, starting and stopping the capture of a call, and the command \<open>uuid_realtime_ws\<close>.
  \<^item> The bridges live in a memory, a map from addresses; reading through an address that was freed is
    \<open>UB\<close>. A media bug is a number; FreeSWITCH keeps for each bug it has attached the call and the
    pointer the module gave it, and for each call the private value under \<open>RTW_BUG_NAME\<close>, a bug.
  \<^item> What FreeSWITCH and the C library answer is an argument: whether a call is found and has a channel,
    the outcomes of \<open>switch_channel_pre_answer\<close> and of adding and removing the bug, the address of a
    new bridge, the frames a bug reads, the splitting of a command.
  \<^item> What is written to the stream of a command is the list of its formatted writes; logging has no
    counterpart. The command always returns \<open>SWITCH_STATUS_SUCCESS\<close>.
\<close>

section \<open>Definitions\<close>

type_synonym addr = nat
type_synonym bug = nat

record switch_state =
  sw_heap :: "addr \<Rightarrow> rtw_tech_t option"
  sw_bugs :: "bug \<Rightarrow> (string \<times> addr option) option"
  sw_private :: "string \<Rightarrow> bug option"

abbreviation store :: "switch_state \<Rightarrow> addr \<Rightarrow> rtw_tech_t \<Rightarrow> switch_state" where
  "store st a tech \<equiv> st\<lparr>sw_heap := (sw_heap st)(a := Some tech)\<rparr>"

text \<open>Status, bytes on the wire, sockets opened and closed, and the state afterwards.\<close>

type_synonym outcome = "(switch_status_t \<times> bytes \<times> sock_event list \<times> switch_state) run"

definition deref :: "switch_state \<Rightarrow> addr \<Rightarrow> (rtw_tech_t \<Rightarrow> 'a c_exec) \<Rightarrow> 'a c_exec" where
  "deref st a f = (case sw_heap st a of None \<Rightarrow> UB | Some tech \<Rightarrow> f tech)"

text \<open>\<open>rtw_bridge_stop\<close> on an address: the bridge is freed, unless the flag says that it is being.\<close>

definition stop_bridge :: "switch_state \<Rightarrow> addr option \<Rightarrow> stop_env \<Rightarrow> outcome" where
  "stop_bridge st tech_ptr e =
     (case tech_ptr of
        None \<Rightarrow> Ret (Some (SWITCH_STATUS_FALSE, [], [], st))
      | Some a \<Rightarrow> deref st a (\<lambda>tech.
          if tech_cleanup_started tech then Ret (Some (SWITCH_STATUS_SUCCESS, [], [], st))
          else Ret (map_option (\<lambda>(out, tr, freed).
                 (SWITCH_STATUS_SUCCESS, out, tr, st\<lparr>sw_heap := (sw_heap st)(a := None)\<rparr>)) (rtw_bridge_stop tech e))))"

subsection \<open>Media bug\<close>

text \<open>
  The events of a media bug with what the callback obtains from FreeSWITCH: the frames read before a
  read fails, each with the outcomes it meets, and the frame to replace.
\<close>

datatype bug_event =
    Bug_Init
  | Bug_Close bool stop_env
  | Bug_Read "(int16 list \<times> bool \<times> (nat \<Rightarrow> alloc)) list"
  | Bug_Write_Replace "int16 list option" bool uint64
  | Bug_Write
  | Bug_Read_Replace

fun abc_type :: "bug_event \<Rightarrow> switch_abc_type_t" where
  "abc_type Bug_Init = SWITCH_ABC_TYPE_INIT"
| "abc_type (Bug_Close channel e) = SWITCH_ABC_TYPE_CLOSE"
| "abc_type (Bug_Read rds) = SWITCH_ABC_TYPE_READ"
| "abc_type (Bug_Write_Replace wframe lock now) = SWITCH_ABC_TYPE_WRITE_REPLACE"
| "abc_type Bug_Write = SWITCH_ABC_TYPE_WRITE"
| "abc_type Bug_Read_Replace = SWITCH_ABC_TYPE_READ_REPLACE"

text \<open>What the callback leaves: whether the bug goes on, the replacement frame, if it set one, and the rest.\<close>

record bug_result =
  br_continue :: bool
  br_frame :: "int16 list option"
  br_out :: bytes
  br_socks :: "sock_event list"
  br_state :: switch_state

definition bug_result :: "bool \<Rightarrow> switch_state \<Rightarrow> bug_result" where
  "bug_result go st = \<lparr>br_continue = go, br_frame = None, br_out = [], br_socks = [], br_state = st\<rparr>"

definition read_frames :: "(int16 list \<times> bool \<times> (nat \<Rightarrow> alloc)) list \<Rightarrow> rtw_tech_t \<Rightarrow> rtw_tech_t" where
  "read_frames rds tech =
     fold (\<lambda>(pcm, lock, mem) t. if pcm \<noteq> [] then rtw_bridge_on_read_pcm16 t pcm lock mem else t) rds tech"

definition capture_callback :: "switch_state \<Rightarrow> string \<Rightarrow> addr option \<Rightarrow> bug_event \<Rightarrow> bug_result run" where
  "capture_callback st sid user_data ev =
     (case ev of
        Bug_Close channel e \<Rightarrow>
          (case user_data of
             None \<Rightarrow> Ret (Some (bug_result True st))
           | Some a \<Rightarrow> deref st a (\<lambda>tech.
               let st1 = (if channel then st\<lparr>sw_private := (sw_private st)(sid := None)\<rparr> else st)
               in run_bind (stop_bridge st1 user_data e) (\<lambda>(status, out, tr, st2).
                    Ret (Some ((bug_result True st2)\<lparr>br_out := out, br_socks := tr\<rparr>)))))
      | Bug_Read rds \<Rightarrow>
          (case user_data of
             None \<Rightarrow> Ret (Some (bug_result False st))
           | Some a \<Rightarrow> deref st a (\<lambda>tech.
               if tech_close_requested tech \<or> tech_cleanup_started tech then Ret (Some (bug_result False st))
               else Ret (Some (bug_result True (store st a (read_frames rds tech))))))
      | Bug_Write_Replace wframe lock now \<Rightarrow>
          (case user_data of
             None \<Rightarrow> Ret (Some (bug_result True st))
           | Some a \<Rightarrow> deref st a (\<lambda>tech.
               case wframe of
                 None \<Rightarrow> Ret (Some (bug_result True st))
               | Some pcm \<Rightarrow>
                   if tech_close_requested tech \<or> tech_cleanup_started tech \<or> pcm = []
                   then Ret (Some (bug_result True st))
                   else (case rtw_bridge_apply_write_frame tech pcm lock now of (n, frame, t1) \<Rightarrow>
                     Ret (Some ((bug_result True (store st a t1))
                       \<lparr>br_frame := (if n > 0 then Some frame else None)\<rparr>)))))
      | _ \<Rightarrow> Ret (Some (bug_result True st)))"

text \<open>
  FreeSWITCH takes a bug off its call: it calls the callback with the close event and drops the bug.
\<close>

definition remove_bug :: "switch_state \<Rightarrow> bug \<Rightarrow> bool \<Rightarrow> stop_env \<Rightarrow> (bytes \<times> sock_event list \<times> switch_state) run" where
  "remove_bug st b channel e =
     (case sw_bugs st b of
        None \<Rightarrow> UB
      | Some (sid, user_data) \<Rightarrow>
          run_bind (capture_callback st sid user_data (Bug_Close channel e)) (\<lambda>r.
            Ret (Some (br_out r, br_socks r,
              (br_state r)\<lparr>sw_bugs := (sw_bugs (br_state r))(b := None)\<rparr>))))"

subsection \<open>Starting and stopping a capture\<close>

record capture_env =
  ce_channel :: bool
  ce_pre_answer :: switch_status_t
  ce_start :: start_env
  ce_addr :: addr
  ce_bug_add :: switch_status_t
  ce_bug :: bug
  ce_removed :: bool
  ce_stop :: stop_env

definition start_capture ::
  "switch_state \<Rightarrow> string \<Rightarrow> switch_media_bug_flag_t \<Rightarrow> string \<Rightarrow> int \<Rightarrow> string option \<Rightarrow> capture_env \<Rightarrow> outcome" where
  "start_capture st sid flags ws_uri sampling metadata e =
     (let channels = (if flags AND SMBF_STEREO \<noteq> 0 then 2 else 1); a = ce_addr e
      in if \<not> ce_channel e then Ret (Some (SWITCH_STATUS_FALSE, [], [], st))
         else if sw_private st sid \<noteq> None then Ret (Some (SWITCH_STATUS_FALSE, [], [], st))
         else if ce_pre_answer e \<noteq> SWITCH_STATUS_SUCCESS then Ret (Some (SWITCH_STATUS_FALSE, [], [], st))
         else run_bind (Ret (rtw_bridge_start ws_uri sampling channels metadata (ce_start e))) (\<lambda>(started, out, tr).
           case started of
             None \<Rightarrow> Ret (Some (SWITCH_STATUS_FALSE, out, tr, st))
           | Some tech \<Rightarrow>
               let st1 = store st a tech
               in if ce_bug_add e \<noteq> SWITCH_STATUS_SUCCESS
                  then run_bind (stop_bridge st1 (Some a) (ce_stop e)) (\<lambda>(status, out2, tr2, st2).
                         Ret (Some (ce_bug_add e, out @ out2, tr @ tr2, st2)))
                  else Ret (Some (SWITCH_STATUS_SUCCESS, out, tr,
                         st1\<lparr>sw_bugs := (sw_bugs st1)(ce_bug e := Some (sid, Some a)),
                             sw_private := (sw_private st1)(sid := Some (ce_bug e))\<rparr>))))"

text \<open>\<open>switch_core_media_bug_get_user_data\<close>: the pointer of a bug that is still attached.\<close>

definition bug_get_user_data :: "switch_state \<Rightarrow> bug \<Rightarrow> (addr option \<Rightarrow> 'a c_exec) \<Rightarrow> 'a c_exec" where
  "bug_get_user_data st b f = (case sw_bugs st b of None \<Rightarrow> UB | Some (sid, user_data) \<Rightarrow> f user_data)"

definition do_stop :: "switch_state \<Rightarrow> string \<Rightarrow> capture_env \<Rightarrow> outcome" where
  "do_stop st sid e =
     (if \<not> ce_channel e then Ret (Some (SWITCH_STATUS_FALSE, [], [], st))
      else case sw_private st sid of
        None \<Rightarrow> Ret (Some (SWITCH_STATUS_FALSE, [], [], st))
      | Some b \<Rightarrow> bug_get_user_data st b (\<lambda>tech_ptr.
          exec_bind (case tech_ptr of
              None \<Rightarrow> Ret st
            | Some a \<Rightarrow> deref st a (\<lambda>tech. Ret (store st a (tech\<lparr>tech_close_requested := True\<rparr>)))) (\<lambda>st1.
          let st2 = st1\<lparr>sw_private := (sw_private st1)(sid := None)\<rparr>
          in if ce_removed e
             then run_bind (remove_bug st2 b (ce_channel e) (ce_stop e)) (\<lambda>(out, tr, st3).
                    Ret (Some (SWITCH_STATUS_SUCCESS, out, tr, st3)))
             else Ret (Some (SWITCH_STATUS_SUCCESS, [], [], st2)))))"

text \<open>The entry points for other parts of FreeSWITCH.\<close>

definition rtw_mod_start_capture ::
  "switch_state \<Rightarrow> string \<Rightarrow> switch_media_bug_flag_t \<Rightarrow> string \<Rightarrow> int \<Rightarrow> string option \<Rightarrow> capture_env \<Rightarrow> outcome" where
  "rtw_mod_start_capture st sid flags ws_uri sampling metadata e = start_capture st sid flags ws_uri sampling metadata e"

definition rtw_mod_stop_capture :: "switch_state \<Rightarrow> string \<Rightarrow> capture_env \<Rightarrow> outcome" where
  "rtw_mod_stop_capture st sid e = do_stop st sid e"

definition rtw_mod_get_tech :: "switch_state \<Rightarrow> string option \<Rightarrow> bool \<Rightarrow> addr option c_exec" where
  "rtw_mod_get_tech st session channel =
     (case session of
        None \<Rightarrow> Ret None
      | Some sid \<Rightarrow>
          if \<not> channel then Ret None
          else (case sw_private st sid of
                  None \<Rightarrow> Ret None
                | Some b \<Rightarrow> bug_get_user_data st b Ret))"

subsection \<open>The command line\<close>

abbreviation NEWLINE :: char where
  "NEWLINE \<equiv> CHR 0x0A"

text \<open>\<open>strchr(cmd, '{')\<close>: what is before the first brace, and the text from the brace on.\<close>

definition extract_metadata_json :: "string \<Rightarrow> string \<times> string option" where
  "extract_metadata_json cmd =
     (takeWhile (\<lambda>c. c \<noteq> CHR ''{'') cmd,
      if CHR ''{'' \<in> set cmd then Some (dropWhile (\<lambda>c. c \<noteq> CHR ''{'') cmd) else None)"

text \<open>
  The tokens of a command and the metadata. Blanks before the brace cut the tokens off there;
  otherwise the metadata is what the splitting left in the buffer from the brace on.
\<close>

definition split_command :: "(string \<Rightarrow> char \<Rightarrow> nat \<Rightarrow> string list \<times> string) \<Rightarrow> string \<Rightarrow> string list \<times> string option" where
  "split_command separate mycmd =
     (case extract_metadata_json mycmd of
        (before, None) \<Rightarrow> (fst (separate mycmd (CHR '' '') 6), None)
      | (before, Some brace) \<Rightarrow>
          if before \<noteq> [] \<and> last before = CHR '' ''
          then (fst (separate (rev (dropWhile (\<lambda>c. c = CHR '' '') (rev before))) (CHR '' '') 6), Some brace)
          else (case separate mycmd (CHR '' '') 6 of
                  (argv, buf) \<Rightarrow> (argv, Some (c_str (drop (length before) buf)))))"

definition strcasecmp_eq :: "string \<Rightarrow> string \<Rightarrow> bool" where
  "strcasecmp_eq a b \<longleftrightarrow> map ascii_lower a = map ascii_lower b"

definition RTW_API_SYNTAX :: string where
  "RTW_API_SYNTAX = ''<uuid> [start|stop|pause|resume|clear|send_mark|status] [ws-url] [mono|mixed|stereo] [8k|16k] [{metadata-json}]''"

definition usage_line :: string where
  "usage_line = ''-USAGE: '' @ RTW_API_SYNTAX @ [NEWLINE]"

definition show_bool :: "bool \<Rightarrow> string" where
  "show_bool b = (if b then ''1'' else ''0'')"

definition show_u64 :: "uint64 \<Rightarrow> string" where
  "show_u64 w = show_nat (unat w)"

definition status_line :: "rtw_bridge_stats_t \<Rightarrow> string" where
  "status_line s =
     ''+OK streamSid='' @ stats_stream_sid s @ '' callSid='' @ stats_call_sid s @
     '' ws_ready='' @ show_bool (stats_ws_ready s) @
     '' uplink='' @ show_u64 (stats_uplink_frames s) @ '' downlink='' @ show_u64 (stats_downlink_frames s) @
     '' clears='' @ show_u64 (stats_clear_events s) @
     '' clear_last_us='' @ show_u64 (stats_clear_latency_last_us s) @
     '' clear_max_us='' @ show_u64 (stats_clear_latency_max_us s) @
     '' clear_avg_us='' @ show_u64 (stats_clear_latency_avg_us s) @
     '' clear_samples='' @ show_u64 (stats_clear_latency_samples s) @
     '' q='' @ show_nat (stats_outbound_queue s) @ '' playout='' @ show_nat (stats_playout_bytes s) @
     '' reconnects='' @ show_u64 (stats_reconnect_ok s) @
     '' inject='' @ (case stats_inject_mode s of RTW_INJECT_REPLACE \<Rightarrow> ''0'' | RTW_INJECT_MIX \<Rightarrow> ''1'') @
     '' record_injected='' @ show_bool (stats_record_injected s) @ [NEWLINE]"

text \<open>What the arguments of a start ask for, with the checks in the order of the code.\<close>

datatype start_args = Start_Usage | Start_Invalid_Mix | Start_Invalid_Rate | Start_Invalid_Uri
  | Start_With switch_media_bug_flag_t string int

definition mix_flags :: "string \<Rightarrow> switch_media_bug_flag_t option" where
  "mix_flags mix =
     (let flags = SMBF_READ_STREAM OR SMBF_WRITE_REPLACE
      in if mix = ''mixed'' then Some (flags OR SMBF_WRITE_STREAM)
         else if mix = ''stereo'' then Some (flags OR SMBF_WRITE_STREAM OR SMBF_STEREO)
         else if mix = ''mono'' then Some flags
         else None)"

definition parse_rate :: "string list \<Rightarrow> int" where
  "parse_rate argv =
     (if length argv > 4
      then (if argv ! 4 = ''16k'' \<or> argv ! 4 = ''16000'' then 16000
            else if argv ! 4 = ''8k'' \<or> argv ! 4 = ''8000'' then 8000
            else atoi (argv ! 4))
      else 8000)"

definition parse_start :: "bool \<Rightarrow> string list \<Rightarrow> start_args" where
  "parse_start has_openssl argv =
     (if length argv < 4 then Start_Usage
      else case mix_flags (argv ! 3) of
        None \<Rightarrow> Start_Invalid_Mix
      | Some flags \<Rightarrow>
          if \<not> 8000 dvd parse_rate argv then Start_Invalid_Rate
          else (case rtw_validate_ws_uri has_openssl (argv ! 2) RTW_MAX_WS_URI of
                  None \<Rightarrow> Start_Invalid_Uri
                | Some wsUri \<Rightarrow> Start_With flags wsUri (parse_rate argv)))"

text \<open>
  What a command meets: the copy of its text, the splitting, the call with this name, whether the build
  has OpenSSL, the mutex for pause and status, and the outcomes for the other subcommands.
\<close>

record command_env =
  k_strdup :: bool
  k_separate :: "string \<Rightarrow> char \<Rightarrow> nat \<Rightarrow> string list \<times> string"
  k_locate :: "string \<Rightarrow> string option"
  k_openssl :: bool
  k_lock :: bool
  k_text :: text_env
  k_capture :: capture_env

text \<open>
  A subcommand leaves its writes to the stream and whether the status line is still to be written
  (\<open>None\<close> where the code jumps to the end); then come wire, sockets and state.
\<close>

type_synonym command_outcome =
  "(string list \<times> switch_status_t option \<times> bytes \<times> sock_event list \<times> switch_state) run"

definition of_outcome :: "outcome \<Rightarrow> command_outcome" where
  "of_outcome m = run_bind m (\<lambda>(status, out, tr, st). Ret (Some ([], Some status, out, tr, st)))"

text \<open>The bridge of a call; without one the subcommand fails. A call always has its channel here.\<close>

definition with_tech :: "switch_state \<Rightarrow> string \<Rightarrow> (addr \<Rightarrow> command_outcome) \<Rightarrow> command_outcome" where
  "with_tech st sid f =
     (let failed = Ret (Some ([], Some SWITCH_STATUS_FALSE, [], [], st))
      in case sw_private st sid of
           None \<Rightarrow> failed
         | Some b \<Rightarrow> bug_get_user_data st b (\<lambda>tech_ptr.
             case tech_ptr of None \<Rightarrow> failed | Some a \<Rightarrow> f a))"

definition of_ok :: "bool \<Rightarrow> switch_status_t" where
  "of_ok ok = (if ok then SWITCH_STATUS_SUCCESS else SWITCH_STATUS_FALSE)"

definition pause_command :: "switch_state \<Rightarrow> string \<Rightarrow> bool \<Rightarrow> bool \<Rightarrow> command_outcome" where
  "pause_command st sid pause lock = with_tech st sid (\<lambda>a. deref st a (\<lambda>tech.
     case rtw_bridge_pause tech pause lock of (ok, t1) \<Rightarrow> Ret (Some ([], Some (of_ok ok), [], [], store st a t1))))"

definition bridge_command ::
  "switch_state \<Rightarrow> string \<Rightarrow> (rtw_tech_t \<Rightarrow> (bool \<times> bytes \<times> rtw_tech_t) run) \<Rightarrow> command_outcome" where
  "bridge_command st sid act = with_tech st sid (\<lambda>a. deref st a (\<lambda>tech.
     run_bind (act tech) (\<lambda>(ok, out, t1). Ret (Some ([], Some (of_ok ok), out, [], store st a t1)))))"

definition status_command :: "switch_state \<Rightarrow> string \<Rightarrow> bool \<Rightarrow> command_outcome" where
  "status_command st sid lock = with_tech st sid (\<lambda>a. deref st a (\<lambda>tech.
     case rtw_bridge_get_stats tech lock of
       Some stats \<Rightarrow> Ret (Some ([status_line stats], None, [], [], st))
     | None \<Rightarrow> Ret (Some ([], Some SWITCH_STATUS_FALSE, [], [], st))))"

definition start_command :: "switch_state \<Rightarrow> string \<Rightarrow> string list \<Rightarrow> string option \<Rightarrow> command_env \<Rightarrow> command_outcome" where
  "start_command st sid argv metadata e =
     (case parse_start (k_openssl e) argv of
        Start_Usage \<Rightarrow> Ret (Some ([usage_line], None, [], [], st))
      | Start_Invalid_Mix \<Rightarrow> Ret (Some ([''-ERR invalid mix type'' @ [NEWLINE]], None, [], [], st))
      | Start_Invalid_Rate \<Rightarrow>
          Ret (Some ([''-ERR invalid sample rate'' @ [NEWLINE]], Some SWITCH_STATUS_FALSE, [], [], st))
      | Start_Invalid_Uri \<Rightarrow>
          Ret (Some ([''-ERR invalid ws uri (need ws:// or wss:// with OpenSSL build)'' @ [NEWLINE]],
            Some SWITCH_STATUS_FALSE, [], [], st))
      | Start_With flags wsUri sampling \<Rightarrow>
          of_outcome (start_capture st sid flags wsUri sampling metadata (k_capture e)))"

definition dispatch_command :: "switch_state \<Rightarrow> string \<Rightarrow> string list \<Rightarrow> string option \<Rightarrow> command_env \<Rightarrow> command_outcome" where
  "dispatch_command st sid argv metadata e =
     (let sub = argv ! 1
      in if strcasecmp_eq sub ''stop'' then of_outcome (do_stop st sid (k_capture e))
         else if strcasecmp_eq sub ''pause'' \<or> strcasecmp_eq sub ''resume''
         then pause_command st sid (strcasecmp_eq sub ''pause'') (k_lock e)
         else if strcasecmp_eq sub ''clear'' then bridge_command st sid (\<lambda>tech. rtw_bridge_clear tech (k_text e))
         else if strcasecmp_eq sub ''send_mark''
         then (if length argv > 2
               then bridge_command st sid (\<lambda>tech. rtw_bridge_send_mark tech (argv ! 2) (k_text e))
               else with_tech st sid (\<lambda>a. Ret (Some ([], Some SWITCH_STATUS_FALSE, [], [], st))))
         else if strcasecmp_eq sub ''status'' then status_command st sid (k_lock e)
         else if strcasecmp_eq sub ''start'' then start_command st sid argv metadata e
         else Ret (Some ([''-ERR unknown subcommand'' @ [NEWLINE]], Some SWITCH_STATUS_FALSE, [], [], st)))"

text \<open>The writes to the stream, bytes on the wire, sockets, and the state afterwards.\<close>

definition uuid_realtime_ws_function ::
  "switch_state \<Rightarrow> string option \<Rightarrow> command_env \<Rightarrow> (string list \<times> bytes \<times> sock_event list \<times> switch_state) run" where
  "uuid_realtime_ws_function st cmd e =
     (case cmd of
        None \<Rightarrow> Ret (Some ([usage_line], [], [], st))
      | Some text \<Rightarrow>
          if text = [] then Ret (Some ([usage_line], [], [], st))
          else if \<not> k_strdup e then Ret (Some ([''-ERR oom'' @ [NEWLINE]], [], [], st))
          else case split_command (k_separate e) text of (argv, metadata) \<Rightarrow>
            if length argv < 2 then Ret (Some ([usage_line], [], [], st))
            else case k_locate e (argv ! 0) of
              None \<Rightarrow> Ret (Some ([''-ERR cannot locate session'' @ [NEWLINE]], [], [], st))
            | Some sid \<Rightarrow>
                run_bind (dispatch_command st sid argv metadata e) (\<lambda>(writes, status, out, tr, st1).
                  Ret (Some (writes @ (case status of
                      None \<Rightarrow> []
                    | Some s \<Rightarrow> if s = SWITCH_STATUS_SUCCESS then [''+OK Success'' @ [NEWLINE]]
                                else [''-ERR Operation Failed'' @ [NEWLINE]]), out, tr, st1))))"

subsection \<open>Loading and unloading\<close>

definition RTW_EVENT_CONNECT :: string where "RTW_EVENT_CONNECT = ''mod_realtime_ws::connect''"
definition RTW_EVENT_DISCONNECT :: string where "RTW_EVENT_DISCONNECT = ''mod_realtime_ws::disconnect''"
definition RTW_EVENT_ERROR :: string where "RTW_EVENT_ERROR = ''mod_realtime_ws::error''"
definition RTW_EVENT_JSON :: string where "RTW_EVENT_JSON = ''mod_realtime_ws::json''"

text \<open>Loading and unloading answer \<open>SWITCH_STATUS_SUCCESS\<close> after these calls of FreeSWITCH, in order.\<close>

datatype switch_call =
    Reserve_Subclass string
  | Free_Subclass string
  | Add_Api string string string
  | Set_Complete string

definition mod_realtime_ws_load :: "switch_call list" where
  "mod_realtime_ws_load =
     map Reserve_Subclass [RTW_EVENT_CONNECT, RTW_EVENT_DISCONNECT, RTW_EVENT_ERROR, RTW_EVENT_JSON] @
     [Add_Api ''uuid_realtime_ws'' ''Realtime WS Twilio-compatible media bridge'' RTW_API_SYNTAX] @
     map (\<lambda>sub. Set_Complete (''add uuid_realtime_ws ::console::list_uuid '' @ sub)) [''start'', ''stop'', ''clear'', ''status'']"

definition mod_realtime_ws_shutdown :: "switch_call list" where
  "mod_realtime_ws_shutdown =
     map Free_Subclass [RTW_EVENT_CONNECT, RTW_EVENT_DISCONNECT, RTW_EVENT_ERROR, RTW_EVENT_JSON]"

end
