(* ===== verification/Rtw_Bridge_Sockets.thy ===== *)
theory Rtw_Bridge_Sockets
  imports Rtw_Bridge_Correct
begin

text \<open>
  The sockets of a bridge (\<open>src/mod/rtw_bridge.c\<close>, \<open>src/core/rtw_ws_client.c\<close>): what every operation opens
  and closes, balanced against the one socket the bridge holds, over a whole life from start to stop
  with any number of reconnects in between.
\<close>

section \<open>Sockets\<close>

text \<open>What holds of every result of an action that returns.\<close>

definition run_post :: "('a \<Rightarrow> bool) \<Rightarrow> 'a run \<Rightarrow> bool" where
  "run_post P m \<longleftrightarrow> (\<forall>x. m = Ret (Some x) \<longrightarrow> P x)"

lemma run_post_Ret [intro!]: "(\<And>x. r = Some x \<Longrightarrow> P x) \<Longrightarrow> run_post P (Ret r)"
  by (auto simp: run_post_def)

lemma run_post_bind [intro?]:
  assumes "run_post P m" "\<And>x. P x \<Longrightarrow> run_post Q (f x)" shows "run_post Q (run_bind m f)"
  using assms by (cases m) (auto simp: run_post_def run_bind_def exec_bind_def split: option.splits)

lemma run_postD: "run_post P m \<Longrightarrow> m = Ret (Some x) \<Longrightarrow> P x"
  by (simp add: run_post_def)

text \<open>The socket a bridge holds.\<close>

definition held :: "rtw_tech_t \<Rightarrow> nat multiset" where
  "held tech = shut (close_ws tech)"

lemma held_ws: "held tech = (case tech_ws tech of None \<Rightarrow> {#} | Some c \<Rightarrow> shut (rtw_ws_close c))"
  by (simp add: held_def close_ws_def split: option.splits)

lemma held_cong: "tech_ws t2 = tech_ws tech \<Longrightarrow> held t2 = held tech"
  by (simp add: held_ws)

lemma close_opens_none [simp]: "opened (rtw_ws_close c) = {#}" "opened (close_ws tech) = {#}"
  by (simp_all add: rtw_ws_close_def close_ws_def split: option.splits)

lemma flush_loop_ws: "flush_loop tech ws es = Some (out, t2) \<Longrightarrow> tech_ws t2 = tech_ws tech"
proof (induction es arbitrary: tech out)
  case (Cons e es)
  then show ?case
    by (auto simp: rtw_session_peek_outbound_def Let_def split: option.splits if_splits)
qed simp

lemma flush_outbound_ws: "flush_outbound tech es = Some (out, t2) \<Longrightarrow> tech_ws t2 = tech_ws tech"
  using flush_loop_ws by (auto simp: flush_outbound_def split: option.splits if_splits)

lemma peer_json_ws: "run_post (\<lambda>(out, t). tech_ws t = tech_ws tech) (peer_json tech json e)"
  by (cases "rtw_session_handle_peer_json (tech_session tech) json (x_malloc e) (x_now e) (x_mem e)")
    (auto simp: peer_json_def run_post_def dest: flush_outbound_ws)

lemma on_ws_text_ws: "run_post (\<lambda>(out, t). tech_ws t = tech_ws tech) (on_ws_text tech txt e)"
  using peer_json_ws by (auto simp: on_ws_text_def)

lemma dispatch_ws: "run_post (\<lambda>(out, t). tech_ws t = tech_ws tech) (dispatch tech evs e i)"
proof (induction tech evs e i rule: dispatch.induct)
  case (3 tech m evs e i)
  show ?case
    unfolding dispatch.simps
  proof (rule run_post_bind [OF on_ws_text_ws])
    fix x :: "bytes \<times> rtw_tech_t"
    assume x: "case x of (out, t) \<Rightarrow> tech_ws t = tech_ws tech"
    obtain out1 t1 where x1: "x = (out1, t1)" by fastforce
    show "run_post (\<lambda>(out, t). tech_ws t = tech_ws tech)
        (case x of (out1, t1) \<Rightarrow> run_bind (dispatch t1 evs e (Suc i)) (\<lambda>(out2, t2). Ret (Some (out1 @ out2, t2))))"
      unfolding x1 prod.case
      by (rule run_post_bind [OF 3]) (use x x1 in auto)
  qed
qed (auto simp: on_ws_close_def)

lemma try_reconnect_cases:
  assumes "try_reconnect tech e = Some (rc, out, tr, t2)"
    and "rtw_ws_connect_ex (tech_ws_uri tech) (tech_extra_headers tech) (r_connect e) = (res, tr1)"
  shows "tr = [] \<and> tech_ws t2 = tech_ws tech \<or>
    res = None \<and> tr = close_ws tech @ tr1 \<and> tech_ws t2 = None \<or>
    (\<exists>c. res = Some c \<and> tr = close_ws tech @ tr1 @ rtw_ws_close c \<and> tech_ws t2 = None) \<or>
    (\<exists>c. res = Some c \<and> tr = close_ws tech @ tr1 \<and> tech_ws t2 = Some c)"
proof -
  have w: "close_ws (tech\<lparr>tech_reconnect_attempts := n\<rparr>) = close_ws tech" for n by (simp add: close_ws_def)
  show ?thesis
    using assms w
    by (cases res) (auto simp: try_reconnect_def Let_def split: if_splits dest!: flush_outbound_ws)
qed

lemma try_reconnect_balance:
  assumes "try_reconnect tech e = Some (rc, out, tr, t2)"
  shows "opened tr + held tech = shut tr + held t2"
proof -
  obtain res tr1 where c: "rtw_ws_connect_ex (tech_ws_uri tech) (tech_extra_headers tech) (r_connect e) = (res, tr1)" by fastforce
  have new: "shut (rtw_ws_close c) = {#nat (c_fd c)#}" if "res = Some c" for c
    using connect_balance(2) [OF c that] by (simp add: rtw_ws_close_def)
  show ?thesis
    using try_reconnect_cases [OF assms c] connect_balance(1) [OF c] new
    by (elim disjE exE conjE) (auto simp: held_ws close_ws_def split: option.splits)
qed

lemma poll_fd: "rtw_ws_poll c pr rok mem = (rc, evs, c2) \<Longrightarrow> c_fd c2 = c_fd c"
  by (auto simp: rtw_ws_poll_def ensure_rx_cap_def process_frames_def Let_def split: if_splits poll_result.splits prod.splits)

lemma worker_turn_balance:
  assumes "ws_worker_turn tech e = Ret (Some (go, out, tr, t2))"
  shows "opened tr + held tech = shut tr + held t2"
proof -
  let ?P = "\<lambda>w (go, out, tr, t2). opened tr + w = shut tr + held t2"
  have rec: "run_post (?P (held t)) (worker_reconnect t e')" for t e'
    using try_reconnect_balance by (auto simp: worker_reconnect_def)
  have fl: "run_post (?P (held t)) (worker_flush t e)" for t
    using flush_outbound_ws by (auto simp: worker_flush_def intro!: arg_cong [of _ _ shut] held_cong [symmetric])
  have "run_post (?P (held tech)) (ws_worker_turn tech e)"
  proof (cases "tech_ws tech")
    case None
    then show ?thesis using fl by (auto simp: ws_worker_turn_def)
  next
    case (Some ws)
    obtain rc evs ws1 where p: "rtw_ws_poll ws (w_poll e) (w_realloc e) (w_text_mem e) = (rc, evs, ws1)"
      by (cases "rtw_ws_poll ws (w_poll e) (w_realloc e) (w_text_mem e)")
    have same: "held t1 = held tech" if "tech_ws t1 = Some ws1" for t1
      using that Some poll_fd [OF p] by (simp add: held_ws rtw_ws_close_def)
    have "run_post (?P (held tech)) (run_bind (dispatch (tech\<lparr>tech_ws := Some ws1\<rparr>) evs (w_texts e) 0) (\<lambda>(out1, t1).
        run_bind (if rc < 0 then worker_reconnect (t1\<lparr>tech_ws_ready := False\<rparr>) (w_reconnect e) else worker_flush t1 e)
          (\<lambda>(more, out2, tr, t2). Ret (Some (more, out1 @ out2, tr, t2)))))"
    proof (rule run_post_bind [OF dispatch_ws])
      fix x :: "bytes \<times> rtw_tech_t" assume "case x of (out, t) \<Rightarrow> tech_ws t = tech_ws (tech\<lparr>tech_ws := Some ws1\<rparr>)"
      then obtain out1 t1 where x: "x = (out1, t1)" "tech_ws t1 = Some ws1" by (cases x) auto
      have h: "held t1 = held tech" "held (t1\<lparr>tech_ws_ready := False\<rparr>) = held tech" using x(2) by (simp_all add: same)
      have "run_post (?P (held tech)) (if rc < 0 then worker_reconnect (t1\<lparr>tech_ws_ready := False\<rparr>) (w_reconnect e) else worker_flush t1 e)"
        using rec [of "t1\<lparr>tech_ws_ready := False\<rparr>"] fl [of t1] h by simp
      then show "run_post (?P (held tech)) (case x of (out1, t1) \<Rightarrow>
        run_bind (if rc < 0 then worker_reconnect (t1\<lparr>tech_ws_ready := False\<rparr>) (w_reconnect e) else worker_flush t1 e)
          (\<lambda>(more, out2, tr, t2). Ret (Some (more, out1 @ out2, tr, t2))))"
        unfolding x(1) prod.case by (rule run_post_bind) auto
    qed
    then show ?thesis using rec by (auto simp: ws_worker_turn_def Some p)
  qed
  from run_postD [OF this assms] show ?thesis by simp
qed

text \<open>
  A life of a bridge with the sockets it opened and closed so far: its start, turns of the worker, and
  what the other threads do in between, which touches no socket.
\<close>

inductive bridge_trace :: "rtw_tech_t \<Rightarrow> sock_event list \<Rightarrow> bool" where
  begun: "rtw_bridge_start ws_uri sampling channels metadata e = Some (Some tech, out, tr) \<Longrightarrow> bridge_trace tech tr"
| turn: "bridge_trace tech tr \<Longrightarrow> ws_worker_turn tech e = Ret (Some (go, out, tr2, t2)) \<Longrightarrow> bridge_trace t2 (tr @ tr2)"
| audio_in: "bridge_trace tech tr \<Longrightarrow> bridge_trace (rtw_bridge_on_read_pcm16 tech pcm lock mem) tr"
| audio_out: "bridge_trace tech tr \<Longrightarrow> rtw_bridge_apply_write_frame tech pcm lock now = (n, frame, t2) \<Longrightarrow> bridge_trace t2 tr"
| paused: "bridge_trace tech tr \<Longrightarrow> rtw_bridge_pause tech p lock = (ok, t2) \<Longrightarrow> bridge_trace t2 tr"
| cleared: "bridge_trace tech tr \<Longrightarrow> rtw_bridge_clear tech te = Ret (Some (ok, out, t2)) \<Longrightarrow> bridge_trace t2 tr"
| marked: "bridge_trace tech tr \<Longrightarrow> rtw_bridge_send_mark tech name te = Ret (Some (ok, out, t2)) \<Longrightarrow> bridge_trace t2 tr"
| asked_to_close: "bridge_trace tech tr \<Longrightarrow> bridge_trace (tech\<lparr>tech_close_requested := True\<rparr>) tr"

lemma bridge_trace_reachable: "bridge_trace tech tr \<Longrightarrow> bridge_reachable tech"
  by (induction rule: bridge_trace.induct) (blast intro: bridge_reachable.intros bridge_step.intros)+

lemma bridge_start_balance:
  assumes "rtw_bridge_start ws_uri sampling channels metadata e = Some (res, out, tr)"
  shows "opened tr = shut tr + (case res of None \<Rightarrow> {#} | Some tech \<Rightarrow> held tech)"
proof (cases "start_session (init_tech ws_uri sampling channels metadata e) e")
  case (Some t1)
  obtain c tr1 where c: "rtw_ws_connect_ex ws_uri (tech_extra_headers t1) (st_connect e) = (c, tr1)" by fastforce
  have new: "shut (rtw_ws_close d) = {#nat (c_fd d)#}" if "c = Some d" for d
    using connect_balance(2) [OF c that] by (simp add: rtw_ws_close_def)
  show ?thesis
    using assms Some c connect_balance(1) [OF c] new
    by (cases c) (auto simp: rtw_bridge_start_def held_ws split: if_splits dest!: flush_outbound_ws)
qed (use assms in \<open>auto simp: rtw_bridge_start_def split: if_splits\<close>)

lemma locked_json_ws: "run_post (\<lambda>(ok, out, t). tech_ws t = tech_ws tech) (locked_json tech json e)"
  by (auto simp: locked_json_def intro!: run_post_bind [OF peer_json_ws])

lemma command_ws:
  "run_post (\<lambda>(ok, out, t). tech_ws t = tech_ws tech) (rtw_bridge_clear tech e)"
  "run_post (\<lambda>(ok, out, t). tech_ws t = tech_ws tech) (rtw_bridge_send_mark tech name e)"
  using locked_json_ws by (auto simp: rtw_bridge_clear_def rtw_bridge_send_mark_def)

lemma bridge_trace_balance: "bridge_trace tech tr \<Longrightarrow> opened tr = shut tr + held tech"
proof (induction rule: bridge_trace.induct)
  case (begun ws_uri sampling channels metadata e tech out tr)
  from bridge_start_balance [OF this] show ?case by simp
next
  case (turn tech tr e go out tr2 t2)
  from worker_turn_balance [OF turn(2)] turn(3) show ?case by (metis opened_append shut_append add.assoc add.commute)
next
  case (audio_in tech tr pcm lock mem)
  have "held (rtw_bridge_on_read_pcm16 tech pcm lock mem) = held tech"
    by (rule held_cong) (simp add: rtw_bridge_on_read_pcm16_def Let_def split: prod.split)
  with audio_in show ?case by simp
next
  case (audio_out tech tr pcm lock now n frame t2)
  have "held t2 = held tech"
    using audio_out(2) by (intro held_cong)
      (auto simp: rtw_bridge_apply_write_frame_def Let_def split: if_splits prod.splits rtw_inject_mode_t.splits)
  with audio_out show ?case by simp
next
  case (paused tech tr p lock ok t2)
  have "held t2 = held tech"
    using paused(2) by (intro held_cong) (auto simp: rtw_bridge_pause_def split: if_splits)
  with paused show ?case by simp
next
  case (cleared tech tr te ok out t2)
  from run_postD [OF command_ws(1) cleared(2)] cleared(3) held_cong [of t2 tech] show ?case by simp
next
  case (marked tech tr name te ok out t2)
  from run_postD [OF command_ws(2) marked(2)] marked(3) held_cong [of t2 tech] show ?case by simp
next
  case (asked_to_close tech tr)
  then show ?case by (simp add: held_ws)
qed

lemma map_option_pair: "map_option (\<lambda>(a, b). (a, f b, g b)) m = Some (x, y, z) \<Longrightarrow> \<exists>b. m = Some (x, b) \<and> y = f b"
  by auto

lemma bridge_stop_socks:
  assumes "rtw_bridge_stop tech e = Some (out, tr, freed)" "\<not> tech_cleanup_started tech"
  shows "tr = close_ws tech"
proof -
  let ?t = "tech\<lparr>tech_cleanup_started := True, tech_close_requested := True, tech_reconnect_enabled := False,
    tech_worker_started := False\<rparr>"
  let ?t1 = "?t\<lparr>tech_session := snd (rtw_session_stop (tech_session ?t) (sp_mem e)),
    tech_ws_ready := (tech_ws ?t \<noteq> None \<or> tech_ws_ready ?t)\<rparr>"
  have "\<exists>t2. (if sp_lock e then flush_outbound ?t1 (sp_flush e) else Some ([], ?t)) = Some (out, t2) \<and> tr = close_ws t2"
    by (rule map_option_pair [where g = "\<lambda>t. fst (rtw_session_destroy (tech_session t))" and z = freed])
      (use assms in \<open>simp only: rtw_bridge_stop_def Let_def if_False\<close>)
  then obtain t2 where t2: "(if sp_lock e then flush_outbound ?t1 (sp_flush e) else Some ([], ?t)) = Some (out, t2)" "tr = close_ws t2"
    by blast
  have "tech_ws t2 = tech_ws tech"
    using t2(1) flush_outbound_ws [of ?t1 "sp_flush e" out t2] by (auto split: if_splits)
  then show ?thesis using t2(2) by (simp add: close_ws_def)
qed

text \<open>
  C17: No socket is leaked, by any life of a bridge. Once a bridge is stopped, whatever its worker (with any
  number of reconnects), its media threads and its commands did before, every socket it ever opened
  has been closed again; and a start that fails has closed what it opened.
\<close>

theorem bridge_no_socket_leak:
  assumes "bridge_trace tech tr" "rtw_bridge_stop tech e = Some (out, tr2, freed)"
  shows "opened (tr @ tr2) = shut (tr @ tr2) \<and>
    (\<forall>ws_uri sampling channels metadata env out tr3.
       rtw_bridge_start ws_uri sampling channels metadata env = Some (None, out, tr3) \<longrightarrow> opened tr3 = shut tr3)"
proof -
  have "\<not> tech_cleanup_started tech"
    using bridge_invD(6) [OF bridge_reachable_inv [OF bridge_trace_reachable [OF assms(1)]]] .
  with bridge_stop_socks [OF assms(2)] bridge_trace_balance [OF assms(1)] bridge_start_balance show ?thesis
    by (fastforce simp: held_def)
qed

lemma started_trace: "\<exists>tech tr. bridge_trace tech tr"
  using started_bridge
proof
  fix tech assume "bridge_reachable tech"
  then show ?thesis by (induction rule: bridge_reachable.induct) (blast intro: begun)+
qed

theorem bridge_no_socket_leak_witness:
  "\<exists>tech tr freed. bridge_trace tech tr \<and>
     rtw_bridge_stop tech \<lparr>sp_lock = False, sp_mem = (True, True), sp_flush = []\<rparr> = Some ([], close_ws tech, freed) \<and>
     opened (tr @ close_ws tech) = shut (tr @ close_ws tech)"
proof -
  obtain tech tr where t: "bridge_trace tech tr" using started_trace by blast
  let ?e = "\<lparr>sp_lock = False, sp_mem = (True, True), sp_flush = []\<rparr>"
  have "\<not> tech_cleanup_started tech"
    using bridge_invD(6) [OF bridge_reachable_inv [OF bridge_trace_reachable [OF t]]] .
  then have "rtw_bridge_stop tech ?e = Some ([], close_ws tech, fst (rtw_session_destroy (tech_session tech)))"
    by (simp add: rtw_bridge_stop_def close_ws_def Let_def)
  with t bridge_no_socket_leak [OF t this] show ?thesis by blast
qed

end
