(* ===== verification/Mod_Realtime_Ws_Correct.thy ===== *)
theory Mod_Realtime_Ws_Correct
  imports Mod_Realtime_Ws Rtw_Bridge_Sockets
begin

text \<open>
  Lemmas and properties of the module \<open>src/mod/mod_realtime_ws.c\<close>: the invariant of calls, bugs and bridges,
  what each operation does to it, the states the module can reach, memory safety, the separation of
  calls, and the command line.
\<close>

section \<open>Invariant\<close>

text \<open>
  The pointers of a state are what their types promise: the private value of a call is a bug attached to
  this call, the pointer of a bug is a live bridge that is well formed and not being stopped, no two
  bugs share a bridge, and no bridge is left without its bug.
\<close>

definition switch_inv :: "switch_state \<Rightarrow> bool" where
  "switch_inv st \<longleftrightarrow>
     (\<forall>sid b. sw_private st sid = Some b \<longrightarrow> (\<exists>a. sw_bugs st b = Some (sid, Some a))) \<and>
     (\<forall>b sid ptr. sw_bugs st b = Some (sid, ptr) \<longrightarrow> (\<exists>a t. ptr = Some a \<and> sw_heap st a = Some t)) \<and>
     (\<forall>a t. sw_heap st a = Some t \<longrightarrow> bridge_inv t \<and> (\<exists>b sid. sw_bugs st b = Some (sid, Some a))) \<and>
     (\<forall>b b' sid sid' a. sw_bugs st b = Some (sid, Some a) \<longrightarrow> sw_bugs st b' = Some (sid', Some a) \<longrightarrow> b = b')"

lemma switch_invI:
  assumes "\<And>sid b. sw_private st sid = Some b \<Longrightarrow> \<exists>a. sw_bugs st b = Some (sid, Some a)"
    and "\<And>b sid ptr. sw_bugs st b = Some (sid, ptr) \<Longrightarrow> \<exists>a t. ptr = Some a \<and> sw_heap st a = Some t"
    and "\<And>a t. sw_heap st a = Some t \<Longrightarrow> bridge_inv t \<and> (\<exists>b sid. sw_bugs st b = Some (sid, Some a))"
    and "\<And>b b' sid sid' a. sw_bugs st b = Some (sid, Some a) \<Longrightarrow> sw_bugs st b' = Some (sid', Some a) \<Longrightarrow> b = b'"
  shows "switch_inv st"
  using assms unfolding switch_inv_def by blast

lemma switch_inv_private:
  assumes "switch_inv st" "sw_private st sid = Some b" shows "\<exists>a. sw_bugs st b = Some (sid, Some a)"
  using assms unfolding switch_inv_def by blast

lemma switch_inv_bug:
  assumes "switch_inv st" "sw_bugs st b = Some (sid, ptr)"
  obtains a t where "ptr = Some a" "sw_heap st a = Some t" "bridge_inv t"
  using assms unfolding switch_inv_def by blast

lemma switch_inv_heap:
  assumes "switch_inv st" "sw_heap st a = Some t"
  shows "bridge_inv t" "\<exists>b sid. sw_bugs st b = Some (sid, Some a)"
  using assms unfolding switch_inv_def by blast+

lemma switch_inv_owner:
  assumes "switch_inv st" "sw_bugs st b = Some (sid, Some a)" "sw_bugs st b' = Some (sid', Some a)" shows "b = b'"
  using assms unfolding switch_inv_def by blast

lemma deref_live [simp]: "sw_heap st a = Some t \<Longrightarrow> deref st a f = f t"
  by (simp add: deref_def)

lemma store_inv:
  assumes "switch_inv st" "sw_heap st a = Some t" "bridge_inv t2"
  shows "switch_inv (store st a t2)"
proof (rule switch_invI)
  fix b sid ptr assume "sw_bugs (store st a t2) b = Some (sid, ptr)"
  then show "\<exists>a' t. ptr = Some a' \<and> sw_heap (store st a t2) a' = Some t"
    using switch_inv_bug [OF assms(1), of b sid ptr] by (metis fun_upd_apply switch_state.select_convs(1,2) switch_state.surjective switch_state.update_convs(1))
next
  fix a' t assume "sw_heap (store st a t2) a' = Some t"
  then show "bridge_inv t \<and> (\<exists>b sid. sw_bugs (store st a t2) b = Some (sid, Some a'))"
    using switch_inv_heap [OF assms(1)] assms(2,3) by (cases "a' = a") auto
next
  fix sid b assume "sw_private (store st a t2) sid = Some b"
  then show "\<exists>a'. sw_bugs (store st a t2) b = Some (sid, Some a')" using switch_inv_private [OF assms(1)] by simp
next
  fix b b' sid sid' a' assume "sw_bugs (store st a t2) b = Some (sid, Some a')" "sw_bugs (store st a t2) b' = Some (sid', Some a')"
  then show "b = b'" using switch_inv_owner [OF assms(1)] by simp
qed

lemma unset_private_inv: "switch_inv st \<Longrightarrow> switch_inv (st\<lparr>sw_private := (sw_private st)(sid := None)\<rparr>)"
  by (simp add: switch_inv_def)

text \<open>A call that is let go: its bug, its bridge and its private value are gone.\<close>

definition detach :: "switch_state \<Rightarrow> string \<Rightarrow> bug \<Rightarrow> addr \<Rightarrow> switch_state" where
  "detach st sid b a = st\<lparr>sw_private := (sw_private st)(sid := None), sw_heap := (sw_heap st)(a := None),
     sw_bugs := (sw_bugs st)(b := None)\<rparr>"

lemma detach_inv:
  assumes "switch_inv st" "sw_bugs st b = Some (sid, Some a)"
  shows "switch_inv (detach st sid b a)"
proof (rule switch_invI)
  fix sid' b' assume "sw_private (detach st sid b a) sid' = Some b'"
  then have p: "sid' \<noteq> sid" "sw_private st sid' = Some b'" by (simp_all add: detach_def split: if_splits)
  then show "\<exists>a'. sw_bugs (detach st sid b a) b' = Some (sid', Some a')"
    using switch_inv_private [OF assms(1) p(2)] assms(2) by (auto simp: detach_def)
next
  fix b' sid' ptr assume "sw_bugs (detach st sid b a) b' = Some (sid', ptr)"
  then have p: "b' \<noteq> b" "sw_bugs st b' = Some (sid', ptr)" by (simp_all add: detach_def split: if_splits)
  obtain a' t where a: "ptr = Some a'" "sw_heap st a' = Some t" using switch_inv_bug [OF assms(1) p(2)] .
  have "a' \<noteq> a" using switch_inv_owner [OF assms] p a(1) by blast
  then show "\<exists>a' t. ptr = Some a' \<and> sw_heap (detach st sid b a) a' = Some t" using a by (simp add: detach_def)
next
  fix a' t assume "sw_heap (detach st sid b a) a' = Some t"
  then have p: "a' \<noteq> a" "sw_heap st a' = Some t" by (simp_all add: detach_def split: if_splits)
  obtain b' sid' where "bridge_inv t" "sw_bugs st b' = Some (sid', Some a')" using switch_inv_heap [OF assms(1) p(2)] by blast
  then show "bridge_inv t \<and> (\<exists>b' sid'. sw_bugs (detach st sid b a) b' = Some (sid', Some a'))"
    using assms(2) p(1) by (intro conjI exI [of _ b'] exI [of _ sid']) (auto simp: detach_def)
next
  fix b' b'' sid' sid'' a'
  assume "sw_bugs (detach st sid b a) b' = Some (sid', Some a')" "sw_bugs (detach st sid b a) b'' = Some (sid'', Some a')"
  then show "b' = b''" using switch_inv_owner [OF assms(1)] by (auto simp: detach_def split: if_splits)
qed

definition attach :: "switch_state \<Rightarrow> string \<Rightarrow> bug \<Rightarrow> addr \<Rightarrow> rtw_tech_t \<Rightarrow> switch_state" where
  "attach st sid b a tech = st\<lparr>sw_heap := (sw_heap st)(a := Some tech), sw_bugs := (sw_bugs st)(b := Some (sid, Some a)),
     sw_private := (sw_private st)(sid := Some b)\<rparr>"

lemma attach_inv:
  assumes "switch_inv st" "sw_heap st a = None" "sw_bugs st b = None" "bridge_inv tech"
  shows "switch_inv (attach st sid b a tech)"
proof (rule switch_invI)
  have fresh: "sw_bugs st b' \<noteq> Some (sid', Some a)" for b' sid'
    using switch_inv_bug [OF assms(1)] assms(2) by force
  { fix b' b'' sid' sid'' a'
    assume "sw_bugs (attach st sid b a tech) b' = Some (sid', Some a')" "sw_bugs (attach st sid b a tech) b'' = Some (sid'', Some a')"
    then show "b' = b''" using switch_inv_owner [OF assms(1)] fresh by (auto simp: attach_def split: if_splits) }
  { fix sid' b' assume p: "sw_private (attach st sid b a tech) sid' = Some b'"
    show "\<exists>a'. sw_bugs (attach st sid b a tech) b' = Some (sid', Some a')"
    proof (cases "sid' = sid")
      case False
      then have "sw_private st sid' = Some b'" using p by (simp add: attach_def)
      from switch_inv_private [OF assms(1) this] show ?thesis using assms(3) by (auto simp: attach_def)
    qed (use p in \<open>simp add: attach_def\<close>) }
  { fix b' sid' ptr assume p: "sw_bugs (attach st sid b a tech) b' = Some (sid', ptr)"
    show "\<exists>a' t. ptr = Some a' \<and> sw_heap (attach st sid b a tech) a' = Some t"
    proof (cases "b' = b")
      case False
      then have "sw_bugs st b' = Some (sid', ptr)" using p by (simp add: attach_def)
      from switch_inv_bug [OF assms(1) this] show ?thesis by (auto simp: attach_def)
    qed (use p in \<open>auto simp: attach_def\<close>) }
  { fix a' t assume p: "sw_heap (attach st sid b a tech) a' = Some t"
    show "bridge_inv t \<and> (\<exists>b' sid'. sw_bugs (attach st sid b a tech) b' = Some (sid', Some a'))"
    proof (cases "a' = a")
      case False
      then have "sw_heap st a' = Some t" using p by (simp add: attach_def)
      from switch_inv_heap [OF assms(1) this] obtain b' sid' where "bridge_inv t" "sw_bugs st b' = Some (sid', Some a')" by blast
      then show ?thesis using assms(3) by (intro conjI exI [of _ b'] exI [of _ sid']) (auto simp: attach_def)
    qed (use p assms(4) in \<open>auto simp: attach_def\<close>) }
qed

section \<open>Operations keep it\<close>

text \<open>A call of the memory with the same contents is the same state.\<close>

lemma free_fresh: "sw_heap st a = None \<Longrightarrow> (store st a tech)\<lparr>sw_heap := (sw_heap (store st a tech))(a := None)\<rparr> = st"
  by (simp add: fun_upd_idem)

lemma stop_bridge_safe:
  assumes "sw_heap st a = Some t" "bridge_inv t"
  shows "run_safe (\<lambda>(status, out, tr, st2). status = SWITCH_STATUS_SUCCESS \<and> tr = close_ws t \<and> st2 = st\<lparr>sw_heap := (sw_heap st)(a := None)\<rparr>)
    (stop_bridge st (Some a) e)"
  using assms bridge_invD(6) [OF assms(2)] bridge_stop_socks by (auto simp: stop_bridge_def)

lemma remove_bug_safe:
  assumes "switch_inv st" "sw_bugs st b = Some (sid, Some a)" "sw_heap st a = Some t"
  shows "run_safe (\<lambda>(out, tr, st2). tr = close_ws t \<and> st2 = detach st sid b a) (remove_bug st b True e)"
proof -
  have t: "sw_heap st a = Some t" "bridge_inv t" using switch_inv_heap [OF assms(1,3)] assms(3) by simp_all
  let ?st = "st\<lparr>sw_private := (sw_private st)(sid := None)\<rparr>"
  have "run_safe (\<lambda>r. br_socks r = close_ws t \<and> br_state r = ?st\<lparr>sw_heap := (sw_heap st)(a := None)\<rparr>) (capture_callback st sid (Some a) (Bug_Close True e))"
    using stop_bridge_safe [of ?st a t e] t
    by (auto simp: capture_callback_def bug_result_def Let_def intro!: run_safe_bind)
  then show ?thesis
    unfolding remove_bug_def assms(2) option.case prod.case
    by (rule run_safe_bind) (auto simp: detach_def)
qed

lemma read_frames_inv: "bridge_inv tech \<Longrightarrow> bridge_inv (read_frames rds tech)"
  unfolding read_frames_def by (induction rds arbitrary: tech) (auto simp: on_read_inv)

definition is_close :: "bug_event \<Rightarrow> bool" where
  "is_close ev \<longleftrightarrow> abc_type ev = SWITCH_ABC_TYPE_CLOSE"

lemma callback_safe:
  assumes "switch_inv st" "sw_bugs st b = Some (sid, ptr)" "\<not> is_close ev"
  shows "run_safe (\<lambda>r. switch_inv (br_state r)) (capture_callback st sid ptr ev)"
proof -
  obtain a t where t: "ptr = Some a" "sw_heap st a = Some t" "bridge_inv t" using switch_inv_bug [OF assms(1,2)] .
  note keep = store_inv [OF assms(1) t(2)] read_frames_inv [OF t(3)]
  have "bridge_inv t1" if "rtw_bridge_apply_write_frame t pcm lock now = (n, frame, t1)" for pcm lock now n frame t1
    using apply_write_inv [OF t(3), of pcm lock now] that by simp
  with assms t keep show ?thesis
    by (cases ev) (auto simp: capture_callback_def bug_result_def is_close_def split: option.splits prod.splits)
qed

text \<open>A start either attaches a new well-formed bridge and succeeds, or changes nothing and fails.\<close>

lemma start_capture_safe:
  assumes "sw_heap st (ce_addr e) = None"
  shows "run_safe (\<lambda>(status, out, tr, st2).
      if status = SWITCH_STATUS_SUCCESS
      then ce_channel e \<and> sw_private st sid = None \<and>
        (\<exists>tech. bridge_inv tech \<and> opened tr = shut tr + held tech \<and> st2 = attach st sid (ce_bug e) (ce_addr e) tech)
      else st2 = st \<and> opened tr = shut tr) (start_capture st sid flags uri rate meta e)"
proof -
  let ?m = "rtw_bridge_start uri rate (if flags AND SMBF_STEREO \<noteq> 0 then 2 else 1) meta (ce_start e)"
  have stop: "run_safe (\<lambda>(status, out, tr, st2). tr = close_ws tech \<and> st2 = st) (stop_bridge (store st (ce_addr e) tech) (Some (ce_addr e)) (ce_stop e))"
    if "bridge_inv tech" for tech
    using stop_bridge_safe [of "store st (ce_addr e) tech" "ce_addr e" tech "ce_stop e"] that free_fresh [OF assms]
    by (auto simp: run_safe_def)
  show ?thesis
  proof (cases "ce_channel e \<and> sw_private st sid = None \<and> ce_pre_answer e = SWITCH_STATUS_SUCCESS")
    case False
    then show ?thesis by (auto simp: start_capture_def Let_def)
  next
    case True
    consider "?m = None" | out tr where "?m = Some (None, out, tr)" | tech out tr where "?m = Some (Some tech, out, tr)"
      by (metis option.exhaust prod_cases3)
    then show ?thesis
    proof cases
      case (3 tech out tr)
      then have inv: "bridge_inv tech" by (rule bridge_start_inv)
      note socks = bridge_start_balance [OF 3]
      have "run_safe (\<lambda>(status, out, tr, st2). status \<noteq> SWITCH_STATUS_SUCCESS \<and> st2 = st \<and> opened tr = shut tr)
          (run_bind (stop_bridge (store st (ce_addr e) tech) (Some (ce_addr e)) (ce_stop e)) (\<lambda>(status, out2, tr2, st2).
             Ret (Some (ce_bug_add e, out @ out2, tr @ tr2, st2))))" if "ce_bug_add e \<noteq> SWITCH_STATUS_SUCCESS"
        by (rule run_safe_bind [OF stop [OF inv]]) (use that socks in \<open>auto simp: held_def\<close>)
      then show ?thesis using True 3 inv socks
        by (auto simp: start_capture_def Let_def attach_def run_safe_def)
    qed (use True in \<open>auto simp: start_capture_def Let_def dest: bridge_start_balance\<close>)
  qed
qed

section \<open>What a call may change\<close>

text \<open>
  A change on behalf of one call: the invariant holds again, and the other calls have the same private
  value, the same bugs and the same bridges.
\<close>

definition call_change :: "string \<Rightarrow> switch_state \<Rightarrow> switch_state \<Rightarrow> bool" where
  "call_change sid st st2 \<longleftrightarrow> switch_inv st2 \<and>
     (\<forall>other. other \<noteq> sid \<longrightarrow> sw_private st2 other = sw_private st other \<and>
        (\<forall>b a. sw_bugs st b = Some (other, Some a) \<longrightarrow>
           sw_bugs st2 b = Some (other, Some a) \<and> sw_heap st2 a = sw_heap st a))"

lemma call_changeI:
  assumes "switch_inv st2" "\<And>other. other \<noteq> sid \<Longrightarrow> sw_private st2 other = sw_private st other"
    and "\<And>other b a. other \<noteq> sid \<Longrightarrow> sw_bugs st b = Some (other, Some a) \<Longrightarrow>
      sw_bugs st2 b = Some (other, Some a) \<and> sw_heap st2 a = sw_heap st a"
  shows "call_change sid st st2"
  using assms by (simp add: call_change_def)

lemma call_change_inv: "call_change sid st st2 \<Longrightarrow> switch_inv st2"
  by (simp add: call_change_def)

named_theorems call_intros "changes on behalf of one call"

lemma call_change_refl [call_intros]: "switch_inv st \<Longrightarrow> call_change sid st st"
  by (simp add: call_change_def)

lemma call_change_store [call_intros]:
  assumes "switch_inv st" "sw_bugs st b = Some (sid, Some a)" "bridge_inv t2"
  shows "call_change sid st (store st a t2)"
proof (rule call_changeI)
  obtain t where "sw_heap st a = Some t" using switch_inv_bug [OF assms(1,2)] by blast
  then show "switch_inv (store st a t2)" by (rule store_inv [OF assms(1) _ assms(3)])
next
  fix other b' a' assume "other \<noteq> sid" "sw_bugs st b' = Some (other, Some a')"
  then show "sw_bugs (store st a t2) b' = Some (other, Some a') \<and> sw_heap (store st a t2) a' = sw_heap st a'"
    using switch_inv_owner [OF assms(1,2), of b' other] assms(2) by auto
qed simp

lemma call_change_unset [call_intros]:
  "switch_inv st \<Longrightarrow> call_change sid st (st\<lparr>sw_private := (sw_private st)(sid := None)\<rparr>)"
  by (simp add: call_change_def unset_private_inv)

lemma call_change_detach [call_intros]:
  assumes "switch_inv st" "sw_bugs st b = Some (sid, Some a)"
  shows "call_change sid st (detach st sid b a)"
proof (rule call_changeI)
  fix other b' a' assume "other \<noteq> sid" "sw_bugs st b' = Some (other, Some a')"
  then show "sw_bugs (detach st sid b a) b' = Some (other, Some a') \<and> sw_heap (detach st sid b a) a' = sw_heap st a'"
    using switch_inv_owner [OF assms, of b' other] assms(2) by (auto simp: detach_def)
qed (use detach_inv [OF assms] in \<open>simp_all add: detach_def\<close>)

lemma switch_inv_live:
  assumes "switch_inv st" "sw_bugs st b = Some (sid, Some a)" shows "\<exists>t. sw_heap st a = Some t \<and> bridge_inv t"
  using switch_inv_bug [OF assms] by blast

lemma call_change_attach [call_intros]:
  assumes "switch_inv st" "sw_heap st a = None" "sw_bugs st b = None" "bridge_inv tech"
  shows "call_change sid st (attach st sid b a tech)"
proof (rule call_changeI)
  fix other b' a' assume p: "other \<noteq> sid" "sw_bugs st b' = Some (other, Some a')"
  have "a' \<noteq> a" using switch_inv_live [OF assms(1) p(2)] assms(2) by auto
  moreover have "b' \<noteq> b" using p(2) assms(3) by auto
  ultimately show "sw_bugs (attach st sid b a tech) b' = Some (other, Some a') \<and> sw_heap (attach st sid b a tech) a' = sw_heap st a'"
    using p(2) by (simp add: attach_def)
qed (use attach_inv [OF assms] in \<open>simp_all add: attach_def\<close>)

text \<open>The address of a new bridge and the number of a new bug are not in use.\<close>

definition env_fresh :: "switch_state \<Rightarrow> capture_env \<Rightarrow> bool" where
  "env_fresh st e \<longleftrightarrow> sw_heap st (ce_addr e) = None \<and> sw_bugs st (ce_bug e) = None"

lemma start_capture_call:
  assumes "switch_inv st" "env_fresh st e"
  shows "run_safe (\<lambda>(status, out, tr, st2). call_change sid st st2) (start_capture st sid flags uri rate meta e)"
proof -
  have "sw_heap st (ce_addr e) = None" "sw_bugs st (ce_bug e) = None" using assms(2) by (simp_all add: env_fresh_def)
  note ch = call_change_attach [OF assms(1) this] call_change_refl [OF assms(1)]
  show ?thesis
    by (rule run_safe_mono [OF start_capture_safe]) (use assms(2) ch in \<open>auto simp: env_fresh_def split: if_splits\<close>)
qed

lemma do_stop_detach:
  assumes "switch_inv st" "sw_private st sid = Some b" "sw_bugs st b = Some (sid, Some a)" "ce_channel e" "ce_removed e"
    and "sw_heap st a = Some t"
  shows "run_safe (\<lambda>(status, out, tr, st2). status = SWITCH_STATUS_SUCCESS \<and> tr = close_ws t \<and> st2 = detach st sid b a) (do_stop st sid e)"
proof -
  have t: "sw_heap st a = Some t" "bridge_inv t" using switch_inv_heap [OF assms(1,6)] assms(6) by simp_all
  let ?t = "t\<lparr>tech_close_requested := True\<rparr>"
  let ?st = "(store st a ?t)\<lparr>sw_private := (sw_private st)(sid := None)\<rparr>"
  have "switch_inv (store st a ?t)" using store_inv [OF assms(1) t(1)] t(2) by simp
  from unset_private_inv [OF this] have inv: "switch_inv ?st" by simp
  have "detach ?st sid b a = detach st sid b a" by (simp add: detach_def)
  moreover have "close_ws ?t = close_ws t" by (simp add: close_ws_def)
  ultimately have "run_safe (\<lambda>(out, tr, st2). tr = close_ws t \<and> st2 = detach st sid b a) (remove_bug ?st b True (ce_stop e))"
    using remove_bug_safe [OF inv, of b sid a ?t "ce_stop e"] assms(3) by simp
  then have "run_safe (\<lambda>(status, out, tr, st2). status = SWITCH_STATUS_SUCCESS \<and> tr = close_ws t \<and> st2 = detach st sid b a)
      (run_bind (remove_bug ?st b True (ce_stop e)) (\<lambda>(out, tr, st3). Ret (Some (SWITCH_STATUS_SUCCESS, out, tr, st3))))"
    by (rule run_safe_bind) auto
  then show ?thesis
    using assms t by (simp add: do_stop_def bug_get_user_data_def Let_def)
qed

lemma do_stop_call:
  assumes "switch_inv st"
  shows "run_safe (\<lambda>(status, out, tr, st2). call_change sid st st2) (do_stop st sid e)"
proof (cases "ce_channel e \<and> sw_private st sid \<noteq> None")
  case True
  then obtain b a where b: "sw_private st sid = Some b" "sw_bugs st b = Some (sid, Some a)"
    using switch_inv_private [OF assms] by blast
  obtain t where t: "sw_heap st a = Some t" "bridge_inv t" using switch_inv_bug [OF assms b(2)] by blast
  show ?thesis
  proof (cases "ce_removed e")
    case True
    have "ce_channel e" using \<open>ce_channel e \<and> _\<close> by simp
    from run_safe_mono [OF do_stop_detach [OF assms b this True t(1)]] call_change_detach [OF assms b(2)]
    show ?thesis by fastforce
  next
    case False
    have c: "call_change sid st (store st a (t\<lparr>tech_close_requested := True\<rparr>))"
      by (rule call_change_store [OF assms b(2)]) (use t(2) in simp)
    then have "call_change sid st ((store st a (t\<lparr>tech_close_requested := True\<rparr>))\<lparr>sw_private := (sw_private st)(sid := None)\<rparr>)"
      using unset_private_inv [OF call_change_inv [OF c], of sid] by (auto simp: call_change_def)
    then show ?thesis
      using b t False \<open>ce_channel e \<and> _\<close> by (auto simp: do_stop_def bug_get_user_data_def Let_def)
  qed
qed (use assms in \<open>auto simp: do_stop_def call_change_refl\<close>)

section \<open>Commands\<close>

abbreviation command_change :: "string \<Rightarrow> switch_state \<Rightarrow> command_outcome \<Rightarrow> bool" where
  "command_change sid st \<equiv> run_safe (\<lambda>(writes, status, out, tr, st2). call_change sid st st2)"

lemma with_tech_call:
  assumes "switch_inv st"
    and "\<And>b a t. sw_bugs st b = Some (sid, Some a) \<Longrightarrow> sw_heap st a = Some t \<Longrightarrow> bridge_inv t \<Longrightarrow> command_change sid st (f a)"
  shows "command_change sid st (with_tech st sid f)"
proof (cases "sw_private st sid")
  case (Some b)
  then obtain a where b: "sw_bugs st b = Some (sid, Some a)" using switch_inv_private [OF assms(1)] by blast
  with switch_inv_live [OF assms(1) this] assms(2) [OF b] show ?thesis
    by (auto simp: with_tech_def bug_get_user_data_def Some)
qed (use assms(1) in \<open>auto simp: with_tech_def call_change_refl\<close>)

lemma of_outcome_call:
  assumes "run_safe (\<lambda>(status, out, tr, st2). call_change sid st st2) m"
  shows "command_change sid st (of_outcome m)"
  unfolding of_outcome_def by (rule run_safe_bind [OF assms]) auto

lemma pause_inv: "bridge_inv t \<Longrightarrow> rtw_bridge_pause t p lock = (ok, t2) \<Longrightarrow> bridge_inv t2"
  using bridge_step_inv [OF bridge_step.pause] by blast

lemma bridge_command_call:
  assumes "switch_inv st" "\<And>t. bridge_inv t \<Longrightarrow> run_safe (\<lambda>(ok, out, t2). bridge_inv t2) (act t)"
  shows "command_change sid st (bridge_command st sid act)"
  unfolding bridge_command_def
proof (rule with_tech_call [OF assms(1)])
  fix b a t assume b: "sw_bugs st b = Some (sid, Some a)" "sw_heap st a = Some t" "bridge_inv t"
  have "command_change sid st (run_bind (act t) (\<lambda>(ok, out, t1). Ret (Some ([], Some (of_ok ok), out, [], store st a t1))))"
    by (rule run_safe_bind [OF assms(2) [OF b(3)]]) (auto intro: call_change_store [OF assms(1) b(1)])
  then show "command_change sid st (deref st a (\<lambda>tech. run_bind (act tech)
      (\<lambda>(ok, out, t1). Ret (Some ([], Some (of_ok ok), out, [], store st a t1)))))"
    using b(2) by simp
qed

lemma dispatch_command_call:
  assumes "switch_inv st" "env_fresh st (k_capture e)"
  shows "command_change sid st (dispatch_command st sid argv metadata e)"
proof -
  have keep: "command_change sid st (Ret (Some (writes, status, [], [], st)))" for writes status
    using call_change_refl [OF assms(1)] by auto
  have pause: "command_change sid st (pause_command st sid p lock)" for p lock
    unfolding pause_command_def
    by (rule with_tech_call [OF assms(1)]) (auto split: prod.splits intro: call_change_store [OF assms(1)] pause_inv)
  have status: "command_change sid st (status_command st sid lock)" for lock
    unfolding status_command_def
    by (rule with_tech_call [OF assms(1)]) (auto split: option.splits intro: call_change_refl [OF assms(1)])
  have no_name: "command_change sid st (with_tech st sid (\<lambda>a. Ret (Some ([], Some SWITCH_STATUS_FALSE, [], [], st))))"
    by (rule with_tech_call [OF assms(1)]) (rule keep)
  have start: "command_change sid st (start_command st sid argv metadata e)"
    using keep of_outcome_call [OF start_capture_call [OF assms]]
    by (simp add: start_command_def split: start_args.split)
  note clear = bridge_command_call [OF assms(1) command_safe(1)]
  note mark = bridge_command_call [OF assms(1) command_safe(2)]
  note stop = of_outcome_call [OF do_stop_call [OF assms(1)]]
  show ?thesis
    unfolding dispatch_command_def Let_def
    by (simp only: keep pause status no_name start clear mark stop if_True if_False split: if_split) simp
qed

lemma uuid_function_safe:
  assumes "switch_inv st" "env_fresh st (k_capture e)"
  shows "run_safe (\<lambda>(writes, out, tr, st2). switch_inv st2 \<and>
      (\<forall>other. (\<forall>name. k_locate e name \<noteq> Some other) \<longrightarrow> sw_private st2 other = sw_private st other \<and>
        (\<forall>b a. sw_bugs st b = Some (other, Some a) \<longrightarrow>
           sw_bugs st2 b = Some (other, Some a) \<and> sw_heap st2 a = sw_heap st a)))
    (uuid_realtime_ws_function st cmd e)" (is "run_safe ?P _")
proof -
  have keep: "run_safe ?P (Ret (Some (writes, [], [], st)))" for writes using assms(1) by auto
  have located: "run_safe ?P (run_bind (dispatch_command st sid argv metadata e) (\<lambda>(writes, status, out, tr, st1). Ret (Some (f writes status, out, tr, st1))))"
    if "k_locate e name = Some sid" for sid argv metadata f name
    by (rule run_safe_bind [OF dispatch_command_call [OF assms]])
      (use that in \<open>auto simp: call_change_def\<close>)
  show ?thesis
    using keep located
    by (auto simp: uuid_realtime_ws_function_def split: option.split prod.split)
qed

section \<open>Steps\<close>

text \<open>
  What happens to the module, in any order: commands, the entry points, the events of attached bugs,
  bugs taken off their calls, and the steps of the threads of a live bridge.
\<close>

inductive switch_step :: "switch_state \<Rightarrow> switch_state \<Rightarrow> bool" where
  command: "env_fresh st (k_capture e) \<Longrightarrow> uuid_realtime_ws_function st cmd e = Ret (Some (writes, out, tr, st2)) \<Longrightarrow>
    switch_step st st2"
| start_entry: "env_fresh st e \<Longrightarrow>
    rtw_mod_start_capture st sid flags uri rate meta e = Ret (Some (status, out, tr, st2)) \<Longrightarrow> switch_step st st2"
| stop_entry: "rtw_mod_stop_capture st sid e = Ret (Some (status, out, tr, st2)) \<Longrightarrow> switch_step st st2"
| event: "sw_bugs st b = Some (sid, ptr) \<Longrightarrow> \<not> is_close ev \<Longrightarrow> capture_callback st sid ptr ev = Ret (Some r) \<Longrightarrow>
    switch_step st (br_state r)"
| removed: "sw_bugs st b = Some (sid, ptr) \<Longrightarrow> remove_bug st b True e = Ret (Some (out, tr, st2)) \<Longrightarrow> switch_step st st2"
| thread: "sw_heap st a = Some t \<Longrightarrow> bridge_step t t2 \<Longrightarrow> switch_step st (store st a t2)"

definition switch_init :: switch_state where
  "switch_init = \<lparr>sw_heap = (\<lambda>_. None), sw_bugs = (\<lambda>_. None), sw_private = (\<lambda>_. None)\<rparr>"

inductive switch_reachable :: "switch_state \<Rightarrow> bool" where
  loaded: "switch_reachable switch_init"
| stepped: "switch_reachable st \<Longrightarrow> switch_step st st2 \<Longrightarrow> switch_reachable st2"

lemma switch_step_inv: "switch_step st st2 \<Longrightarrow> switch_inv st \<Longrightarrow> switch_inv st2"
proof (induction rule: switch_step.induct)
  case (command st e cmd writes out tr st2)
  from run_safeD [OF uuid_function_safe [OF command(3,1)] command(2)] show ?case by simp
next
  case (start_entry st e sid flags uri rate meta status out tr st2)
  from run_safeD [OF start_capture_call [OF start_entry(3,1)]] start_entry(2) show ?case
    by (fastforce simp: rtw_mod_start_capture_def call_change_def)
next
  case (stop_entry st sid e status out tr st2)
  from run_safeD [OF do_stop_call [OF stop_entry(2)]] stop_entry(1) show ?case
    by (fastforce simp: rtw_mod_stop_capture_def call_change_def)
next
  case (event st b sid ptr ev r)
  from run_safeD [OF callback_safe [OF event(4,1,2)] event(3)] show ?case .
next
  case (removed st b sid ptr e out tr st2)
  obtain a t where a: "ptr = Some a" "sw_heap st a = Some t" using switch_inv_bug [OF removed(3,1)] .
  with removed have b: "sw_bugs st b = Some (sid, Some a)" by simp
  from run_safeD [OF remove_bug_safe [OF removed(3) b a(2)] removed(2)] detach_inv [OF removed(3) b] show ?case by simp
next
  case (thread st a t t2)
  from store_inv [OF thread(3,1) bridge_step_inv [OF thread(2)]] switch_inv_heap [OF thread(3,1)] show ?case by simp
qed

lemma switch_reachable_inv: "switch_reachable st \<Longrightarrow> switch_inv st"
proof (induction rule: switch_reachable.induct)
  case loaded
  show ?case by (simp add: switch_init_def switch_inv_def)
qed (rule switch_step_inv)

section \<open>Properties\<close>

text \<open>
  C18: Well-formed pointers. In every state the module can reach, whatever commands are given, bugs fire
  or are taken off, and threads do in between, every pointer has the type it promises: the private
  value of a call is a bug attached to this very call, a bug points to a live well-formed bridge of its
  own that is not being stopped, and every bridge in memory belongs to a bug.
\<close>

theorem switch_reachable_typed:
  assumes "switch_reachable st"
  shows "(\<forall>sid b. sw_private st sid = Some b \<longrightarrow> (\<exists>a. sw_bugs st b = Some (sid, Some a))) \<and>
    (\<forall>b sid ptr. sw_bugs st b = Some (sid, ptr) \<longrightarrow>
       (\<exists>a t. ptr = Some a \<and> sw_heap st a = Some t \<and> bridge_inv t \<and> \<not> tech_cleanup_started t \<and>
          (\<forall>b' sid'. sw_bugs st b' = Some (sid', Some a) \<longrightarrow> b' = b))) \<and>
    (\<forall>a t. sw_heap st a = Some t \<longrightarrow> (\<exists>b sid. sw_bugs st b = Some (sid, Some a)))"
proof -
  note inv = switch_reachable_inv [OF assms]
  have "\<exists>a t. ptr = Some a \<and> sw_heap st a = Some t \<and> bridge_inv t \<and> \<not> tech_cleanup_started t \<and>
      (\<forall>b' sid'. sw_bugs st b' = Some (sid', Some a) \<longrightarrow> b' = b)" if p: "sw_bugs st b = Some (sid, ptr)" for b sid ptr
  proof -
    obtain a t where a: "ptr = Some a" "sw_heap st a = Some t" "bridge_inv t" using switch_inv_bug [OF inv p] .
    moreover have "b' = b" if "sw_bugs st b' = Some (sid', Some a)" for b' sid'
      using switch_inv_owner [OF inv that] p a(1) by simp
    ultimately show ?thesis using bridge_invD(6) by blast
  qed
  then show ?thesis using switch_inv_private [OF inv] switch_inv_heap [OF inv] by blast
qed

text \<open>A call with a capture: a module that was loaded and given the command to start on it.\<close>

definition demo_capture :: capture_env where
  "demo_capture = \<lparr>ce_channel = True, ce_pre_answer = SWITCH_STATUS_SUCCESS, ce_start = good_start [kernel_env [Send_Failed]],
     ce_addr = 4096, ce_bug_add = SWITCH_STATUS_SUCCESS, ce_bug = 9, ce_removed = True,
     ce_stop = \<lparr>sp_lock = False, sp_mem = (True, True), sp_flush = []\<rparr>\<rparr>"

lemma demo_start_capture:
  "\<exists>tech. start_capture switch_init ''u'' SMBF_READ_STREAM ''ws://h/'' 8000 None demo_capture =
     Ret (Some (SWITCH_STATUS_SUCCESS, [], [Sock_Open 7], attach switch_init ''u'' 9 4096 tech))"
proof -
  obtain tech where "rtw_bridge_start ''ws://h/'' 8000 1 None (good_start [kernel_env [Send_Failed]]) = Some (Some tech, [], [Sock_Open 7])"
    using demo_start by blast
  moreover have "SMBF_READ_STREAM AND SMBF_STEREO = 0" by (simp add: SMBF_READ_STREAM_def SMBF_STEREO_def)
  ultimately show ?thesis
    by (auto simp: start_capture_def demo_capture_def switch_init_def attach_def Let_def)
qed

lemma demo_reachable: "\<exists>tech. switch_reachable (attach switch_init ''u'' 9 4096 tech)"
proof -
  have "env_fresh switch_init demo_capture" by (simp add: env_fresh_def switch_init_def)
  with demo_start_capture show ?thesis
    by (metis rtw_mod_start_capture_def switch_reachable.intros switch_step.start_entry)
qed

theorem switch_reachable_typed_witness:
  "\<exists>tech. switch_reachable (attach switch_init ''u'' 9 4096 tech) \<and> bridge_inv tech"
proof -
  obtain tech where r: "switch_reachable (attach switch_init ''u'' 9 4096 tech)" using demo_reachable by blast
  have "sw_bugs (attach switch_init ''u'' 9 4096 tech) 9 = Some (''u'', Some 4096)" by (simp add: attach_def)
  with switch_reachable_typed [OF r] have "\<exists>t. sw_heap (attach switch_init ''u'' 9 4096 tech) 4096 = Some t \<and> bridge_inv t" by blast
  then show ?thesis using r by (auto simp: attach_def)
qed

lemma callback_not_UB:
  assumes "switch_inv st" "sw_bugs st b = Some (sid, ptr)" shows "capture_callback st sid ptr ev \<noteq> UB"
proof (cases "is_close ev")
  case True
  then obtain ch e where ev: "ev = Bug_Close ch e" by (cases ev) (auto simp: is_close_def)
  obtain a t where a: "ptr = Some a" "sw_heap st a = Some t" "bridge_inv t" using switch_inv_bug [OF assms] .
  let ?st = "if ch then st\<lparr>sw_private := (sw_private st)(sid := None)\<rparr> else st"
  have "run_safe (\<lambda>r. True) (run_bind (stop_bridge ?st (Some a) e) (\<lambda>(status, out, tr, st2).
      Ret (Some ((bug_result True st2)\<lparr>br_out := out, br_socks := tr\<rparr>))))"
    by (rule run_safe_bind [OF stop_bridge_safe [of ?st a t]]) (use a in auto)
  from run_safe_not_UB [OF this] show ?thesis using a by (simp add: ev capture_callback_def Let_def)
qed (use run_safe_not_UB [OF callback_safe [OF assms]] in blast)




lemma demo_stop_capture:
  "\<exists>tech out2 tr2 st2. rtw_mod_start_capture switch_init ''u'' SMBF_READ_STREAM ''ws://h/'' 8000 None demo_capture =
       Ret (Some (SWITCH_STATUS_SUCCESS, [], [Sock_Open 7], attach switch_init ''u'' 9 4096 tech)) \<and>
     switch_reachable (attach switch_init ''u'' 9 4096 tech) \<and>
     rtw_mod_stop_capture (attach switch_init ''u'' 9 4096 tech) ''u'' demo_capture =
       Ret (Some (SWITCH_STATUS_SUCCESS, out2, tr2, st2))"
proof -
  have fr: "env_fresh switch_init demo_capture" "ce_channel demo_capture" "ce_removed demo_capture"
    by (simp_all add: env_fresh_def switch_init_def demo_capture_def)
  obtain tech where s: "rtw_mod_start_capture switch_init ''u'' SMBF_READ_STREAM ''ws://h/'' 8000 None demo_capture =
       Ret (Some (SWITCH_STATUS_SUCCESS, [], [Sock_Open 7], attach switch_init ''u'' 9 4096 tech))"
    using demo_start_capture by (auto simp: rtw_mod_start_capture_def)
  let ?st = "attach switch_init ''u'' 9 4096 tech"
  have r: "switch_reachable ?st" by (rule switch_reachable.stepped [OF loaded switch_step.start_entry [OF fr(1) s]])
  have at: "sw_private ?st ''u'' = Some 9" "sw_bugs ?st 9 = Some (''u'', Some 4096)" "sw_heap ?st 4096 = Some tech"
    by (simp_all add: attach_def)
  have inv: "bridge_inv tech" using switch_inv_heap(1) [OF switch_reachable_inv [OF r] at(3)] .
  have stop: "rtw_bridge_stop (tech\<lparr>tech_close_requested := True\<rparr>) (ce_stop demo_capture) =
      Some ([], close_ws tech, fst (rtw_session_destroy (tech_session tech)))"
    using bridge_invD(6) [OF inv] by (simp add: rtw_bridge_stop_def demo_capture_def close_ws_def Let_def)
  have "\<exists>out2 tr2 st2. rtw_mod_stop_capture ?st ''u'' demo_capture = Ret (Some (SWITCH_STATUS_SUCCESS, out2, tr2, st2))"
    using at fr(2,3) stop bridge_invD(6) [OF inv]
    by (simp add: rtw_mod_stop_capture_def do_stop_def bug_get_user_data_def remove_bug_def capture_callback_def
        stop_bridge_def deref_def bug_result_def Let_def)
  with s r show ?thesis by blast
qed

text \<open>
  C19: Starting and stopping cancel. A capture that was started on a call and is stopped again leaves the
  module exactly as it was before the start: the bug, the private value and the bridge are gone, no
  other call is touched, and every socket that was opened has been closed.
\<close>

theorem capture_start_stop:
  assumes "switch_reachable st" "env_fresh st e"
    and "rtw_mod_start_capture st sid flags uri rate meta e = Ret (Some (SWITCH_STATUS_SUCCESS, out, tr, st1))"
    and "rtw_mod_stop_capture st1 sid e2 = Ret (Some (status, out2, tr2, st2))" "ce_channel e2" "ce_removed e2"
  shows "status = SWITCH_STATUS_SUCCESS \<and> st2 = st \<and> opened (tr @ tr2) = shut (tr @ tr2)"
proof -
  note inv = switch_reachable_inv [OF assms(1)]
  have f: "sw_heap st (ce_addr e) = None" "sw_bugs st (ce_bug e) = None" using assms(2) by (simp_all add: env_fresh_def)
  have "sw_private st sid = None \<and> (\<exists>tech. bridge_inv tech \<and> opened tr = shut tr + held tech \<and>
      st1 = attach st sid (ce_bug e) (ce_addr e) tech)"
    using run_safeD [OF start_capture_safe [OF f(1)] assms(3) [unfolded rtw_mod_start_capture_def]] by simp
  then obtain tech where t: "sw_private st sid = None" "bridge_inv tech" "opened tr = shut tr + held tech"
    "st1 = attach st sid (ce_bug e) (ce_addr e) tech" by blast
  have inv1: "switch_inv st1" unfolding t(4) by (rule attach_inv [OF inv f t(2)])
  have at: "sw_private st1 sid = Some (ce_bug e)" "sw_bugs st1 (ce_bug e) = Some (sid, Some (ce_addr e))"
    "sw_heap st1 (ce_addr e) = Some tech" by (simp_all add: t(4) attach_def)
  from run_safeD [OF do_stop_detach [OF inv1 at(1,2) assms(5,6) at(3)]] assms(4)
  have r: "status = SWITCH_STATUS_SUCCESS" "tr2 = close_ws tech" "st2 = detach st1 sid (ce_bug e) (ce_addr e)"
    by (auto simp: rtw_mod_stop_capture_def)
  have "detach (attach st sid (ce_bug e) (ce_addr e) tech) sid (ce_bug e) (ce_addr e) = st"
    using f t(1) by (simp add: detach_def attach_def fun_upd_idem)
  with r t show ?thesis by (simp add: held_def)
qed

theorem capture_start_stop_witness:
  "\<exists>tech. rtw_mod_start_capture switch_init ''u'' SMBF_READ_STREAM ''ws://h/'' 8000 None demo_capture =
       Ret (Some (SWITCH_STATUS_SUCCESS, [], [Sock_Open 7], attach switch_init ''u'' 9 4096 tech)) \<and>
     (\<exists>out2 tr2. rtw_mod_stop_capture (attach switch_init ''u'' 9 4096 tech) ''u'' demo_capture =
       Ret (Some (SWITCH_STATUS_SUCCESS, out2, tr2, switch_init)) \<and> opened (Sock_Open 7 # tr2) = shut (Sock_Open 7 # tr2))"
proof -
  have fr: "env_fresh switch_init demo_capture" "ce_channel demo_capture" "ce_removed demo_capture"
    by (simp_all add: env_fresh_def switch_init_def demo_capture_def)
  obtain tech out2 tr2 st2 where
    s: "rtw_mod_start_capture switch_init ''u'' SMBF_READ_STREAM ''ws://h/'' 8000 None demo_capture =
       Ret (Some (SWITCH_STATUS_SUCCESS, [], [Sock_Open 7], attach switch_init ''u'' 9 4096 tech))"
    and p: "rtw_mod_stop_capture (attach switch_init ''u'' 9 4096 tech) ''u'' demo_capture =
       Ret (Some (SWITCH_STATUS_SUCCESS, out2, tr2, st2))"
    using demo_stop_capture by blast
  from capture_start_stop [OF loaded fr(1) s p fr(2,3)]
  have "st2 = switch_init" "opened (Sock_Open 7 # tr2) = shut (Sock_Open 7 # tr2)" by simp_all
  with s p show ?thesis by blast
qed

text \<open>
  C21: Calls are separate. A command that names one call leaves every other call alone, whatever the
  subcommand does and however it ends: its private value, its bug and the whole state of its bridge.
\<close>

theorem command_isolated:
  assumes "switch_reachable st" "env_fresh st (k_capture e)"
    and "split_command (k_separate e) line = (argv, metadata)" "k_locate e (argv ! 0) = Some sid" "other \<noteq> sid"
    and "uuid_realtime_ws_function st (Some line) e = Ret (Some (writes, out, tr, st2))"
  shows "sw_private st2 other = sw_private st other \<and>
    (\<forall>b. sw_private st other = Some b \<longrightarrow> (\<exists>a. sw_bugs st b = Some (other, Some a) \<and>
       sw_bugs st2 b = sw_bugs st b \<and> sw_heap st2 a = sw_heap st a))"
proof -
  note inv = switch_reachable_inv [OF assms(1)]
  let ?f = "\<lambda>(writes, status, out, tr, st1). Ret (Some (writes @ (case status of None \<Rightarrow> []
      | Some s \<Rightarrow> if s = SWITCH_STATUS_SUCCESS then [''+OK Success'' @ [NEWLINE]] else [''-ERR Operation Failed'' @ [NEWLINE]]), out, tr, st1))"
  have "run_safe (\<lambda>(writes, out, tr, st2). call_change sid st st2) (run_bind (dispatch_command st sid argv metadata e) ?f)"
    by (rule run_safe_bind [OF dispatch_command_call [OF inv assms(2)]]) auto
  then have "run_safe (\<lambda>(writes, out, tr, st2). call_change sid st st2) (uuid_realtime_ws_function st (Some line) e)"
    using assms(3,4) inv by (auto simp: uuid_realtime_ws_function_def call_change_refl)
  from run_safeD [OF this assms(6)] have "call_change sid st st2" by simp
  then show ?thesis using assms(5) switch_inv_private [OF inv, of other] by (fastforce simp: call_change_def)
qed

text \<open>The words of a command, free of blanks and braces, and behind more blanks its metadata.\<close>

definition word_ok :: "string \<Rightarrow> bool" where
  "word_ok w \<longleftrightarrow> CHR '' '' \<notin> set w \<and> CHR ''{'' \<notin> set w"

lemma split_joined:
  assumes "ws \<noteq> []" "length ws \<le> 6" "list_all word_ok ws" "last ws \<noteq> []"
  shows "split_command switch_separate_string (join_with (CHR '' '') ws @ replicate (Suc n) (CHR '' '') @ CHR ''{'' # rest) =
    (ws, Some (CHR ''{'' # rest))"
proof -
  let ?j = "join_with (CHR '' '') ws"
  define b where "b = replicate (Suc n) (CHR '' '')"
  then have b: "b \<noteq> []" "last b = CHR '' ''" "set b = {CHR '' ''}" by (simp_all add: last_replicate del: replicate.simps)
  have nb: "CHR ''{'' \<notin> set (?j @ b)" using set_join [of "CHR '' ''" ws] assms(3) b(3) by (auto simp: list_all_iff word_ok_def)
  have "word_ok (last ws)" using assms(1,3) by (simp add: list_all_iff)
  then have "last (last ws) \<noteq> CHR '' ''" using last_in_set [OF assms(4)] by (auto simp: word_ok_def)
  then have l: "?j \<noteq> []" "last ?j \<noteq> CHR '' ''"
    using last_join [OF assms(1,4), of "CHR '' ''"] by simp_all
  have "takeWhile (\<lambda>c. c \<noteq> CHR ''{'') (?j @ b @ CHR ''{'' # rest) = ?j @ b"
    "dropWhile (\<lambda>c. c \<noteq> CHR ''{'') (?j @ b @ CHR ''{'' # rest) = CHR ''{'' # rest"
    using cut_at_char [OF nb, of rest] by (simp_all only: append_assoc)
  then have x: "extract_metadata_json (?j @ b @ CHR ''{'' # rest) = (?j @ b, Some (CHR ''{'' # rest))"
    by (simp add: extract_metadata_json_def)
  have "dropWhile (\<lambda>c. c = CHR '' '') (rev (?j @ b)) = dropWhile (\<lambda>c. c = CHR '' '') (rev ?j)"
    unfolding rev_append by (rule dropWhile_append2) (simp add: b(3))
  also have "\<dots> = rev ?j" using l by (simp add: dropWhile_eq_self_iff hd_rev)
  finally have "rev (dropWhile (\<lambda>c. c = CHR '' '') (rev (?j @ b))) = ?j" by simp
  moreover have "fst (switch_separate_string ?j (CHR '' '') 6) = ws"
    using separate_join [OF assms(1,2)] assms(3) by (simp add: list_all_iff word_ok_def)
  ultimately show ?thesis unfolding b_def [symmetric] using b x by (simp add: split_command_def)
qed


text \<open>A rate that is no number is read as 0, a multiple of 8000, and becomes 8000 Hz.\<close>

lemma rate_word_accepted:
  "parse_start ssl [''u'', ''start'', ''ws://h/'', ''mono'', ''fast''] =
     Start_With (SMBF_READ_STREAM OR SMBF_WRITE_REPLACE) ''ws://h/'' 0 \<and>
   tech_sampling (init_tech ws_uri 0 channels metadata e) = 8000"
proof -
  have "atoi ''fast'' = 0" by code_simp
  then show ?thesis
    by (simp add: parse_start_def mix_flags_def parse_rate_def rtw_validate_ws_uri_def init_tech_def Let_def
        RTW_MAX_WS_URI_def snprintf_s_def)
qed

text \<open>
  A brace inside the URI. The metadata starts at the first brace of the whole line: when the URI
  contains one, its tail is taken as the metadata, and the JSON object the caller gave is never seen.
\<close>

lemma brace_in_uri_hides_metadata:
  assumes "list_all word_ok [uuid, pre]" "pre \<noteq> []" "CHR '' '' \<notin> set rest" "NUL \<notin> set rest"
  shows "snd (split_command switch_separate_string
      (join_with (CHR '' '') [uuid, ''start'', pre @ CHR ''{'' # rest] @ CHR '' '' # more_args)) = Some (CHR ''{'' # rest)"
proof -
  let ?d = "CHR '' ''" and ?ws = "[uuid, ''start'', pre @ CHR ''{'' # rest]"
  define before where "before = join_with ?d [uuid, ''start'', pre]"
  have line: "join_with ?d ?ws @ ?d # more_args = before @ CHR ''{'' # rest @ ?d # more_args" by (simp add: before_def)
  have nb: "CHR ''{'' \<notin> set before" using assms(1) by (simp add: before_def word_ok_def)
  have "CHR '' '' \<notin> set pre" using assms(1) by (simp add: word_ok_def)
  then have "last pre \<noteq> ?d" using last_in_set [OF assms(2)] by metis
  then have l: "last before \<noteq> ?d" using assms(2) by (simp add: before_def)
  have x: "extract_metadata_json (join_with ?d ?ws @ ?d # more_args) = (before, Some (CHR ''{'' # rest @ ?d # more_args))"
    unfolding line using cut_at_char [OF nb, of "rest @ ?d # more_args"] by (simp add: extract_metadata_json_def)
  define left where "left = join_with NUL [uuid, ''start'', pre]"
  have left: "join_with NUL ?ws = left @ CHR ''{'' # rest" "length before = length left" by (simp_all add: left_def before_def)
  have "snd (switch_separate_string (join_with ?d ?ws @ ?d # more_args) ?d 6) =
      left @ CHR ''{'' # rest @ NUL # snd (switch_separate_string more_args ?d 3)"
    using separate_buffer [of ?ws 6 ?d more_args] assms(1,3) left(1) by (simp add: word_ok_def del: join_with.simps)
  then have b: "drop (length before) (snd (switch_separate_string (join_with ?d ?ws @ ?d # more_args) ?d 6)) =
      CHR ''{'' # rest @ NUL # snd (switch_separate_string more_args ?d 3)" using left(2) by (simp del: join_with.simps)
  have "c_str (CHR ''{'' # rest @ NUL # ys) = CHR ''{'' # rest" for ys
    using cut_at_char(1) [of NUL "CHR ''{'' # rest" ys] assms(4) by (simp add: c_str_def)
  then show ?thesis using b l by (simp add: split_command_def x case_prod_beta del: join_with.simps)
qed

definition demo_command :: command_env where
  "demo_command = \<lparr>k_strdup = True, k_separate = switch_separate_string, k_locate = Some, k_openssl = False, k_lock = True,
     k_text = quick_env, k_capture = demo_capture\<lparr>ce_addr := 8192, ce_bug := 10, ce_channel := False\<rparr>\<rparr>"

theorem command_isolated_witness:
  "\<exists>tech. uuid_realtime_ws_function (attach switch_init ''u'' 9 4096 tech) (Some ''v Pause'') demo_command =
       Ret (Some ([''-ERR Operation Failed'' @ [NEWLINE]], [], [], attach switch_init ''u'' 9 4096 tech)) \<and>
     sw_bugs (attach switch_init ''u'' 9 4096 tech) 9 = Some (''u'', Some 4096)"
proof -
  obtain tech where r: "switch_reachable (attach switch_init ''u'' 9 4096 tech)" using demo_reachable by blast
  let ?st = "attach switch_init ''u'' 9 4096 tech"
  have f: "env_fresh ?st (k_capture demo_command)"
    by (simp add: env_fresh_def demo_command_def attach_def switch_init_def)
  have "split_command switch_separate_string ''v Pause'' = ([''v'', ''Pause''], None)" by code_simp
  then have s: "split_command (k_separate demo_command) ''v Pause'' = ([''v'', ''Pause''], None)" by (simp add: demo_command_def)
  have l: "k_locate demo_command ([''v'', ''Pause''] ! 0) = Some ''v''" by (simp add: demo_command_def)
  have c: "strcasecmp_eq ''Pause'' ''pause''" "\<not> strcasecmp_eq ''Pause'' ''stop''" by (code_simp)+
  have p: "pause_command ?st ''v'' b lock = Ret (Some ([], Some SWITCH_STATUS_FALSE, [], [], ?st))" for b lock
    by (simp add: pause_command_def with_tech_def attach_def switch_init_def)
  have u: "uuid_realtime_ws_function ?st (Some ''v Pause'') demo_command =
      Ret (Some ([''-ERR Operation Failed'' @ [NEWLINE]], [], [], ?st))"
    using l by (simp add: uuid_realtime_ws_function_def s dispatch_command_def c p) (simp add: demo_command_def)
  have "sw_private ?st ''u'' = Some 9" by (simp add: attach_def)
  with command_isolated [OF r f s l _ u, of "''u''"] show ?thesis using u by (auto simp: attach_def)
qed


end
