(* ===== verification/Mod_Stub_Build.thy ===== *)
theory Mod_Stub_Build
  imports Mod_Realtime_Ws_Correct
begin

text \<open>
  The build of \<open>src/mod/mod_realtime_ws.c\<close> without FreeSWITCH, against \<open>Fs_Stub\<close>: there is no media bug; the
  private value of the channel is the pointer to the bridge itself, and the command only parses. The
  bridges live in a memory as in \<open>Mod_Realtime_Ws\<close>.
\<close>

section \<open>Definitions\<close>

type_synonym heap = "addr \<Rightarrow> rtw_tech_t option"
type_synonym stub_session = "addr switch_core_session"

definition RTW_BUG_NAME :: string where
  "RTW_BUG_NAME = ''realtime_ws''"

text \<open>Status, bytes on the wire, sockets, the memory and the session afterwards.\<close>

type_synonym stub_outcome = "(switch_status_t \<times> bytes \<times> sock_event list \<times> heap \<times> stub_session) run"

definition stub_start_capture ::
  "heap \<Rightarrow> stub_session \<Rightarrow> switch_media_bug_flag_t \<Rightarrow> string \<Rightarrow> int \<Rightarrow> string option \<Rightarrow> start_env \<Rightarrow> addr \<Rightarrow> stub_outcome" where
  "stub_start_capture h ses flags ws_uri sampling metadata e a =
     (let channels = (if flags AND SMBF_STEREO \<noteq> 0 then 2 else 1)
      in case switch_core_session_get_channel (Some ses) of
           None \<Rightarrow> Ret (Some (SWITCH_STATUS_FALSE, [], [], h, ses))
         | Some channel \<Rightarrow>
             if switch_channel_get_private (Some channel) (Some RTW_BUG_NAME) \<noteq> None
             then Ret (Some (SWITCH_STATUS_FALSE, [], [], h, ses))
             else (case switch_channel_pre_answer (Some channel) of
               (status, answered) \<Rightarrow>
                 let ses1 = ses\<lparr>ses_channel := answered\<rparr>
                 in if status \<noteq> SWITCH_STATUS_SUCCESS then Ret (Some (SWITCH_STATUS_FALSE, [], [], h, ses1))
                    else run_bind (Ret (rtw_bridge_start ws_uri sampling channels metadata e)) (\<lambda>(started, out, tr).
                      case started of
                        None \<Rightarrow> Ret (Some (SWITCH_STATUS_FALSE, out, tr, h, ses1))
                      | Some tech \<Rightarrow>
                          Ret (Some (SWITCH_STATUS_SUCCESS, out, tr, h(a := Some tech),
                            ses1\<lparr>ses_channel := map_option (\<lambda>ch. switch_channel_set_private ch RTW_BUG_NAME (Some a)) answered\<rparr>)))))"

definition stub_do_stop :: "heap \<Rightarrow> stub_session \<Rightarrow> stop_env \<Rightarrow> stub_outcome" where
  "stub_do_stop h ses e =
     (case switch_core_session_get_channel (Some ses) of
        None \<Rightarrow> Ret (Some (SWITCH_STATUS_FALSE, [], [], h, ses))
      | Some channel \<Rightarrow>
          (case switch_channel_get_private (Some channel) (Some RTW_BUG_NAME) of
             None \<Rightarrow> Ret (Some (SWITCH_STATUS_FALSE, [], [], h, ses))
           | Some a \<Rightarrow>
               let ses1 = ses\<lparr>ses_channel := Some (switch_channel_set_private channel RTW_BUG_NAME None)\<rparr>
               in (case h a of
                     None \<Rightarrow> UB
                   | Some tech \<Rightarrow>
                       if tech_cleanup_started tech then Ret (Some (SWITCH_STATUS_SUCCESS, [], [], h, ses1))
                       else Ret (map_option (\<lambda>(out, tr, freed). (SWITCH_STATUS_SUCCESS, out, tr, h(a := None), ses1))
                              (rtw_bridge_stop tech e)))))"

definition stub_get_tech :: "stub_session option \<Rightarrow> addr option" where
  "stub_get_tech session =
     (case session of
        None \<Rightarrow> None
      | Some ses \<Rightarrow>
          (case switch_core_session_get_channel (Some ses) of
             None \<Rightarrow> None
           | Some channel \<Rightarrow> switch_channel_get_private (Some channel) (Some RTW_BUG_NAME)))"

text \<open>The command: its writes to the stream.\<close>

definition stub_uuid_function :: "string option \<Rightarrow> bool \<Rightarrow> bool \<Rightarrow> string list" where
  "stub_uuid_function cmd strdup_ok has_openssl =
     (case cmd of
        None \<Rightarrow> [usage_line]
      | Some line \<Rightarrow>
          if line = [] then [usage_line]
          else if \<not> strdup_ok then [''-ERR oom'' @ [NEWLINE]]
          else let argv = fst (split_command switch_separate_string line)
            in if length argv < 2 then [usage_line]
               else if strcasecmp_eq (argv ! 1) ''start'' \<and> length argv \<ge> 4
               then (case rtw_validate_ws_uri has_openssl (argv ! 2) RTW_MAX_WS_URI of
                       None \<Rightarrow> [''-ERR invalid ws uri (need ws:// or wss:// with OpenSSL build)'' @ [NEWLINE],
                                ''-ERR Operation Failed'' @ [NEWLINE]]
                     | Some wsUri \<Rightarrow> [''+OK stub parse ok'' @ [NEWLINE], ''+OK Success'' @ [NEWLINE]])
               else [''+OK stub'' @ [NEWLINE], ''+OK Success'' @ [NEWLINE]])"

section \<open>A capture on a stub channel\<close>

lemma stub_start_success:
  assumes "stub_start_capture h ses flags uri rate meta e a = Ret (Some (SWITCH_STATUS_SUCCESS, out, tr, h1, ses1))"
  obtains ch tech where "ses_channel ses = Some ch" "stub_get_tech (Some ses) = None" "h1 = h(a := Some tech)" "bridge_inv tech"
    "opened tr = shut tr + held tech"
    "ses1 = ses\<lparr>ses_channel := Some (switch_channel_set_private (ch\<lparr>ch_pre_answered := True\<rparr>) RTW_BUG_NAME (Some a))\<rparr>"
proof -
  obtain ch where ch: "ses_channel ses = Some ch" "switch_channel_get_private (Some ch) (Some RTW_BUG_NAME) = None"
    using assms by (auto simp: stub_start_capture_def switch_core_session_get_channel_def Let_def split: option.splits if_splits)
  let ?m = "rtw_bridge_start uri rate (if flags AND SMBF_STEREO \<noteq> 0 then 2 else 1) meta e"
  consider "?m = None" | out tr where "?m = Some (None, out, tr)" | tech out tr where "?m = Some (Some tech, out, tr)"
    by (metis option.exhaust prod_cases3)
  then show thesis
  proof cases
    case (3 tech out' tr')
    with assms ch have r: "h1 = h(a := Some tech)" "tr' = tr"
      "ses1 = ses\<lparr>ses_channel := Some (switch_channel_set_private (ch\<lparr>ch_pre_answered := True\<rparr>) RTW_BUG_NAME (Some a))\<rparr>"
      by (auto simp: stub_start_capture_def switch_core_session_get_channel_def switch_channel_pre_answer_def Let_def)
    show thesis
      by (rule that [OF ch(1) _ r(1) bridge_start_inv [OF 3] _ r(3)])
        (use bridge_start_balance [OF 3] r(2) ch in \<open>simp_all add: stub_get_tech_def switch_core_session_get_channel_def\<close>)
  qed (use assms ch in \<open>auto simp: stub_start_capture_def switch_core_session_get_channel_def switch_channel_pre_answer_def Let_def\<close>)
qed

lemma room_pre_answered [simp]: "private_room (ch\<lparr>ch_pre_answered := b\<rparr>) key = private_room ch key"
  by (simp add: private_room_def)

text \<open>
  The cycle of a capture on a stub channel with room for one more private value: after a start the
  channel yields the new bridge and refuses a second start; a stop then frees exactly this bridge,
  closes the sockets, and leaves the channel without a capture, its other private values untouched.
\<close>

lemma stub_capture_cycle:
  assumes "ses_channel ses = Some ch" "private_room ch RTW_BUG_NAME" "h a = None"
    and "stub_start_capture h ses flags uri rate meta e a = Ret (Some (SWITCH_STATUS_SUCCESS, out, tr, h1, ses1))"
    and "stub_do_stop h1 ses1 e2 = Ret (Some (status, out2, tr2, h2, ses2))"
  shows "stub_get_tech (Some ses1) = Some a \<and>
    stub_start_capture h1 ses1 flags' uri' rate' meta' e' a' = Ret (Some (SWITCH_STATUS_FALSE, [], [], h1, ses1)) \<and>
    status = SWITCH_STATUS_SUCCESS \<and> h2 = h \<and> opened (tr @ tr2) = shut (tr @ tr2) \<and> stub_get_tech (Some ses2) = None \<and>
    (\<forall>key. key \<noteq> RTW_BUG_NAME \<longrightarrow>
       switch_channel_get_private (ses_channel ses2) (Some key) = switch_channel_get_private (Some ch) (Some key))"
proof -
  let ?n = RTW_BUG_NAME
  obtain tech where t: "h1 = h(a := Some tech)" "bridge_inv tech" "opened tr = shut tr + held tech"
    "ses1 = ses\<lparr>ses_channel := Some (switch_channel_set_private (ch\<lparr>ch_pre_answered := True\<rparr>) ?n (Some a))\<rparr>"
    using stub_start_success [OF assms(4)] assms(1) by (metis option.inject)
  let ?ch = "ch\<lparr>ch_pre_answered := True\<rparr>"
  have room: "private_room ?ch ?n" using assms(2) by simp
  have g1: "switch_channel_get_private (Some (switch_channel_set_private ?ch ?n (Some a))) (Some ?n) = Some a"
    by (rule stub_channel.get_put [OF room])
  have g2: "switch_channel_get_private (Some (switch_channel_set_private (switch_channel_set_private ?ch ?n (Some a)) ?n None)) (Some ?n) = None"
    using stub_channel.get_puts [OF room, of "[Some a, None]"] by simp
  have other: "switch_channel_get_private (Some (switch_channel_set_private (switch_channel_set_private ?ch ?n (Some a)) ?n None)) (Some key) =
      switch_channel_get_private (Some ch) (Some key)" if "key \<noteq> ?n" for key
    using stub_channel.get_puts_other [OF that, of "[Some a, None]" ?ch] by (simp add: switch_channel_get_private_def)
  have c: "switch_core_session_get_channel (Some ses1) = Some (switch_channel_set_private ?ch ?n (Some a))" "h1 a = Some tech"
    by (simp_all add: t switch_core_session_get_channel_def)
  have stop: "stub_do_stop h1 ses1 e2 = Ret (map_option (\<lambda>(out, tr, freed). (SWITCH_STATUS_SUCCESS, out, tr, h1(a := None),
      ses1\<lparr>ses_channel := Some (switch_channel_set_private (switch_channel_set_private ?ch ?n (Some a)) ?n None)\<rparr>)) (rtw_bridge_stop tech e2))"
    using bridge_invD(6) [OF t(2)] by (simp add: stub_do_stop_def c g1 Let_def)
  from trans [OF this [symmetric] assms(5)] obtain freed where "rtw_bridge_stop tech e2 = Some (out2, tr2, freed)" and s2: "status = SWITCH_STATUS_SUCCESS" "h2 = h1(a := None)"
    "ses2 = ses1\<lparr>ses_channel := Some (switch_channel_set_private (switch_channel_set_private ?ch ?n (Some a)) ?n None)\<rparr>"
    by auto
  from bridge_stop_socks [OF this(1) bridge_invD(6) [OF t(2)]] have "tr2 = close_ws tech" .
  then have socks: "opened (tr @ tr2) = shut (tr @ tr2)" using t(3) by (simp add: held_def)
  have "h2 = h" using s2(2) t(1) assms(3) by (simp add: fun_upd_idem)
  moreover have "stub_get_tech (Some ses1) = Some a" by (simp add: stub_get_tech_def c g1)
  moreover have "stub_start_capture h1 ses1 flags' uri' rate' meta' e' a' = Ret (Some (SWITCH_STATUS_FALSE, [], [], h1, ses1))"
    by (simp add: stub_start_capture_def c g1 Let_def)
  moreover have "stub_get_tech (Some ses2) = None" by (simp add: stub_get_tech_def s2(3) switch_core_session_get_channel_def g2)
  moreover have "switch_channel_get_private (ses_channel ses2) (Some key) = switch_channel_get_private (Some ch) (Some key)"
    if "key \<noteq> ?n" for key using other [OF that] by (simp add: s2(3))
  ultimately show ?thesis using socks s2(1) by blast
qed


lemma stub_capture_cycle_example:
  "\<exists>ses ch h1 ses1 out2 tr2 ses2. rtw_stub_session_create (Some ''u'') True True = Some ses \<and> ses_channel ses = Some ch \<and>
     stub_start_capture (\<lambda>_. None) ses SMBF_READ_STREAM ''ws://h/'' 8000 None (good_start [kernel_env [Send_Failed]]) 4096 =
       Ret (Some (SWITCH_STATUS_SUCCESS, [], [Sock_Open 7], h1, ses1)) \<and> stub_get_tech (Some ses1) = Some 4096 \<and>
     stub_do_stop h1 ses1 (ce_stop demo_capture) = Ret (Some (SWITCH_STATUS_SUCCESS, out2, tr2, (\<lambda>_. None), ses2)) \<and>
     opened (Sock_Open 7 # tr2) = shut (Sock_Open 7 # tr2)"
proof -
  obtain ses ch where ses: "rtw_stub_session_create (Some ''u'') True True = Some (ses :: stub_session)" "ses_channel ses = Some ch"
    by (simp add: rtw_stub_session_create_def Let_def)
  note room = session_create_room [OF ses]
  obtain tech where m: "rtw_bridge_start ''ws://h/'' 8000 1 None (good_start [kernel_env [Send_Failed]]) = Some (Some tech, [], [Sock_Open 7])"
    using demo_start by blast
  have inv: "\<not> tech_cleanup_started tech" using bridge_invD(6) [OF bridge_start_inv [OF m]] .
  have z: "SMBF_READ_STREAM AND SMBF_STEREO = 0" by (simp add: SMBF_READ_STREAM_def SMBF_STEREO_def)
  have c: "switch_core_session_get_channel (Some ses) = Some ch" by (simp add: switch_core_session_get_channel_def ses(2))
  define ses1 where "ses1 = ses\<lparr>ses_channel := Some (switch_channel_set_private (ch\<lparr>ch_pre_answered := True\<rparr>) RTW_BUG_NAME (Some 4096))\<rparr>"
  have st: "stub_start_capture (\<lambda>_. None) ses SMBF_READ_STREAM ''ws://h/'' 8000 None (good_start [kernel_env [Send_Failed]]) 4096 =
      Ret (Some (SWITCH_STATUS_SUCCESS, [], [Sock_Open 7], (\<lambda>_. None)(4096 := Some tech), ses1))"
    by (simp add: stub_start_capture_def c room(2) z m ses1_def switch_channel_pre_answer_def Let_def)
  have g: "switch_channel_get_private (Some (switch_channel_set_private (ch\<lparr>ch_pre_answered := True\<rparr>) RTW_BUG_NAME (Some 4096))) (Some RTW_BUG_NAME) = Some 4096"
    by (rule stub_channel.get_put) (use room(1) in simp)
  have stop: "rtw_bridge_stop tech (ce_stop demo_capture) = Some ([], close_ws tech, fst (rtw_session_destroy (tech_session tech)))"
    using inv by (simp add: rtw_bridge_stop_def demo_capture_def close_ws_def Let_def)
  obtain out2 tr2 h2 ses2 where p: "stub_do_stop ((\<lambda>_. None)(4096 := Some tech)) ses1 (ce_stop demo_capture) =
      Ret (Some (SWITCH_STATUS_SUCCESS, out2, tr2, h2, ses2))"
    using stop inv g by (simp add: stub_do_stop_def ses1_def switch_core_session_get_channel_def Let_def)
  from stub_capture_cycle [OF ses(2) room(1) _ st p, of SMBF_READ_STREAM "''ws://h/''" 8000 None "good_start []" 8192]
  have "h2 = (\<lambda>_. None)" "stub_get_tech (Some ses1) = Some 4096" "opened (Sock_Open 7 # tr2) = shut (Sock_Open 7 # tr2)"
    by simp_all
  with ses st p show ?thesis by blast
qed

end
