(* ===== verification/Rtw_Mod_Harness.thy ===== *)
theory Rtw_Mod_Harness
  imports Mod_Stub_Build
begin

text \<open>
  The harness of the stub build, \<open>src/mod/rtw_mod_harness.c\<close>: it starts a capture on a stub session, plays a
  tone for some seconds while it checks every frame it gets back, tries mark, clear and the statistics,
  and stops the capture.
  \<^item> The worker of the bridge runs beside the main thread: between two calls of the harness it takes any
    number of turns, given by a list.
  \<^item> The samples of the tone are an argument, since they come from the floating-point library. Printing
    and sleeping have no counterpart.
\<close>

section \<open>Definitions\<close>

fun worker_turns :: "rtw_tech_t \<Rightarrow> worker_env list \<Rightarrow> (bytes \<times> sock_event list \<times> rtw_tech_t) run" where
  "worker_turns tech [] = Ret (Some ([], [], tech))"
| "worker_turns tech (e # es) =
     run_bind (ws_worker_turn tech e) (\<lambda>(go, out1, tr1, t1).
       if go then run_bind (worker_turns t1 es) (\<lambda>(out2, tr2, t2). Ret (Some (out1 @ out2, tr1 @ tr2, t2)))
       else Ret (Some (out1, tr1, t1)))"

subsection \<open>Arguments\<close>

datatype harness_args = Harness_Help | Harness_Run "string option" int

text \<open>Arguments it does not know are skipped.\<close>

fun harness_parse_args :: "string list \<Rightarrow> string option \<Rightarrow> int \<Rightarrow> harness_args" where
  "harness_parse_args [] url seconds = Harness_Run url seconds"
| "harness_parse_args [x] url seconds =
     (if x = ''-h'' \<or> x = ''--help'' then Harness_Help else Harness_Run url seconds)"
| "harness_parse_args (x # v # vs) url seconds =
     (if x = ''--url'' then harness_parse_args vs (Some v) seconds
      else if x = ''--seconds'' then harness_parse_args vs url (atoi v)
      else if x = ''-h'' \<or> x = ''--help'' then Harness_Help
      else harness_parse_args (v # vs) url seconds)"

definition harness_self_check :: "bool \<Rightarrow> bool" where
  "harness_self_check has_openssl \<longleftrightarrow>
     ((rtw_validate_ws_uri has_openssl ''wss://example/media'' 64 \<noteq> None) = has_openssl) \<and>
     rtw_validate_ws_uri has_openssl ''ws://127.0.0.1:9/x'' 64 \<noteq> None"

subsection \<open>Frames\<close>

record frame_env =
  fe_worker :: "worker_env list"
  fe_lock :: bool
  fe_mem :: "nat \<Rightarrow> alloc"
  fe_worker2 :: "worker_env list"
  fe_write_lock :: bool
  fe_now :: uint64

text \<open>One frame: whether the check passed, the samples taken, the bytes on the wire, the sockets and the bridge.\<close>

definition harness_frame ::
  "rtw_tech_t \<Rightarrow> int16 list \<Rightarrow> frame_env \<Rightarrow> (bool \<times> nat \<times> bytes \<times> sock_event list \<times> rtw_tech_t) run" where
  "harness_frame tech pcm e =
     run_bind (worker_turns tech (fe_worker e)) (\<lambda>(out1, tr1, t1).
     run_bind (worker_turns (rtw_bridge_on_read_pcm16 t1 pcm (fe_lock e) (fe_mem e)) (fe_worker2 e)) (\<lambda>(out2, tr2, t2).
       case rtw_bridge_apply_write_frame t2 (replicate 160 1000) (fe_write_lock e) (fe_now e) of (n, frame, t3) \<Rightarrow>
         Ret (Some (if n > 0 then frame ! 0 \<noteq> 1000 else frame ! 0 = 1000, n, out1 @ out2, tr1 @ tr2, t3))))"

fun harness_frames ::
  "rtw_tech_t \<Rightarrow> (nat \<Rightarrow> int16 list) \<Rightarrow> nat \<Rightarrow> nat \<Rightarrow> frame_env list \<Rightarrow> (bool \<times> bytes \<times> sock_event list \<times> rtw_tech_t) run" where
  "harness_frames tech tone i 0 es = Ret (Some (True, [], [], tech))"
| "harness_frames tech tone i (Suc k) [] = Ret None"
| "harness_frames tech tone i (Suc k) (e # es) =
     run_bind (harness_frame tech (tone i) e) (\<lambda>(ok, n, out1, tr1, t1).
       if \<not> ok then Ret (Some (False, out1, tr1, t1))
       else run_bind (harness_frames t1 tone (Suc i) k es) (\<lambda>(ok2, out2, tr2, t2).
         Ret (Some (ok2, out1 @ out2, tr1 @ tr2, t2))))"

subsection \<open>Mark, clear and statistics\<close>

record control_env =
  cn_worker :: "worker_env list"
  cn_mark :: text_env
  cn_worker2 :: "worker_env list"
  cn_clear :: text_env
  cn_worker3 :: "worker_env list"
  cn_lock :: bool
  cn_now :: uint64
  cn_worker4 :: "worker_env list"
  cn_stats_lock :: bool

text \<open>Whether everything passed; a failure leaves at once.\<close>

definition harness_stats_ok :: "rtw_tech_t \<Rightarrow> bool \<Rightarrow> bool" where
  "harness_stats_ok tech lock =
     (case rtw_bridge_get_stats tech lock of
        None \<Rightarrow> False
      | Some st \<Rightarrow> \<not> stats_clear_events st < 1 \<and> \<not> stats_clear_latency_samples st < 1)"

definition harness_control :: "rtw_tech_t \<Rightarrow> control_env \<Rightarrow> (bool \<times> bytes \<times> sock_event list \<times> rtw_tech_t) run" where
  "harness_control tech e =
     run_bind (worker_turns tech (cn_worker e)) (\<lambda>(out1, tr1, t1).
     run_bind (rtw_bridge_send_mark t1 ''harness1'' (cn_mark e)) (\<lambda>(ok1, out2, t2).
       if \<not> ok1 then Ret (Some (False, out1 @ out2, tr1, t2))
       else
     run_bind (worker_turns t2 (cn_worker2 e)) (\<lambda>(out3, tr3, t3).
     run_bind (rtw_bridge_clear t3 (cn_clear e)) (\<lambda>(ok2, out4, t4).
       let out = out1 @ out2 @ out3 @ out4
       in if \<not> ok2 then Ret (Some (False, out, tr1 @ tr3, t4))
       else
     run_bind (worker_turns t4 (cn_worker3 e)) (\<lambda>(out5, tr5, t5).
       case rtw_bridge_apply_write_frame t5 (replicate 160 42) (cn_lock e) (cn_now e) of (n, frame, t6) \<Rightarrow>
         if n \<noteq> 0 \<or> frame ! 0 \<noteq> 42 then Ret (Some (False, out @ out5, tr1 @ tr3 @ tr5, t6))
         else
     run_bind (worker_turns t6 (cn_worker4 e)) (\<lambda>(out6, tr6, t7).
       Ret (Some (harness_stats_ok t7 (cn_stats_lock e), out @ out5 @ out6, tr1 @ tr3 @ tr5 @ tr6, t7))))))))"

subsection \<open>The program\<close>

record harness_env =
  hn_openssl :: bool
  hn_session :: bool
  hn_channel :: bool
  hn_start :: start_env
  hn_addr :: addr
  hn_tone :: "nat \<Rightarrow> int16 list"
  hn_frames :: "frame_env list"
  hn_control :: control_env
  hn_stop :: stop_env

text \<open>\<open>setenv\<close>: no reconnects.\<close>

definition no_reconnect :: "start_env \<Rightarrow> start_env" where
  "no_reconnect e = e\<lparr>st_env_reconnect := Some ''0''\<rparr>"

definition harness_metadata :: string where
  "harness_metadata = CHR ''{'' # QUOTE # ''harness'' @ [QUOTE, CHR '':'', QUOTE] @ ''1'' @ [QUOTE, CHR ''}'']"

text \<open>
  From the start of the capture on: return code, bytes on the wire, sockets and the memory. The pointer the
  harness holds is the one in the channel, so the bridge is written back before it is stopped.
\<close>

definition harness_capture ::
  "heap \<Rightarrow> stub_session \<Rightarrow> string \<Rightarrow> nat \<Rightarrow> harness_env \<Rightarrow> (int \<times> bytes \<times> sock_event list \<times> heap) run" where
  "harness_capture h ses ws_uri nframes m =
     run_bind (stub_start_capture h ses (SMBF_READ_STREAM OR SMBF_WRITE_REPLACE) ws_uri 8000 (Some harness_metadata)
         (no_reconnect (hn_start m)) (hn_addr m)) (\<lambda>(status, out0, tr0, h1, ses1).
       if status \<noteq> SWITCH_STATUS_SUCCESS then Ret (Some (1, out0, tr0, h1))
       else let stop = (\<lambda>rc out tr h2. run_bind (stub_do_stop h2 ses1 (hn_stop m)) (\<lambda>(status, out9, tr9, h3, ses3).
                          Ret (Some (if status = SWITCH_STATUS_SUCCESS then rc else 1, out @ out9, tr @ tr9, h3))))
       in case stub_get_tech (Some ses1) of
         None \<Rightarrow> stop 1 out0 tr0 h1
       | Some a \<Rightarrow>
           (case h1 a of
              None \<Rightarrow> UB
            | Some tech \<Rightarrow>
                run_bind (harness_frames tech (hn_tone m) 0 nframes (hn_frames m)) (\<lambda>(ok1, out1, tr1, t1).
                  if \<not> ok1 then stop 1 (out0 @ out1) (tr0 @ tr1) (h1(a := Some t1))
                  else run_bind (harness_control t1 (hn_control m)) (\<lambda>(ok2, out2, tr2, t2).
                    stop (if ok2 then 0 else 1) (out0 @ out1 @ out2) (tr0 @ tr1 @ tr2) (h1(a := Some t2))))))"

definition harness_main :: "string list \<Rightarrow> heap \<Rightarrow> harness_env \<Rightarrow> (int \<times> bytes \<times> sock_event list \<times> heap) run" where
  "harness_main argv h m =
     (case harness_parse_args argv None 2 of
        Harness_Help \<Rightarrow> Ret (Some (0, [], [], h))
      | Harness_Run url seconds \<Rightarrow>
          (case url of
             None \<Rightarrow> Ret (Some (2, [], [], h))
           | Some u \<Rightarrow>
               (case rtw_validate_ws_uri (hn_openssl m) u RTW_MAX_WS_URI of
                  None \<Rightarrow> Ret (Some (2, [], [], h))
                | Some ws_uri \<Rightarrow>
                    if \<not> harness_self_check (hn_openssl m) then Ret (Some (1, [], [], h))
                    else (case rtw_stub_session_create (Some ''aaaaaaaa-bbbb-cccc-dddd-eeeeeeeeeeee'') (hn_session m) (hn_channel m) of
                            None \<Rightarrow> Ret (Some (1, [], [], h))
                          | Some ses \<Rightarrow> harness_capture h ses ws_uri (nat (if seconds < 1 then 1 else seconds) * 50) m))))"

section \<open>A run of the harness\<close>

lemma trace_inv: "bridge_trace tech tr \<Longrightarrow> bridge_inv tech"
  using bridge_reachable_inv [OF bridge_trace_reachable] .

lemma run_safe_post: "run_safe P m \<Longrightarrow> (\<And>x. m = Ret (Some x) \<Longrightarrow> Q x) \<Longrightarrow> run_safe Q m"
  by (auto simp: run_safe_def)

lemma run_safe_bind3:
  assumes "run_safe (\<lambda>(a, b, c). P a b c) m" "\<And>a b c. P a b c \<Longrightarrow> run_safe Q (f a b c)"
  shows "run_safe Q (run_bind m (\<lambda>(a, b, c). f a b c))"
  by (rule run_safe_bind [OF assms(1)]) (use assms(2) in auto)

lemma run_safe_bind4:
  assumes "run_safe (\<lambda>(a, b, c, d). P a b c d) m" "\<And>a b c d. P a b c d \<Longrightarrow> run_safe Q (f a b c d)"
  shows "run_safe Q (run_bind m (\<lambda>(a, b, c, d). f a b c d))"
  by (rule run_safe_bind [OF assms(1)]) (use assms(2) in auto)

lemma run_safe_bind5:
  assumes "run_safe (\<lambda>(a, b, c, d, e). P a b c d e) m" "\<And>a b c d e. P a b c d e \<Longrightarrow> run_safe Q (f a b c d e)"
  shows "run_safe Q (run_bind m (\<lambda>(a, b, c, d, e). f a b c d e))"
  by (rule run_safe_bind [OF assms(1)]) (use assms(2) in auto)

text \<open>
  Every step of the harness continues the life of the bridge, with the sockets it opened and closed
  appended.
\<close>

lemma worker_turns_life:
  "bridge_trace tech tr0 \<Longrightarrow> run_safe (\<lambda>(out, tr, t). bridge_trace t (tr0 @ tr)) (worker_turns tech es)"
proof (induction es arbitrary: tech tr0)
  case (Cons e es)
  have turn: "run_safe (\<lambda>(go, out, tr, t). bridge_trace t (tr0 @ tr)) (ws_worker_turn tech e)"
    by (rule run_safe_post [OF worker_turn_safe [OF trace_inv [OF Cons.prems]]]) (auto intro: turn [OF Cons.prems])
  show ?case
    unfolding worker_turns.simps
  proof (rule run_safe_bind4 [OF turn])
    fix go out1 tr1 t1 assume t: "bridge_trace t1 (tr0 @ tr1)"
    have "run_safe (\<lambda>(out, tr, t). bridge_trace t (tr0 @ tr))
        (run_bind (worker_turns t1 es) (\<lambda>(out2, tr2, t2). Ret (Some (out1 @ out2, tr1 @ tr2, t2))))"
      by (rule run_safe_bind3 [OF Cons.IH [OF t]]) auto
    then show "run_safe (\<lambda>(out, tr, t). bridge_trace t (tr0 @ tr)) (if go
        then run_bind (worker_turns t1 es) (\<lambda>(out2, tr2, t2). Ret (Some (out1 @ out2, tr1 @ tr2, t2)))
        else Ret (Some (out1, tr1, t1)))"
      using t by auto
  qed
qed auto

lemma harness_frame_life:
  assumes "bridge_trace tech tr0"
  shows "run_safe (\<lambda>(ok, n, out, tr, t). bridge_trace t (tr0 @ tr)) (harness_frame tech pcm e)"
  unfolding harness_frame_def
  by (rule run_safe_bind3 [OF worker_turns_life [OF assms]], rule run_safe_bind3 [OF worker_turns_life [OF audio_in]])
    (auto split: prod.split intro: audio_out)

lemma harness_frames_life:
  "bridge_trace tech tr0 \<Longrightarrow> run_safe (\<lambda>(ok, out, tr, t). bridge_trace t (tr0 @ tr)) (harness_frames tech tone i k es)"
proof (induction tech tone i k es arbitrary: tr0 rule: harness_frames.induct)
  case (3 tech tone i k e es)
  show ?case
    unfolding harness_frames.simps
  proof (rule run_safe_bind5 [OF harness_frame_life [OF "3.prems"]])
    fix ok n out1 tr1 t1 assume t: "bridge_trace t1 (tr0 @ tr1)"
    have "run_safe (\<lambda>(ok, out, tr, t). bridge_trace t (tr0 @ tr)) (run_bind (harness_frames t1 tone (Suc i) k es)
        (\<lambda>(ok2, out2, tr2, t2). Ret (Some (ok2, out1 @ out2, tr1 @ tr2, t2))))" if ok
      by (rule run_safe_bind4 [OF "3.IH" [OF _ t]]) (use that in auto)
    then show "run_safe (\<lambda>(ok, out, tr, t). bridge_trace t (tr0 @ tr)) (if \<not> ok then Ret (Some (False, out1, tr1, t1))
        else run_bind (harness_frames t1 tone (Suc i) k es) (\<lambda>(ok2, out2, tr2, t2). Ret (Some (ok2, out1 @ out2, tr1 @ tr2, t2))))"
      using t by auto
  qed
qed auto

lemma mark_life:
  assumes "bridge_trace tech tr" shows "run_safe (\<lambda>(ok, out, t). bridge_trace t tr) (rtw_bridge_send_mark tech name e)"
  by (rule run_safe_post [OF command_safe(2) [OF trace_inv [OF assms]]]) (auto intro: marked [OF assms])

lemma clear_life:
  assumes "bridge_trace tech tr" shows "run_safe (\<lambda>(ok, out, t). bridge_trace t tr) (rtw_bridge_clear tech e)"
  by (rule run_safe_post [OF command_safe(1) [OF trace_inv [OF assms]]]) (auto intro: cleared [OF assms])

lemma harness_control_life:
  assumes "bridge_trace tech tr0"
  shows "run_safe (\<lambda>(ok, out, tr, t). bridge_trace t (tr0 @ tr)) (harness_control tech e)" (is "run_safe ?P _")
proof -
  have last: "run_safe ?P (case rtw_bridge_apply_write_frame t (replicate 160 42) (cn_lock e) (cn_now e) of (n, frame, t6) \<Rightarrow>
      if n \<noteq> 0 \<or> frame ! 0 \<noteq> 42 then Ret (Some (False, out, tr, t6))
      else run_bind (worker_turns t6 (cn_worker4 e)) (\<lambda>(out6, tr6, t7).
        Ret (Some (harness_stats_ok t7 (cn_stats_lock e), out @ out6, tr @ tr6, t7))))"
    if "bridge_trace t (tr0 @ tr)" for t out tr
  proof -
    obtain n frame t6 where w: "rtw_bridge_apply_write_frame t (replicate 160 42) (cn_lock e) (cn_now e) = (n, frame, t6)"
      by (cases "rtw_bridge_apply_write_frame t (replicate 160 42) (cn_lock e) (cn_now e)")
    note t6 = audio_out [OF that w]
    have "run_safe ?P (run_bind (worker_turns t6 (cn_worker4 e)) (\<lambda>(out6, tr6, t7).
        Ret (Some (harness_stats_ok t7 (cn_stats_lock e), out @ out6, tr @ tr6, t7))))"
      by (rule run_safe_bind3 [OF worker_turns_life [OF t6]]) auto
    then show ?thesis using t6 by (auto simp: w)
  qed
  show ?thesis
    unfolding harness_control_def Let_def
    apply (rule run_safe_bind3 [OF worker_turns_life [OF assms]])
    apply (rule run_safe_bind3 [OF mark_life], assumption)
    apply (rule if_split [THEN iffD2], intro conjI impI, force)
    apply (rule run_safe_bind3 [OF worker_turns_life], assumption)
    apply (rule run_safe_bind3 [OF clear_life], assumption)
    apply (rule if_split [THEN iffD2], intro conjI impI, force)
    apply (rule run_safe_bind3 [OF worker_turns_life], assumption)
    subgoal for out1 tr1 t1 ok1 out2 t2 out3 tr3 t3 ok2 out4 t4 out5 tr5 t5
      using last [of t5 "tr1 @ tr3 @ tr5" "out1 @ out2 @ out3 @ out4 @ out5"] unfolding append_assoc .
    done
qed


lemma stub_stop_life:
  assumes "bridge_trace tech tr" "stub_get_tech (Some ses) = Some a" "h a = Some tech"
  shows "run_safe (\<lambda>(status, out, tr2, h2, ses2). status = SWITCH_STATUS_SUCCESS \<and> opened (tr @ tr2) = shut (tr @ tr2) \<and>
    h2 = h(a := None)) (stub_do_stop h ses e)"
proof -
  note c = bridge_invD(6) [OF trace_inv [OF assms(1)]]
  obtain ch where ch: "switch_core_session_get_channel (Some ses) = Some ch" "switch_channel_get_private (Some ch) (Some RTW_BUG_NAME) = Some a"
    using assms(2) by (auto simp: stub_get_tech_def split: option.splits)
  have "opened (tr @ tr2) = shut (tr @ tr2)" if "rtw_bridge_stop tech e = Some (out, tr2, freed)" for out tr2 freed
    using bridge_stop_socks [OF that c] bridge_trace_balance [OF assms(1)] by (simp add: held_def)
  then show ?thesis using assms(3) c by (auto simp: stub_do_stop_def ch Let_def)
qed

lemma harness_self_check_passes: "harness_self_check ssl"
  by (cases ssl) (simp_all add: harness_self_check_def rtw_validate_ws_uri_def)

text \<open>A start of the stub build that succeeds begins a life and puts the bridge where the channel says.\<close>

lemma stub_start_life:
  assumes "ses_channel ses = Some ch" "private_room ch RTW_BUG_NAME"
    and "switch_channel_get_private (Some ch) (Some RTW_BUG_NAME) = None"
  shows "run_safe (\<lambda>(status, out, tr, h1, ses1).
      if status = SWITCH_STATUS_SUCCESS then \<exists>tech. h1 = h(a := Some tech) \<and> bridge_trace tech tr \<and> stub_get_tech (Some ses1) = Some a
      else h1 = h \<and> opened tr = shut tr) (stub_start_capture h ses flags uri rate meta e a)"
proof -
  let ?m = "rtw_bridge_start uri rate (if flags AND SMBF_STEREO \<noteq> 0 then 2 else 1) meta e"
  let ?ch = "ch\<lparr>ch_pre_answered := True\<rparr>"
  have get: "stub_get_tech (Some (ses\<lparr>ses_channel := Some (switch_channel_set_private ?ch RTW_BUG_NAME (Some a))\<rparr>)) = Some a"
    using stub_channel.get_put [of ?ch RTW_BUG_NAME "Some a"] assms(2)
    by (simp add: stub_get_tech_def switch_core_session_get_channel_def)
  consider "?m = None" | out tr where "?m = Some (None, out, tr)" | tech out tr where "?m = Some (Some tech, out, tr)"
    by (metis option.exhaust prod_cases3)
  then show ?thesis
  proof cases
    case (3 tech out tr)
    with get begun [OF 3] assms show ?thesis
      by (auto simp: stub_start_capture_def switch_core_session_get_channel_def switch_channel_pre_answer_def Let_def run_safe_def)
  qed (use assms in \<open>auto simp: stub_start_capture_def switch_core_session_get_channel_def switch_channel_pre_answer_def Let_def
      dest: bridge_start_balance\<close>)
qed

lemma harness_capture_safe:
  assumes "h (hn_addr m) = None" "ses_channel ses = Some ch" "private_room ch RTW_BUG_NAME"
    and "switch_channel_get_private (Some ch) (Some RTW_BUG_NAME) = None"
  shows "run_safe (\<lambda>(rc, out, tr, h2). rc \<in> {0, 1} \<and> opened tr = shut tr \<and> h2 = h) (harness_capture h ses uri n m)"
    (is "run_safe ?P _")
  unfolding harness_capture_def
proof (rule run_safe_bind5 [OF stub_start_life [OF assms(2-4)]])
  fix status out0 tr0 h1 and ses1 :: stub_session
  let ?a = "hn_addr m"
  assume s: "if status = SWITCH_STATUS_SUCCESS
    then \<exists>tech. h1 = h(?a := Some tech) \<and> bridge_trace tech tr0 \<and> stub_get_tech (Some ses1) = Some ?a
    else h1 = h \<and> opened tr0 = shut tr0"
  let ?stop = "\<lambda>rc out tr h2. run_bind (stub_do_stop h2 ses1 (hn_stop m)) (\<lambda>(status, out9, tr9, h3, ses3).
    Ret (Some (if status = SWITCH_STATUS_SUCCESS then rc else 1, out @ out9, tr @ tr9, h3)))"
  show "run_safe ?P (if status \<noteq> SWITCH_STATUS_SUCCESS then Ret (Some (1, out0, tr0, h1))
    else let stop = ?stop
      in case stub_get_tech (Some ses1) of
        None \<Rightarrow> stop 1 out0 tr0 h1
      | Some a \<Rightarrow>
          (case h1 a of
             None \<Rightarrow> UB
           | Some tech \<Rightarrow>
               run_bind (harness_frames tech (hn_tone m) 0 n (hn_frames m)) (\<lambda>(ok1, out1, tr1, t1).
                 if \<not> ok1 then stop 1 (out0 @ out1) (tr0 @ tr1) (h1(a := Some t1))
                 else run_bind (harness_control t1 (hn_control m)) (\<lambda>(ok2, out2, tr2, t2).
                   stop (if ok2 then 0 else 1) (out0 @ out1 @ out2) (tr0 @ tr1 @ tr2) (h1(a := Some t2))))))"
  proof (cases "status = SWITCH_STATUS_SUCCESS")
    case True
    then obtain tech where t: "h1 = h(?a := Some tech)" "bridge_trace tech tr0" "stub_get_tech (Some ses1) = Some ?a" using s by auto
    have stop: "run_safe ?P (?stop rc out tr (h1(?a := Some t2)))" if "bridge_trace t2 tr" "rc \<in> {0, 1}" for rc out tr t2
    proof (rule run_safe_bind5 [OF stub_stop_life [OF that(1) t(3)]])
      show "(h1(?a := Some t2)) ?a = Some t2" by simp
    qed (use that(2) t(1) assms(1) in \<open>auto simp: fun_upd_idem\<close>)
    have control: "run_safe ?P (run_bind (harness_control t1 (hn_control m)) (\<lambda>(ok2, out2, tr2, t2).
        ?stop (if ok2 then 0 else 1) (out0 @ out1 @ out2) (tr0 @ tr1 @ tr2) (h1(?a := Some t2))))"
      if "bridge_trace t1 (tr0 @ tr1)" for t1 tr1 out1
      by (rule run_safe_bind4 [OF harness_control_life [OF that]], rule stop) auto
    have "run_safe ?P (run_bind (harness_frames tech (hn_tone m) 0 n (hn_frames m)) (\<lambda>(ok1, out1, tr1, t1).
        if \<not> ok1 then ?stop 1 (out0 @ out1) (tr0 @ tr1) (h1(?a := Some t1))
        else run_bind (harness_control t1 (hn_control m)) (\<lambda>(ok2, out2, tr2, t2).
          ?stop (if ok2 then 0 else 1) (out0 @ out1 @ out2) (tr0 @ tr1 @ tr2) (h1(?a := Some t2)))))"
    proof (rule run_safe_bind4 [OF harness_frames_life [OF t(2)]])
      fix ok1 out1 tr1 t1 assume life: "bridge_trace t1 (tr0 @ tr1)"
      have "run_safe ?P (?stop 1 (out0 @ out1) (tr0 @ tr1) (h1(?a := Some t1)))" by (rule stop [OF life]) simp
      with control [OF life] show "run_safe ?P (if \<not> ok1 then ?stop 1 (out0 @ out1) (tr0 @ tr1) (h1(?a := Some t1))
          else run_bind (harness_control t1 (hn_control m)) (\<lambda>(ok2, out2, tr2, t2).
            ?stop (if ok2 then 0 else 1) (out0 @ out1 @ out2) (tr0 @ tr1 @ tr2) (h1(?a := Some t2))))"
        by (cases ok1) (simp_all only: simp_thms if_True if_False)
    qed
    then show ?thesis using True t by (simp add: Let_def)
  qed (use s in auto)
qed

text \<open>
  The stand-in for the audio of the other leg is a value no mu-law code decodes to, so in replace mode the
  check of a frame never fails, whatever the peer sent.
\<close>

lemma decode_not_1000: "rtw_mulaw_to_linear c \<noteq> 1000"
proof
  assume c: "rtw_mulaw_to_linear c = 1000"
  have "rtw_linear_to_mulaw 1000 = 0xCE" by code_simp
  with mulaw_recode [of c] c have "c = 0xCE \<or> c = 0x7F" by (simp split: if_splits)
  moreover have "rtw_mulaw_to_linear 0xCE \<noteq> 1000" "rtw_mulaw_to_linear 0x7F \<noteq> 1000" by code_simp+
  ultimately show False using c by auto
qed

lemma frame_check_sound:
  assumes "tech_inject_mode t = RTW_INJECT_REPLACE"
    and "rtw_bridge_apply_write_frame t (replicate 160 1000) lock now = (n, frame, t2)"
  shows "if n > 0 then frame ! 0 \<noteq> 1000 else frame ! 0 = 1000"
proof -
  obtain mulaw s1 where m: "take_playout (tech_session t) 160 now = (mulaw, s1)" by fastforce
  have "rtw_mulaw_to_pcm16 mulaw ! 0 \<noteq> 1000" "rtw_mulaw_to_pcm16 mulaw \<noteq> []" if "mulaw \<noteq> []"
    using that decode_not_1000 by (cases mulaw; simp add: rtw_mulaw_to_pcm16_def)+
  then show ?thesis
    using assms m by (auto simp: rtw_bridge_apply_write_frame_def Let_def nth_append split: if_splits)
qed


definition demo_harness :: harness_env where
  "demo_harness = \<lparr>hn_openssl = False, hn_session = True, hn_channel = True, hn_start = (good_start [])\<lparr>st_calloc := False\<rparr>,
     hn_addr = 4096, hn_tone = (\<lambda>_. []), hn_frames = [], hn_control = \<lparr>cn_worker = [], cn_mark = quick_env, cn_worker2 = [],
       cn_clear = quick_env, cn_worker3 = [], cn_lock = True, cn_now = 0, cn_worker4 = [], cn_stats_lock = True\<rparr>,
     hn_stop = ce_stop demo_capture\<rparr>"


end
