(* ===== verification/Rtw_Sim.thy ===== *)
theory Rtw_Sim
  imports Rtw_Bridge_Sockets
begin

text \<open>
  The simulator \<open>src/sim/rtw_sim.c\<close>: one thread that runs a session over a client without FreeSWITCH. It
  sends a fixed block of audio every 20 ms, hands the texts of the peer to the session, and reports
  whether a mark named \<open>cleartest\<close> was acknowledged.
  \<^item> Everything happens in the main thread; the callbacks run inside \<open>rtw_ws_poll\<close>, so the mutex is always
    free, and its outcome, which the code does not test, plays no part.
  \<^item> The clock is an argument: each turn carries whether the end was not yet reached.
  \<^item> Each pass of a loop that sends consumes the outcomes it meets from a list; \<open>None\<close> means that the list
    ended too early. Printing has no counterpart.
\<close>

section \<open>Definitions\<close>

record sim_ctx_t =
  ctx_session :: rtw_session_t
  ctx_ws :: rtw_ws_client_t
  ctx_running :: bool
  ctx_got_clear_ack :: bool
  ctx_peer_media_frames :: nat
  ctx_clear_test :: bool

definition event_text :: "string \<Rightarrow> string" where
  "event_text name = QUOTE # ''event'' @ [QUOTE, CHR '':'', QUOTE] @ name @ [QUOTE]"

definition is_clear_ack :: "string \<Rightarrow> bool" where
  "is_clear_ack copy \<longleftrightarrow> contains (event_text ''mark'') copy \<and> contains ''cleartest'' copy"

definition sim_send :: "sim_ctx_t \<Rightarrow> string \<Rightarrow> flush_env \<Rightarrow> (int \<times> bytes) option" where
  "sim_send ctx json e = rtw_ws_send_text (ctx_ws ctx) json (f_urandom e) (f_malloc e) (f_sends e)"

text \<open>
  Sending what is queued, in the three variants of the code: in the callback, which looks for the
  acknowledgement; after the start, where a failed send ends the program; and otherwise.
\<close>

fun drain_acks :: "sim_ctx_t \<Rightarrow> flush_env list \<Rightarrow> (bytes \<times> sim_ctx_t) option" where
  "drain_acks ctx [] = None"
| "drain_acks ctx (e # es) =
     (case rtw_session_pop_outbound (ctx_session ctx) (f_mem e) of
        (None, s1) \<Rightarrow> Some ([], ctx\<lparr>ctx_session := s1\<rparr>)
      | (Some copy, s1) \<Rightarrow>
          (case sim_send ctx copy e of
             None \<Rightarrow> None
           | Some (rc, out) \<Rightarrow>
               map_option (\<lambda>(out2, ctx2). (out @ out2, ctx2))
                 (drain_acks (ctx\<lparr>ctx_session := s1, ctx_got_clear_ack := ctx_got_clear_ack ctx \<or> is_clear_ack copy\<rparr>) es)))"

fun drain_start :: "sim_ctx_t \<Rightarrow> flush_env list \<Rightarrow> (int \<times> bytes \<times> sim_ctx_t) option" where
  "drain_start ctx [] = None"
| "drain_start ctx (e # es) =
     (case rtw_session_pop_outbound (ctx_session ctx) (f_mem e) of
        (None, s1) \<Rightarrow> Some (0, [], ctx\<lparr>ctx_session := s1\<rparr>)
      | (Some json, s1) \<Rightarrow>
          (case sim_send ctx json e of
             None \<Rightarrow> None
           | Some (rc, out) \<Rightarrow>
               if rc \<noteq> 0 then Some (1, out, ctx\<lparr>ctx_session := s1\<rparr>)
               else map_option (\<lambda>(rc2, out2, ctx2). (rc2, out @ out2, ctx2))
                      (drain_start (ctx\<lparr>ctx_session := s1\<rparr>) es)))"

fun drain_rest :: "sim_ctx_t \<Rightarrow> flush_env list \<Rightarrow> (bytes \<times> sim_ctx_t) option" where
  "drain_rest ctx [] = None"
| "drain_rest ctx (e # es) =
     (case rtw_session_pop_outbound (ctx_session ctx) (f_mem e) of
        (None, s1) \<Rightarrow> Some ([], ctx\<lparr>ctx_session := s1\<rparr>)
      | (Some json, s1) \<Rightarrow>
          (case sim_send ctx json e of
             None \<Rightarrow> None
           | Some (rc, out) \<Rightarrow>
               map_option (\<lambda>(out2, ctx2). (out @ out2, ctx2)) (drain_rest (ctx\<lparr>ctx_session := s1\<rparr>) es)))"

subsection \<open>Callbacks\<close>

definition sim_on_text :: "sim_ctx_t \<Rightarrow> string \<Rightarrow> text_env \<Rightarrow> (bytes \<times> sim_ctx_t) run" where
  "sim_on_text ctx msg e =
     exec_bind (rtw_session_handle_peer_json (ctx_session ctx) (c_str msg) (x_malloc e) (x_now e) (x_mem e)) (\<lambda>(rc, s1).
       let ctx1 = ctx\<lparr>ctx_session := s1,
             ctx_peer_media_frames := ctx_peer_media_frames ctx +
               (if rc = 0 \<and> contains (event_text ''media'') (c_str msg) then 1 else 0)\<rparr>
       in Ret (drain_acks ctx1 (x_flush e)))"

definition sim_on_close :: "sim_ctx_t \<Rightarrow> sim_ctx_t" where
  "sim_on_close ctx = ctx\<lparr>ctx_running := False\<rparr>"

fun sim_dispatch :: "sim_ctx_t \<Rightarrow> ws_event list \<Rightarrow> (nat \<Rightarrow> text_env) \<Rightarrow> nat \<Rightarrow> (bytes \<times> sim_ctx_t) run" where
  "sim_dispatch ctx [] e i = Ret (Some ([], ctx))"
| "sim_dispatch ctx (On_Close code # evs) e i = sim_dispatch (sim_on_close ctx) evs e i"
| "sim_dispatch ctx (On_Text msg # evs) e i =
     run_bind (sim_on_text ctx msg (e i)) (\<lambda>(out1, ctx1).
     run_bind (sim_dispatch ctx1 evs e (Suc i)) (\<lambda>(out2, ctx2). Ret (Some (out1 @ out2, ctx2))))"

subsection \<open>The main loop\<close>

definition sim_pcm :: "int16 list" where
  "sim_pcm = map (\<lambda>i. of_nat ((i * 200) mod 5000)) [0..<160]"

record turn_env =
  t_before_end :: bool
  t_push :: alloc
  t_drain :: "flush_env list"
  t_poll :: poll_result
  t_realloc :: bool
  t_text_mem :: "nat \<Rightarrow> bool"
  t_texts :: "nat \<Rightarrow> text_env"

text \<open>One turn: whether the loop goes on, the bytes on the wire, and the context.\<close>

definition sim_turn :: "sim_ctx_t \<Rightarrow> turn_env \<Rightarrow> (bool \<times> bytes \<times> sim_ctx_t) run" where
  "sim_turn ctx e =
     (if \<not> (ctx_running ctx \<and> t_before_end e) then Ret (Some (False, [], ctx))
      else let ctx1 = ctx\<lparr>ctx_session := snd (rtw_session_push_pcm16 (ctx_session ctx) sim_pcm (t_push e))\<rparr>
        in run_bind (Ret (drain_rest ctx1 (t_drain e))) (\<lambda>(out1, ctx2).
           let ctx3 = ctx2\<lparr>ctx_session := snd (rtw_session_read_playout (ctx_session ctx2) 320)\<rparr>
           in case rtw_ws_poll (ctx_ws ctx3) (t_poll e) (t_realloc e) (t_text_mem e) of
                (rc, evs, ws) \<Rightarrow>
                  run_bind (sim_dispatch (ctx3\<lparr>ctx_ws := ws\<rparr>) evs (t_texts e) 0) (\<lambda>(out2, ctx4).
                    Ret (Some (\<not> rc < 0, out1 @ out2, ctx4)))))"

fun sim_loop :: "sim_ctx_t \<Rightarrow> turn_env list \<Rightarrow> (bytes \<times> sim_ctx_t) run" where
  "sim_loop ctx [] = Ret None"
| "sim_loop ctx (e # es) =
     run_bind (sim_turn ctx e) (\<lambda>(go, out1, ctx1).
       if go then run_bind (sim_loop ctx1 es) (\<lambda>(out2, ctx2). Ret (Some (out1 @ out2, ctx2)))
       else Ret (Some (out1, ctx1)))"

subsection \<open>Arguments\<close>

record sim_args =
  arg_url :: "string option"
  arg_sid :: string
  arg_seconds :: int
  arg_clear_test :: bool

definition default_args :: sim_args where
  "default_args = \<lparr>arg_url = None, arg_sid = ''MZ000000000000000000000000000001'', arg_seconds = 2, arg_clear_test = False\<rparr>"

text \<open>The arguments behind the program name; \<open>None\<close> is the usage message and the return code 2.\<close>

fun sim_parse_args :: "string list \<Rightarrow> sim_args \<Rightarrow> sim_args option" where
  "sim_parse_args [] a = Some a"
| "sim_parse_args [x] a = (if x = ''--clear-test'' then Some (a\<lparr>arg_clear_test := True\<rparr>) else None)"
| "sim_parse_args (x # v # vs) a =
     (if x = ''--url'' then sim_parse_args vs (a\<lparr>arg_url := Some v\<rparr>)
      else if x = ''--seconds'' then sim_parse_args vs (a\<lparr>arg_seconds := atoi v\<rparr>)
      else if x = ''--clear-test'' then sim_parse_args (v # vs) (a\<lparr>arg_clear_test := True\<rparr>)
      else if x = ''--stream-sid'' then sim_parse_args vs (a\<lparr>arg_sid := v\<rparr>)
      else None)"

subsection \<open>The program\<close>

record sim_env =
  sm_queue_calloc :: bool
  sm_playout_malloc :: "(nat \<Rightarrow> uint8) option"
  sm_connect :: connect_env
  sm_strdup :: bool
  sm_start_mem :: alloc
  sm_start_drain :: "flush_env list"
  sm_turns :: "turn_env list"
  sm_stop_mem :: "bool \<times> bool"
  sm_stop_drain :: "flush_env list"

definition sim_params :: string where
  "sim_params = CHR ''{'' # QUOTE # ''source'' @ [QUOTE, CHR '':'', QUOTE] @ ''rtw_sim'' @ [QUOTE, CHR ''}'']"

text \<open>The part behind the label \<open>done\<close>: the client is closed and the session destroyed.\<close>

definition sim_done :: "int \<Rightarrow> bytes \<Rightarrow> sock_event list \<Rightarrow> sim_ctx_t \<Rightarrow> int \<times> bytes \<times> sock_event list" where
  "sim_done rc out tr ctx = (rc, out, tr @ rtw_ws_close (ctx_ws ctx))"

text \<open>After the main loop: the verdict, and the end of the stream.\<close>

definition sim_finish :: "bytes \<Rightarrow> sock_event list \<Rightarrow> sim_ctx_t \<Rightarrow> sim_env \<Rightarrow> (int \<times> bytes \<times> sock_event list) run" where
  "sim_finish out tr ctx m =
     (let rc = (if ctx_clear_test ctx \<and> \<not> ctx_got_clear_ack ctx then 1 else 0);
          ctx1 = ctx\<lparr>ctx_session := snd (rtw_session_stop (ctx_session ctx) (sm_stop_mem m))\<rparr>
      in run_bind (Ret (drain_rest ctx1 (sm_stop_drain m))) (\<lambda>(out2, ctx2).
           Ret (Some (sim_done rc (out @ out2) tr ctx2))))"

text \<open>
  From the connection on: the start of the stream, the main loop and the end; it returns the return code,
  the bytes on the wire, and the sockets opened and closed.
\<close>

definition sim_run ::
  "sim_args \<Rightarrow> rtw_session_t \<Rightarrow> rtw_ws_client_t \<Rightarrow> sock_event list \<Rightarrow> sim_env \<Rightarrow> (int \<times> bytes \<times> sock_event list) run" where
  "sim_run a s c tr m =
     (case rtw_session_start s (arg_sid a) (Some ''CAsim'') (Some ''ACsim'') (Some sim_params) (sm_strdup m) (sm_start_mem m) of
        (rc, s1) \<Rightarrow>
          let ctx = \<lparr>ctx_session = s1, ctx_ws = c, ctx_running = True, ctx_got_clear_ack = False,
                     ctx_peer_media_frames = 0, ctx_clear_test = arg_clear_test a\<rparr>
          in if rc \<noteq> 0 then Ret (Some (sim_done 1 [] tr ctx))
             else run_bind (Ret (drain_start ctx (sm_start_drain m))) (\<lambda>(rc1, out1, ctx1).
               if rc1 \<noteq> 0 then Ret (Some (sim_done 1 out1 tr ctx1))
               else run_bind (sim_loop ctx1 (sm_turns m)) (\<lambda>(out2, ctx2). sim_finish (out1 @ out2) tr ctx2 m)))"

definition sim_main :: "string list \<Rightarrow> sim_env \<Rightarrow> (int \<times> bytes \<times> sock_event list) run" where
  "sim_main argv m =
     (case sim_parse_args argv default_args of
        None \<Rightarrow> Ret (Some (2, [], []))
      | Some a \<Rightarrow>
          (case arg_url a of
             None \<Rightarrow> Ret (Some (2, [], []))
           | Some url \<Rightarrow>
               (case rtw_session_init 256 (64 * 1024) (sm_queue_calloc m) (sm_playout_malloc m) of
                  None \<Rightarrow> Ret (Some (1, [], []))
                | Some s \<Rightarrow>
                    (case rtw_ws_connect url (sm_connect m) of
                       (None, tr) \<Rightarrow> Ret (Some (1, [], tr))
                     | (Some c, tr) \<Rightarrow> sim_run a s c tr m))))"

section \<open>No undefined behaviour, no leak\<close>

text \<open>What every step keeps of a context: a well-formed session, the socket and the mode of the test.\<close>

definition sim_kept :: "sim_ctx_t \<Rightarrow> sim_ctx_t \<Rightarrow> bool" where
  "sim_kept ctx ctx2 \<longleftrightarrow> session_inv (ctx_session ctx2) \<and> c_fd (ctx_ws ctx2) = c_fd (ctx_ws ctx) \<and>
     ctx_clear_test ctx2 = ctx_clear_test ctx"

lemma sim_kept_trans: "sim_kept a b \<Longrightarrow> sim_kept b c \<Longrightarrow> sim_kept a c"
  by (simp add: sim_kept_def)

lemma sim_kept_refl: "session_inv (ctx_session ctx) \<Longrightarrow> sim_kept ctx ctx"
  by (simp add: sim_kept_def)

lemma sim_kept_inv: "sim_kept a b \<Longrightarrow> session_inv (ctx_session b)"
  by (simp add: sim_kept_def)

lemma sim_kept_close: "sim_kept a b \<Longrightarrow> rtw_ws_close (ctx_ws b) = rtw_ws_close (ctx_ws a)"
  by (simp add: sim_kept_def rtw_ws_close_def)

lemma drain_acks_kept:
  "session_inv (ctx_session ctx) \<Longrightarrow> drain_acks ctx es = Some (out, ctx2) \<Longrightarrow> sim_kept ctx ctx2"
proof (induction es arbitrary: ctx out)
  case (Cons e es)
  obtain r s1 where p: "rtw_session_pop_outbound (ctx_session ctx) (f_mem e) = (r, s1)" by fastforce
  have inv: "session_inv s1" using pop_outbound_inv [OF Cons.prems(1), of "f_mem e"] p by simp
  show ?case
  proof (cases r)
    case None
    with Cons.prems(2) p inv show ?thesis by (auto simp: sim_kept_def)
  next
    case (Some json)
    let ?ctx = "ctx\<lparr>ctx_session := s1, ctx_got_clear_ack := ctx_got_clear_ack ctx \<or> is_clear_ack json\<rparr>"
    consider (sent) out2 where "drain_acks ?ctx es = Some (out2, ctx2)"
      using Cons.prems(2) p Some by (auto split: option.splits if_splits)
    then show ?thesis
    proof cases
      case (sent out2)
      from Cons.IH [OF _ this] inv show ?thesis by (simp add: sim_kept_def)
    qed
  qed
qed simp

lemma drain_rest_kept:
  "session_inv (ctx_session ctx) \<Longrightarrow> drain_rest ctx es = Some (out, ctx2) \<Longrightarrow> sim_kept ctx ctx2"
proof (induction es arbitrary: ctx out)
  case (Cons e es)
  obtain r s1 where p: "rtw_session_pop_outbound (ctx_session ctx) (f_mem e) = (r, s1)" by fastforce
  have inv: "session_inv s1" using pop_outbound_inv [OF Cons.prems(1), of "f_mem e"] p by simp
  show ?case
  proof (cases r)
    case None
    with Cons.prems(2) p inv show ?thesis by (auto simp: sim_kept_def)
  next
    case (Some json)
    let ?ctx = "ctx\<lparr>ctx_session := s1\<rparr>"
    consider (sent) out2 where "drain_rest ?ctx es = Some (out2, ctx2)"
      using Cons.prems(2) p Some by (auto split: option.splits if_splits)
    then show ?thesis
    proof cases
      case (sent out2)
      from Cons.IH [OF _ this] inv show ?thesis by (simp add: sim_kept_def)
    qed
  qed
qed simp

lemma drain_start_kept:
  "session_inv (ctx_session ctx) \<Longrightarrow> drain_start ctx es = Some (rc, out, ctx2) \<Longrightarrow> sim_kept ctx ctx2"
proof (induction es arbitrary: ctx out)
  case (Cons e es)
  obtain r s1 where p: "rtw_session_pop_outbound (ctx_session ctx) (f_mem e) = (r, s1)" by fastforce
  have inv: "session_inv s1" using pop_outbound_inv [OF Cons.prems(1), of "f_mem e"] p by simp
  show ?case
  proof (cases r)
    case None
    with Cons.prems(2) p inv show ?thesis by (auto simp: sim_kept_def)
  next
    case (Some json)
    let ?ctx = "ctx\<lparr>ctx_session := s1\<rparr>"
    consider (sent) out2 where "drain_start ?ctx es = Some (rc, out2, ctx2)" | (failed) "ctx2 = ?ctx"
      using Cons.prems(2) p Some by (auto split: option.splits if_splits)
    then show ?thesis
    proof cases
      case (sent out2)
      from Cons.IH [OF _ this] inv show ?thesis by (simp add: sim_kept_def)
    qed (use inv in \<open>simp add: sim_kept_def\<close>)
  qed
qed simp

lemma sim_on_text_safe:
  assumes "session_inv (ctx_session ctx)" "length msg \<le> 65535"
  shows "run_safe (\<lambda>(out, ctx2). sim_kept ctx ctx2) (sim_on_text ctx msg e)"
proof -
  have "length (c_str msg) \<le> 65535" using assms(2) length_takeWhile_le le_trans unfolding c_str_def by blast
  from handle_peer_json_total [OF this] obtain rc s1
    where s: "rtw_session_handle_peer_json (ctx_session ctx) (c_str msg) (x_malloc e) (x_now e) (x_mem e) = Ret (rc, s1)"
    by blast
  let ?ctx = "ctx\<lparr>ctx_session := s1, ctx_peer_media_frames := ctx_peer_media_frames ctx +
    (if rc = 0 \<and> contains (event_text ''media'') (c_str msg) then 1 else 0)\<rparr>"
  have "session_inv (ctx_session ?ctx)" using handle_peer_json_inv [OF assms(1) s] by simp
  from drain_acks_kept [OF this, of "x_flush e"]
  have "run_safe (\<lambda>(out, ctx2). sim_kept ?ctx ctx2) (Ret (drain_acks ?ctx (x_flush e)))" by auto
  then have "run_safe (\<lambda>(out, ctx2). sim_kept ctx ctx2) (Ret (drain_acks ?ctx (x_flush e)))"
    by (rule run_safe_mono) (auto simp: sim_kept_def)
  then show ?thesis by (simp only: sim_on_text_def s Let_def exec_bind_simps prod.case)
qed

lemma sim_dispatch_safe:
  assumes "session_inv (ctx_session ctx)" "\<And>t. On_Text t \<in> set evs \<Longrightarrow> length t \<le> 65535"
  shows "run_safe (\<lambda>(out, ctx2). sim_kept ctx ctx2) (sim_dispatch ctx evs e i)"
  using assms
proof (induction ctx evs e i rule: sim_dispatch.induct)
  case (1 ctx e i)
  then show ?case by (auto simp: sim_kept_refl)
next
  case (2 ctx code evs e i)
  then show ?case by (auto simp: sim_on_close_def sim_kept_def)
next
  case (3 ctx m evs e i)
  have m: "length m \<le> 65535" using "3.prems"(2) by simp
  show ?case
    unfolding sim_dispatch.simps
  proof (rule run_safe_bind [OF sim_on_text_safe [OF "3.prems"(1) m]])
    fix x :: "bytes \<times> sim_ctx_t" assume "case x of (out, ctx2) \<Rightarrow> sim_kept ctx ctx2"
    then obtain out1 ctx1 where x: "x = (out1, ctx1)" "sim_kept ctx ctx1" by (cases x) auto
    have "run_safe (\<lambda>(out, ctx2). sim_kept ctx1 ctx2) (sim_dispatch ctx1 evs e (Suc i))"
      by (rule 3(1)) (use "3.prems"(2) x sim_kept_inv in auto)
    then show "run_safe (\<lambda>(out, ctx2). sim_kept ctx ctx2) (case x of (out1, ctx1) \<Rightarrow>
        run_bind (sim_dispatch ctx1 evs e (Suc i)) (\<lambda>(out2, ctx2). Ret (Some (out1 @ out2, ctx2))))"
      unfolding x(1) prod.case by (rule run_safe_bind) (use sim_kept_trans [OF x(2)] in auto)
  qed
qed

lemma sim_turn_safe:
  assumes "session_inv (ctx_session ctx)"
  shows "run_safe (\<lambda>(go, out, ctx2). sim_kept ctx ctx2) (sim_turn ctx e)"
proof (cases "ctx_running ctx \<and> t_before_end e")
  case False
  then show ?thesis using assms by (auto simp: sim_turn_def sim_kept_refl)
next
  case True
  let ?ctx1 = "ctx\<lparr>ctx_session := snd (rtw_session_push_pcm16 (ctx_session ctx) sim_pcm (t_push e))\<rparr>"
  have k1: "sim_kept ctx ?ctx1" using push_pcm16_inv [OF assms] by (simp add: sim_kept_def)
  show ?thesis
  proof (cases "drain_rest ?ctx1 (t_drain e)")
    case None
    then show ?thesis using True by (simp add: sim_turn_def Let_def run_bind_def run_safe_def)
  next
    case (Some r)
    then obtain out1 ctx2 where r: "drain_rest ?ctx1 (t_drain e) = Some (out1, ctx2)" by (cases r) simp
    note k2 = sim_kept_trans [OF k1 drain_rest_kept [OF sim_kept_inv [OF k1] r]]
    let ?ctx3 = "ctx2\<lparr>ctx_session := snd (rtw_session_read_playout (ctx_session ctx2) 320)\<rparr>"
    obtain rc evs ws where p: "rtw_ws_poll (ctx_ws ?ctx3) (t_poll e) (t_realloc e) (t_text_mem e) = (rc, evs, ws)"
      by (cases "rtw_ws_poll (ctx_ws ?ctx3) (t_poll e) (t_realloc e) (t_text_mem e)")
    have k3: "sim_kept ctx (?ctx3\<lparr>ctx_ws := ws\<rparr>)"
      using k2 read_playout_inv [OF sim_kept_inv [OF k2]] poll_fd [OF p] by (simp add: sim_kept_def)
    have "run_safe (\<lambda>(out, ctx4). sim_kept (?ctx3\<lparr>ctx_ws := ws\<rparr>) ctx4) (sim_dispatch (?ctx3\<lparr>ctx_ws := ws\<rparr>) evs (t_texts e) 0)"
      by (rule sim_dispatch_safe [OF sim_kept_inv [OF k3]]) (use poll_text_bound [OF p] in auto)
    then have "run_safe (\<lambda>(go, out, ctx2). sim_kept ctx ctx2) (run_bind (sim_dispatch (?ctx3\<lparr>ctx_ws := ws\<rparr>) evs (t_texts e) 0)
        (\<lambda>(out2, ctx4). Ret (Some (\<not> rc < 0, out1 @ out2, ctx4))))"
      by (rule run_safe_bind) (use sim_kept_trans [OF k3] in auto)
    then show ?thesis using True r p by (simp add: sim_turn_def Let_def run_bind_def [of "Ret _"])
  qed
qed

lemma sim_loop_safe:
  "session_inv (ctx_session ctx) \<Longrightarrow> run_safe (\<lambda>(out, ctx2). sim_kept ctx ctx2) (sim_loop ctx es)"
proof (induction es arbitrary: ctx)
  case (Cons e es)
  show ?case
    unfolding sim_loop.simps
  proof (rule run_safe_bind [OF sim_turn_safe [OF Cons.prems]])
    fix x :: "bool \<times> bytes \<times> sim_ctx_t" assume "case x of (go, out, ctx2) \<Rightarrow> sim_kept ctx ctx2"
    then obtain go out1 ctx1 where x: "x = (go, out1, ctx1)" "sim_kept ctx ctx1" by (cases x) auto
    have "run_safe (\<lambda>(out, ctx2). sim_kept ctx ctx2) (run_bind (sim_loop ctx1 es) (\<lambda>(out2, ctx2). Ret (Some (out1 @ out2, ctx2))))"
      by (rule run_safe_bind [OF Cons.IH [OF sim_kept_inv [OF x(2)]]]) (use sim_kept_trans [OF x(2)] in auto)
    then show "run_safe (\<lambda>(out, ctx2). sim_kept ctx ctx2) (case x of (go, out1, ctx1) \<Rightarrow>
        if go then run_bind (sim_loop ctx1 es) (\<lambda>(out2, ctx2). Ret (Some (out1 @ out2, ctx2))) else Ret (Some (out1, ctx1)))"
      using x by auto
  qed
qed (auto simp: run_safe_def)

lemma sim_finish_safe:
  assumes "session_inv (ctx_session ctx)"
  shows "run_safe (\<lambda>(rc, out2, tr2). (rc = 0 \<or> rc = 1) \<and> (rc = 0 \<longrightarrow> ctx_clear_test ctx \<longrightarrow> ctx_got_clear_ack ctx) \<and>
    tr2 = tr @ rtw_ws_close (ctx_ws ctx)) (sim_finish out tr ctx m)"
proof -
  let ?ctx1 = "ctx\<lparr>ctx_session := snd (rtw_session_stop (ctx_session ctx) (sm_stop_mem m))\<rparr>"
  have k: "sim_kept ctx ?ctx1" using stop_inv [OF assms] by (simp add: sim_kept_def)
  show ?thesis
  proof (cases "drain_rest ?ctx1 (sm_stop_drain m)")
    case None
    then show ?thesis by (simp add: sim_finish_def Let_def run_bind_def run_safe_def)
  next
    case (Some r)
    then obtain out2 ctx2 where r: "drain_rest ?ctx1 (sm_stop_drain m) = Some (out2, ctx2)" by (cases r) simp
    note c = sim_kept_close [OF sim_kept_trans [OF k drain_rest_kept [OF sim_kept_inv [OF k] r]]]
    show ?thesis using r c by (auto simp: sim_finish_def sim_done_def Let_def run_bind_def run_safe_def)
  qed
qed

lemma parse_args_sid:
  assumes "sim_parse_args argv a = Some b" "\<forall>x \<in> set argv. NUL \<notin> set x" "NUL \<notin> set (arg_sid a)"
  shows "NUL \<notin> set (arg_sid b)"
  using assms by (induction argv a rule: sim_parse_args.induct) (auto split: if_splits)

lemma sim_run_safe:
  assumes "session_inv s" "NUL \<notin> set (arg_sid a)" "0 \<le> c_fd c" "opened tr = shut tr + {#nat (c_fd c)#}"
  shows "run_safe (\<lambda>(rc, out, tr2). rc \<in> {0, 1, 2} \<and> opened tr2 = shut tr2) (sim_run a s c tr m)" (is "run_safe ?P _")
proof -
  obtain rc0 s1 where st: "rtw_session_start s (arg_sid a) (Some ''CAsim'') (Some ''ACsim'') (Some sim_params)
      (sm_strdup m) (sm_start_mem m) = (rc0, s1)" by fastforce
  let ?ctx = "\<lparr>ctx_session = s1, ctx_ws = c, ctx_running = True, ctx_got_clear_ack = False,
    ctx_peer_media_frames = 0, ctx_clear_test = arg_clear_test a\<rparr>"
  have inv: "session_inv (ctx_session ?ctx)"
    using rtw_session_start_inv [OF assms(1,2), of "Some ''CAsim''" "Some ''ACsim''" "Some sim_params" "sm_strdup m" "sm_start_mem m"] st
    by simp
  have closed: "opened (tr @ rtw_ws_close (ctx_ws ctx)) = shut (tr @ rtw_ws_close (ctx_ws ctx))" if "sim_kept ?ctx ctx" for ctx
    using sim_kept_close [OF that] assms(3,4) by (simp add: rtw_ws_close_def)
  have fin: "run_safe ?P (sim_finish out tr ctx m)" if "sim_kept ?ctx ctx" for out ctx
    by (rule run_safe_mono [OF sim_finish_safe [OF sim_kept_inv [OF that]]]) (use closed [OF that] in auto)
  have loop: "run_safe ?P (run_bind (sim_loop ctx es) (\<lambda>(out2, ctx2). sim_finish (out1 @ out2) tr ctx2 m))"
    if "sim_kept ?ctx ctx" for ctx es out1
    by (rule run_safe_bind [OF sim_loop_safe [OF sim_kept_inv [OF that]]]) (use fin sim_kept_trans [OF that] in auto)
  have start: "run_safe (\<lambda>(rc, out, ctx). sim_kept ?ctx ctx) (Ret (drain_start ?ctx (sm_start_drain m)))"
    using drain_start_kept [OF inv] by auto
  have "run_safe ?P (run_bind (Ret (drain_start ?ctx (sm_start_drain m))) (\<lambda>(rc1, out1, ctx1).
      if rc1 \<noteq> 0 then Ret (Some (sim_done 1 out1 tr ctx1))
      else run_bind (sim_loop ctx1 (sm_turns m)) (\<lambda>(out2, ctx2). sim_finish (out1 @ out2) tr ctx2 m)))"
    by (rule run_safe_bind [OF start]) (use loop closed in \<open>auto simp: sim_done_def\<close>)
  then show ?thesis
    using closed [OF sim_kept_refl [OF inv]] by (auto simp: sim_run_def st Let_def sim_done_def)
qed


definition demo_sim :: sim_env where
  "demo_sim = \<lparr>sm_queue_calloc = True, sm_playout_malloc = Some (\<lambda>_. 0), sm_connect = good_connect, sm_strdup = True,
     sm_start_mem = (\<lambda>_. (False, False)), sm_start_drain = [], sm_turns = [], sm_stop_mem = (True, True), sm_stop_drain = []\<rparr>"


text \<open>The option \<open>--stress-id\<close> of the usage comment does not exist: it ends the program with the usage message.\<close>

lemma sim_rejects_stress_id: "sim_main (''--url'' # url # ''--stress-id'' # args) m = Ret (Some (2, [], []))"
  by (cases args) (simp_all add: sim_main_def)

end
