(* ===== verification/Mod_Command_Race.thy ===== *)
theory Mod_Command_Race
  imports Mod_Realtime_Ws_Correct
begin

text \<open>
  Commands of \<open>src/mod/mod_realtime_ws.c\<close> that run in several threads at once. A command first reads
  the private value and the pointer of its bug and then works on the bridge behind it; the call is only
  locked against its end, so a stop by command may come in between. Each command is cut there:
  \<open>find_tech\<close> is the first half, the functions ending in \<open>_found\<close> are the second halves, and
  \<open>race_step\<close> interleaves them with everything \<open>switch_step\<close> has.
\<close>

section \<open>Definitions\<close>

definition find_tech :: "switch_state \<Rightarrow> string \<Rightarrow> addr option c_exec" where
  "find_tech st sid =
     (case sw_private st sid of None \<Rightarrow> Ret None | Some b \<Rightarrow> bug_get_user_data st b Ret)"

definition pause_found :: "switch_state \<Rightarrow> addr \<Rightarrow> bool \<Rightarrow> bool \<Rightarrow> command_outcome" where
  "pause_found st a pause lock = deref st a (\<lambda>tech.
     case rtw_bridge_pause tech pause lock of (ok, t1) \<Rightarrow> Ret (Some ([], Some (of_ok ok), [], [], store st a t1)))"

definition bridge_found :: "switch_state \<Rightarrow> addr \<Rightarrow> (rtw_tech_t \<Rightarrow> (bool \<times> bytes \<times> rtw_tech_t) run) \<Rightarrow> command_outcome" where
  "bridge_found st a act = deref st a (\<lambda>tech.
     run_bind (act tech) (\<lambda>(ok, out, t1). Ret (Some ([], Some (of_ok ok), out, [], store st a t1))))"

definition status_found :: "switch_state \<Rightarrow> addr \<Rightarrow> bool \<Rightarrow> command_outcome" where
  "status_found st a lock = deref st a (\<lambda>tech.
     case rtw_bridge_get_stats tech lock of
       Some stats \<Rightarrow> Ret (Some ([status_line stats], None, [], [], st))
     | None \<Rightarrow> Ret (Some ([], Some SWITCH_STATUS_FALSE, [], [], st)))"

text \<open>The second half of a stop, which has read the private value only.\<close>

definition stop_found :: "switch_state \<Rightarrow> string \<Rightarrow> bug \<Rightarrow> capture_env \<Rightarrow> outcome" where
  "stop_found st sid b e = bug_get_user_data st b (\<lambda>tech_ptr.
     exec_bind (case tech_ptr of
         None \<Rightarrow> Ret st
       | Some a \<Rightarrow> deref st a (\<lambda>tech. Ret (store st a (tech\<lparr>tech_close_requested := True\<rparr>)))) (\<lambda>st1.
     let st2 = st1\<lparr>sw_private := (sw_private st1)(sid := None)\<rparr>
     in if ce_removed e
        then run_bind (remove_bug st2 b (ce_channel e) (ce_stop e)) (\<lambda>(out, tr, st3).
               Ret (Some (SWITCH_STATUS_SUCCESS, out, tr, st3)))
        else Ret (Some (SWITCH_STATUS_SUCCESS, [], [], st2))))"

text \<open>What the threads that run a command have found, and what they and everything else do.\<close>

record race =
  rc_switch :: switch_state
  rc_found :: "nat \<Rightarrow> addr option"

inductive race_step :: "race \<Rightarrow> race \<Rightarrow> bool" where
  find: "find_tech (rc_switch r) sid = Ret (Some a) \<Longrightarrow> race_step r (r\<lparr>rc_found := (rc_found r)(t := Some a)\<rparr>)"
| other: "switch_step (rc_switch r) st2 \<Longrightarrow> race_step r (r\<lparr>rc_switch := st2\<rparr>)"
| pause: "rc_found r t = Some a \<Longrightarrow> pause_found (rc_switch r) a p lock = Ret (Some (w, s, out, tr, st2)) \<Longrightarrow>
    race_step r \<lparr>rc_switch = st2, rc_found = (rc_found r)(t := None)\<rparr>"
| clear: "rc_found r t = Some a \<Longrightarrow>
    bridge_found (rc_switch r) a (\<lambda>tech. rtw_bridge_clear tech e) = Ret (Some (w, s, out, tr, st2)) \<Longrightarrow>
    race_step r \<lparr>rc_switch = st2, rc_found = (rc_found r)(t := None)\<rparr>"
| mark: "rc_found r t = Some a \<Longrightarrow>
    bridge_found (rc_switch r) a (\<lambda>tech. rtw_bridge_send_mark tech name e) = Ret (Some (w, s, out, tr, st2)) \<Longrightarrow>
    race_step r \<lparr>rc_switch = st2, rc_found = (rc_found r)(t := None)\<rparr>"
| status: "rc_found r t = Some a \<Longrightarrow> status_found (rc_switch r) a lock = Ret (Some (w, s, out, tr, st2)) \<Longrightarrow>
    race_step r \<lparr>rc_switch = st2, rc_found = (rc_found r)(t := None)\<rparr>"

inductive race_reachable :: "race \<Rightarrow> bool" where
  quiet: "switch_reachable st \<Longrightarrow> race_reachable \<lparr>rc_switch = st, rc_found = (\<lambda>_. None)\<rparr>"
| raced: "race_reachable r \<Longrightarrow> race_step r r2 \<Longrightarrow> race_reachable r2"

section \<open>The halves make up the commands\<close>

abbreviation command_failed :: "switch_state \<Rightarrow> command_outcome" where
  "command_failed st \<equiv> Ret (Some ([], Some SWITCH_STATUS_FALSE, [], [], st))"

lemma with_tech_found:
  "with_tech st sid f = exec_bind (find_tech st sid) (\<lambda>p. case p of None \<Rightarrow> command_failed st | Some a \<Rightarrow> f a)"
  by (simp add: with_tech_def find_tech_def bug_get_user_data_def split: option.splits)

lemma commands_split:
  "pause_command st sid p lock =
     exec_bind (find_tech st sid) (\<lambda>q. case q of None \<Rightarrow> command_failed st | Some a \<Rightarrow> pause_found st a p lock)"
  "bridge_command st sid act =
     exec_bind (find_tech st sid) (\<lambda>q. case q of None \<Rightarrow> command_failed st | Some a \<Rightarrow> bridge_found st a act)"
  "status_command st sid lock =
     exec_bind (find_tech st sid) (\<lambda>q. case q of None \<Rightarrow> command_failed st | Some a \<Rightarrow> status_found st a lock)"
  by (simp_all only: pause_command_def bridge_command_def status_command_def with_tech_found pause_found_def
      bridge_found_def status_found_def)

lemma do_stop_split:
  "ce_channel e \<Longrightarrow> do_stop st sid e = (case sw_private st sid of
     None \<Rightarrow> Ret (Some (SWITCH_STATUS_FALSE, [], [], st)) | Some b \<Rightarrow> stop_found st sid b e)"
  by (cases "sw_private st sid") (simp_all add: do_stop_def stop_found_def)

section \<open>What a race can do\<close>

lemma deref_UB: "deref st a f = UB \<longleftrightarrow> sw_heap st a = None \<or> (\<exists>t. sw_heap st a = Some t \<and> f t = UB)"
  by (auto simp: deref_def split: option.splits)

lemma found_live:
  assumes "switch_inv st" "sw_heap st a = Some t"
  shows "run_safe (\<lambda>(w, s, out, tr, st2). switch_inv st2) (pause_found st a p lock)"
    "run_safe (\<lambda>(w, s, out, tr, st2). switch_inv st2) (bridge_found st a (\<lambda>tech. rtw_bridge_clear tech e))"
    "run_safe (\<lambda>(w, s, out, tr, st2). switch_inv st2) (bridge_found st a (\<lambda>tech. rtw_bridge_send_mark tech name e))"
    "run_safe (\<lambda>(w, s, out, tr, st2). switch_inv st2) (status_found st a lock)"
proof -
  note inv = switch_inv_heap(1) [OF assms]
  note st = store_inv [OF assms]
  obtain ok t1 where p: "rtw_bridge_pause t p lock = (ok, t1)" by fastforce
  from st [OF bridge_step_inv [OF bridge_step.pause [OF p] inv]]
  show "run_safe (\<lambda>(w, s, out, tr, st2). switch_inv st2) (pause_found st a p lock)"
    unfolding pause_found_def deref_live [OF assms(2)] p by (simp add: run_safe_def)
  have b: "run_safe (\<lambda>(w, s, out, tr, st2). switch_inv st2) (bridge_found st a act)"
    if "run_safe (\<lambda>(ok, out, t). bridge_inv t) (act t)" for act
    unfolding bridge_found_def deref_live [OF assms(2)]
  proof (rule run_safe_bind [OF that])
    fix x :: "bool \<times> bytes \<times> rtw_tech_t" assume x: "case x of (ok, out, t) \<Rightarrow> bridge_inv t"
    obtain ok out t1 where "x = (ok, out, t1)" by (cases x)
    then show "run_safe (\<lambda>(w, s, out, tr, st2). switch_inv st2)
        (case x of (ok, out, t1) \<Rightarrow> Ret (Some ([], Some (of_ok ok), out, [], store st a t1)))"
      using st [of t1] x by (simp add: run_safe_def)
  qed
  show "run_safe (\<lambda>(w, s, out, tr, st2). switch_inv st2) (bridge_found st a (\<lambda>tech. rtw_bridge_clear tech e))"
    "run_safe (\<lambda>(w, s, out, tr, st2). switch_inv st2) (bridge_found st a (\<lambda>tech. rtw_bridge_send_mark tech name e))"
    by (rule b, rule command_safe [OF inv])+
  show "run_safe (\<lambda>(w, s, out, tr, st2). switch_inv st2) (status_found st a lock)"
    unfolding status_found_def deref_live [OF assms(2)] using assms(1) by (simp add: run_safe_def split: option.splits)
qed

lemma found_freed:
  assumes "sw_heap st a = None"
  shows "pause_found st a p lock = UB" "bridge_found st a act = UB" "status_found st a lock = UB"
  using assms by (simp_all add: pause_found_def bridge_found_def status_found_def deref_def)

lemma race_step_inv: "race_step r r2 \<Longrightarrow> switch_inv (rc_switch r) \<Longrightarrow> switch_inv (rc_switch r2)"
proof (induction rule: race_step.induct)
  case (pause r t a p lock w s out tr st2)
  then show ?case
    using run_safeD [OF found_live(1) [OF pause(3)]] found_freed(1) by (cases "sw_heap (rc_switch r) a") fastforce+
next
  case (clear r t a e w s out tr st2)
  then show ?case
    using run_safeD [OF found_live(2) [OF clear(3)]] found_freed(2) by (cases "sw_heap (rc_switch r) a") fastforce+
next
  case (mark r t a name e w s out tr st2)
  then show ?case
    using run_safeD [OF found_live(3) [OF mark(3)]] found_freed(2) by (cases "sw_heap (rc_switch r) a") fastforce+
next
  case (status r t a lock w s out tr st2)
  then show ?case
    using run_safeD [OF found_live(4) [OF status(3)]] found_freed(3) by (cases "sw_heap (rc_switch r) a") fastforce+
qed (auto intro: switch_step_inv)

lemma race_reachable_inv: "race_reachable r \<Longrightarrow> switch_inv (rc_switch r)"
  by (induction rule: race_reachable.induct) (auto intro: switch_reachable_inv race_step_inv)

section \<open>Properties\<close>


text \<open>
  C25: A stop under a command. A command that has found the bridge of a call works on live, well-formed
  memory if it goes on at once. If another thread stops the capture in between, every command that
  goes on, and a second stop that has read the private value, reads freed memory.
\<close>

theorem stop_under_command:
  assumes "switch_reachable st" "find_tech st sid = Ret (Some a)" "sw_private st sid = Some b"
    and "do_stop st sid e = Ret (Some (status, out, tr, st2))" "ce_channel e" "ce_removed e"
  shows "(\<exists>tech. sw_heap st a = Some tech \<and> bridge_inv tech) \<and> status = SWITCH_STATUS_SUCCESS \<and>
    pause_found st2 a p lock = UB \<and> bridge_found st2 a act = UB \<and> status_found st2 a lock = UB \<and>
    stop_found st2 sid b e2 = UB"
proof -
  note inv = switch_reachable_inv [OF assms(1)]
  obtain a' where "sw_bugs st b = Some (sid, Some a')" using switch_inv_private [OF inv assms(3)] by blast
  then have bug: "sw_bugs st b = Some (sid, Some a)" using assms(2,3) by (simp add: find_tech_def bug_get_user_data_def)
  obtain tech where t: "sw_heap st a = Some tech" "bridge_inv tech" using switch_inv_bug [OF inv bug] by blast
  from run_safeD [OF do_stop_detach [OF inv assms(3) bug assms(5,6) t(1)] assms(4)]
  have d: "status = SWITCH_STATUS_SUCCESS" "st2 = detach st sid b a" by simp_all
  have "stop_found st2 sid b e2 = UB" by (simp add: stop_found_def bug_get_user_data_def d detach_def)
  moreover have "sw_heap st2 a = None" by (simp add: d detach_def)
  ultimately show ?thesis using t d(1) found_freed by blast
qed

text \<open>A call with a capture, a thread that has found its bridge, and the stop of another thread.\<close>

lemma demo_race:
  "\<exists>tech out tr st2. switch_reachable (attach switch_init ''u'' 9 4096 tech) \<and>
     find_tech (attach switch_init ''u'' 9 4096 tech) ''u'' = Ret (Some 4096) \<and>
     do_stop (attach switch_init ''u'' 9 4096 tech) ''u'' demo_capture = Ret (Some (SWITCH_STATUS_SUCCESS, out, tr, st2)) \<and>
     sw_bugs st2 = (\<lambda>_. None) \<and> race_reachable \<lparr>rc_switch = st2, rc_found = (\<lambda>_. None)(1 := Some 4096)\<rparr>"
proof -
  obtain tech out tr st2 where r: "switch_reachable (attach switch_init ''u'' 9 4096 tech)"
    and s: "rtw_mod_stop_capture (attach switch_init ''u'' 9 4096 tech) ''u'' demo_capture = Ret (Some (SWITCH_STATUS_SUCCESS, out, tr, st2))"
    using demo_stop_capture by blast
  let ?st = "attach switch_init ''u'' 9 4096 tech"
  have at: "sw_private ?st ''u'' = Some 9" "sw_bugs ?st 9 = Some (''u'', Some 4096)" "sw_heap ?st 4096 = Some tech"
    by (simp_all add: attach_def)
  have c: "ce_channel demo_capture" "ce_removed demo_capture" by (simp_all add: demo_capture_def)
  have d: "do_stop ?st ''u'' demo_capture = Ret (Some (SWITCH_STATUS_SUCCESS, out, tr, st2))"
    using s by (simp add: rtw_mod_stop_capture_def)
  from run_safeD [OF do_stop_detach [OF switch_reachable_inv [OF r] at(1,2) c at(3)] d]
  have b: "sw_bugs st2 = (\<lambda>_. None)" by (auto simp: detach_def attach_def switch_init_def)
  have f: "find_tech ?st ''u'' = Ret (Some 4096)" using at by (simp add: find_tech_def bug_get_user_data_def)
  from raced [OF quiet [OF r] find [of _ "''u''" 4096 1]] f
  have "race_reachable \<lparr>rc_switch = ?st, rc_found = (\<lambda>_. None)(1 := Some 4096)\<rparr>" by simp
  from raced [OF this other [of _ st2]] stop_entry [OF s]
  have "race_reachable \<lparr>rc_switch = st2, rc_found = (\<lambda>_. None)(1 := Some 4096)\<rparr>" by simp
  with r f d b show ?thesis by blast
qed


theorem stop_under_command_witness:
  "\<exists>st2. status_found st2 4096 True = UB \<and> stop_found st2 ''u'' 9 demo_capture = UB \<and>
     (\<exists>tech out tr. do_stop (attach switch_init ''u'' 9 4096 tech) ''u'' demo_capture = Ret (Some (SWITCH_STATUS_SUCCESS, out, tr, st2)))"
proof -
  obtain tech out tr st2 where r: "switch_reachable (attach switch_init ''u'' 9 4096 tech)"
    and f: "find_tech (attach switch_init ''u'' 9 4096 tech) ''u'' = Ret (Some 4096)"
    and d: "do_stop (attach switch_init ''u'' 9 4096 tech) ''u'' demo_capture = Ret (Some (SWITCH_STATUS_SUCCESS, out, tr, st2))"
    using demo_race by blast
  have c: "ce_channel demo_capture" "ce_removed demo_capture" by (simp_all add: demo_capture_def)
  have "sw_private (attach switch_init ''u'' 9 4096 tech) ''u'' = Some 9" by (simp add: attach_def)
  from stop_under_command [OF r f this d c, of True True] d show ?thesis by blast
qed

end
