(* ===== verification/Fs_Mutex.thy ===== *)
theory Fs_Mutex
  imports Fs_Stub
begin

text \<open>
  The mutex of the stand-in for FreeSWITCH, \<open>src/mod/fs_stub/switch.h\<close>: wrappers of the default mutex of
  pthreads, which no thread may take twice. A mutex is its holder; a thread is a number. \<open>None\<close> is a call
  that waits for another thread, \<open>UB\<close> is what POSIX leaves undefined: releasing a mutex the caller
  does not hold, and destroying one that is held. The locale \<open>mutual_exclusion\<close> is what the threads of a bridge
  rely on, interpreted as \<open>pthread\<close>.
\<close>

section \<open>Definitions\<close>

type_synonym thread = nat

record switch_mutex_t =
  mtx_holder :: "thread option"

text \<open>The argument is the outcome of the allocation; the mutex is NULL without it.\<close>

definition switch_mutex_init :: "bool \<Rightarrow> switch_status_t \<times> switch_mutex_t option" where
  "switch_mutex_init calloc_ok =
     (if \<not> calloc_ok then (SWITCH_STATUS_FALSE, None) else (SWITCH_STATUS_SUCCESS, Some \<lparr>mtx_holder = None\<rparr>))"

text \<open>A default mutex makes the second lock of its own holder wait for ever.\<close>

definition switch_mutex_lock :: "switch_mutex_t \<Rightarrow> thread \<Rightarrow> (switch_status_t \<times> switch_mutex_t) option" where
  "switch_mutex_lock m t =
     (case mtx_holder m of
        None \<Rightarrow> Some (SWITCH_STATUS_SUCCESS, m\<lparr>mtx_holder := Some t\<rparr>)
      | Some h \<Rightarrow> None)"

definition switch_mutex_trylock :: "switch_mutex_t \<Rightarrow> thread \<Rightarrow> switch_status_t \<times> switch_mutex_t" where
  "switch_mutex_trylock m t =
     (case mtx_holder m of
        None \<Rightarrow> (SWITCH_STATUS_SUCCESS, m\<lparr>mtx_holder := Some t\<rparr>)
      | Some h \<Rightarrow> (SWITCH_STATUS_FALSE, m))"

definition switch_mutex_unlock :: "switch_mutex_t \<Rightarrow> thread \<Rightarrow> (switch_status_t \<times> switch_mutex_t) c_exec" where
  "switch_mutex_unlock m t =
     (if mtx_holder m = Some t then Ret (SWITCH_STATUS_SUCCESS, m\<lparr>mtx_holder := None\<rparr>) else UB)"

text \<open>What is left of the mutex: nothing.\<close>

definition switch_mutex_destroy :: "switch_mutex_t option \<Rightarrow> unit c_exec" where
  "switch_mutex_destroy mutex =
     (case mutex of
        None \<Rightarrow> Ret ()
      | Some m \<Rightarrow> if mtx_holder m = None then Ret () else UB)"

section \<open>Mutual exclusion\<close>

text \<open>
  What the users of a mutex rely on: it is taken exactly when it is free, a try says whether it was taken,
  and the holder gives it back.
\<close>

locale mutual_exclusion =
  fixes lock :: "'m \<Rightarrow> 't \<Rightarrow> 'm option"
    and attempt :: "'m \<Rightarrow> 't \<Rightarrow> 'm option"
    and unlock :: "'m \<Rightarrow> 't \<Rightarrow> 'm option"
    and holder :: "'m \<Rightarrow> 't option"
  assumes lock_iff: "(\<exists>m'. lock m t = Some m') \<longleftrightarrow> holder m = None"
    and lock_holder: "lock m t = Some m' \<Longrightarrow> holder m' = Some t"
    and attempt_lock: "attempt m t = lock m t"
    and unlock_iff: "(\<exists>m'. unlock m t = Some m') \<longleftrightarrow> holder m = Some t"
    and unlock_free: "unlock m t = Some m' \<Longrightarrow> holder m' = None"
begin

lemma holder_keeps: "holder m = Some t \<Longrightarrow> lock m t' = None \<and> attempt m t' = None"
  using lock_iff [of m t'] attempt_lock by (metis not_None_eq)

lemma only_holder_unlocks: "holder m = Some t \<Longrightarrow> t' \<noteq> t \<Longrightarrow> unlock m t' = None"
  using unlock_iff [of m t'] by (metis not_None_eq option.inject)

lemma lock_unlock: "lock m t = Some m' \<Longrightarrow> \<exists>m''. unlock m' t = Some m'' \<and> holder m'' = None"
  using lock_holder unlock_iff unlock_free by blast

end

definition lock_taken :: "switch_mutex_t \<Rightarrow> thread \<Rightarrow> switch_mutex_t option" where
  "lock_taken m t = map_option snd (switch_mutex_lock m t)"

definition try_taken :: "switch_mutex_t \<Rightarrow> thread \<Rightarrow> switch_mutex_t option" where
  "try_taken m t = (case switch_mutex_trylock m t of (status, m') \<Rightarrow> if status = SWITCH_STATUS_SUCCESS then Some m' else None)"

definition lock_given :: "switch_mutex_t \<Rightarrow> thread \<Rightarrow> switch_mutex_t option" where
  "lock_given m t = (case switch_mutex_unlock m t of UB \<Rightarrow> None | Ret (status, m') \<Rightarrow> Some m')"

interpretation pthread: mutual_exclusion lock_taken try_taken lock_given mtx_holder
  by unfold_locales
    (auto simp: lock_taken_def try_taken_def lock_given_def switch_mutex_lock_def switch_mutex_trylock_def
      switch_mutex_unlock_def split: option.splits if_splits)

lemma mutex_init_free: "switch_mutex_init ok = (SWITCH_STATUS_SUCCESS, Some m) \<Longrightarrow> mtx_holder m = None"
  by (auto simp: switch_mutex_init_def split: if_splits)

lemma destroy_free: "switch_mutex_destroy (Some m) \<noteq> UB \<longleftrightarrow> mtx_holder m = None"
  by (simp add: switch_mutex_destroy_def)

end
