(* ===== verification/Rtw_Bridge_Threads.thy ===== *)
theory Rtw_Bridge_Threads
  imports Fs_Mutex Rtw_Bridge_Correct
begin

text \<open>
  The threads around one bridge of \<open>src/mod/rtw_bridge.c\<close>, at a finer grain than the steps of
  \<open>bridge_step\<close>: an entry point reads its flags without the mutex, then takes the mutex or gives up, makes
  its updates one by one and gives the mutex back, while other threads do the same.
  \<^item> A \<open>section\<close> is what an entry point does while it holds the mutex, cut into single updates: a \<open>Step\<close> reads
    and changes the bridge once and leaves the rest. It yields the bytes put on the wire, or \<open>None\<close> while a
    send waits for the kernel. The flags read just behind the lock are read together with taking it.
  \<^item> Any thread may call any entry point at any time. Without the mutex, a stop raises \<open>close_requested\<close>
    and the worker replaces the socket or marks it as not ready.
  \<^item> That the worker closes a socket on which another thread is just sending is not a step here: a send is one
    update.
\<close>

section \<open>Definitions\<close>

datatype entry =
    Read_Pcm "int16 list" "nat \<Rightarrow> alloc"
  | Write_Pcm nat uint64
  | Write_Frame "int16 list" uint64
  | Pause bool
  | Clear text_env
  | Send_Mark string text_env
  | Ws_Text string text_env
  | Worker_Flush "flush_env list"
  | Get_Stats

datatype code = Done | Step "rtw_tech_t \<Rightarrow> (bytes \<times> rtw_tech_t \<times> code) run"

text \<open>The check of the flags before the mutex is taken; a text of the client has at most 65535 characters.\<close>

fun enter :: "entry \<Rightarrow> rtw_tech_t \<Rightarrow> bool" where
  "enter (Read_Pcm pcm mem) tech = (\<not> stopping tech \<and> \<not> tech_audio_paused tech)"
| "enter (Write_Pcm n now) tech = (n \<noteq> 0 \<and> \<not> tech_cleanup_started tech)"
| "enter (Write_Frame pcm now) tech = (pcm \<noteq> [] \<and> \<not> tech_cleanup_started tech)"
| "enter (Pause p) tech = (\<not> tech_cleanup_started tech)"
| "enter (Clear e) tech = (\<not> tech_cleanup_started tech)"
| "enter (Send_Mark name e) tech = (\<not> tech_cleanup_started tech \<and> valid_mark_name name)"
| "enter (Ws_Text txt e) tech = (\<not> stopping tech \<and> length txt \<le> 65535)"
| "enter (Worker_Flush es) tech = (\<not> stopping tech)"
| "enter Get_Stats tech = (\<not> tech_cleanup_started tech)"

text \<open>The media threads and the worker's own flush only try the mutex.\<close>

fun waits_for_mutex :: "entry \<Rightarrow> bool" where
  "waits_for_mutex (Read_Pcm pcm mem) = False"
| "waits_for_mutex (Write_Pcm n now) = False"
| "waits_for_mutex (Write_Frame pcm now) = False"
| "waits_for_mutex (Worker_Flush es) = False"
| "waits_for_mutex e = True"

text \<open>The loop of \<open>flush_outbound\<close>: peek, send on the socket as it is then, drop the head.\<close>

fun flush_code :: "flush_env list \<Rightarrow> code" where
  "flush_code [] = Step (\<lambda>t. Ret None)"
| "flush_code (e # es) = Step (\<lambda>t.
     case rtw_session_peek_outbound (tech_session t) (f_mem e) of
       (None, s1) \<Rightarrow> Ret (Some ([], t\<lparr>tech_session := s1\<rparr>, Done))
     | (Some (json, len), s1) \<Rightarrow> Ret (Some ([], t\<lparr>tech_session := s1\<rparr>, Step (\<lambda>t.
         case (tech_ws t, json) of
           (Some ws, Some msg) \<Rightarrow>
             (case rtw_ws_send_text ws (take len msg) (f_urandom e) (f_malloc e) (f_sends e) of
                None \<Rightarrow> Ret None
              | Some (rc, out) \<Rightarrow>
                  if rc \<noteq> 0 then Ret (Some (out, t\<lparr>tech_ws_ready := False\<rparr>, Done))
                  else Ret (Some (out, t, Step (\<lambda>t.
                    Ret (Some ([], t\<lparr>tech_session := snd (rtw_session_drop_outbound_head (tech_session t))\<rparr>,
                      flush_code es))))))
         | _ \<Rightarrow> Ret (Some ([], t\<lparr>tech_ws_ready := False\<rparr>, Done))))))"

definition flush_section :: "flush_env list \<Rightarrow> code" where
  "flush_section es = Step (\<lambda>t.
     Ret (Some ([], t, if tech_ws t = None \<or> \<not> tech_ws_ready t then Done else flush_code es)))"

definition json_section :: "string \<Rightarrow> text_env \<Rightarrow> code" where
  "json_section json e = Step (\<lambda>t.
     exec_bind (rtw_session_handle_peer_json (tech_session t) json (x_malloc e) (x_now e) (x_mem e))
       (\<lambda>(rc, s1). Ret (Some ([], t\<lparr>tech_session := s1\<rparr>, flush_section (x_flush e)))))"

fun feed_code :: "int16 list \<Rightarrow> (nat \<Rightarrow> alloc) \<Rightarrow> nat \<Rightarrow> code" where
  "feed_code [] mem i = Done"
| "feed_code (x # xs) mem i = Step (\<lambda>t.
     case hold_sample x (mem i) (tech_session t, tech_pcm_hold t) of
       (s, hold) \<Rightarrow> Ret (Some ([], t\<lparr>tech_session := s, tech_pcm_hold := hold\<rparr>, feed_code xs mem (Suc i))))"

definition playout_section :: "nat \<Rightarrow> uint64 \<Rightarrow> code" where
  "playout_section want now = Step (\<lambda>t.
     case rtw_session_read_playout (tech_session t) want of
       (mulaw, s1) \<Rightarrow> Ret (Some ([], t\<lparr>tech_session := s1\<rparr>,
         if mulaw = [] then Step (\<lambda>t. Ret (Some ([],
           t\<lparr>tech_session := rtw_session_note_write_after_clear (tech_session t) 0 now\<rparr>, Done)))
         else Done)))"

definition pause_section :: "bool \<Rightarrow> code" where
  "pause_section p = Step (\<lambda>t. Ret (Some ([], t\<lparr>tech_audio_paused := p\<rparr>, Step (\<lambda>t.
     Ret (Some ([], t\<lparr>tech_session := (tech_session t)\<lparr>s_paused := tech_audio_paused t\<rparr>\<rparr>, Done))))))"

fun section_code :: "entry \<Rightarrow> rtw_tech_t \<Rightarrow> code" where
  "section_code (Read_Pcm pcm mem) tech = feed_code (wire_samples tech pcm) mem 0"
| "section_code (Write_Pcm n now) tech = playout_section (min n 640) now"
| "section_code (Write_Frame pcm now) tech = playout_section (min (length pcm) 640) now"
| "section_code (Pause p) tech = pause_section p"
| "section_code (Clear e) tech = json_section (clear_command (tech_stream_sid tech)) e"
| "section_code (Send_Mark name e) tech = json_section (mark_command (tech_stream_sid tech) name) e"
| "section_code (Ws_Text txt e) tech = (if stopping tech then Done else json_section (c_str txt) e)"
| "section_code (Worker_Flush es) tech = flush_section es"
| "section_code Get_Stats tech = Done"

subsection \<open>Threads\<close>

datatype pc = Idle | Called entry | Inside entry code

record threads =
  th_mutex :: switch_mutex_t
  th_tech :: rtw_tech_t
  th_pc :: "thread \<Rightarrow> pc"
  th_wire :: bytes

datatype label = Internal | Took entry | Closing | Worker_Sets "rtw_ws_client_t option" bool

abbreviation goes_to :: "threads \<Rightarrow> thread \<Rightarrow> pc \<Rightarrow> threads" where
  "goes_to cfg t p \<equiv> cfg\<lparr>th_pc := (th_pc cfg)(t := p)\<rparr>"

inductive thread_step :: "thread \<Rightarrow> threads \<Rightarrow> label \<Rightarrow> threads \<Rightarrow> bool" where
  call: "th_pc cfg t = Idle \<Longrightarrow> enter e (th_tech cfg) \<Longrightarrow> thread_step t cfg Internal (goes_to cfg t (Called e))"
| lock: "th_pc cfg t = Called e \<Longrightarrow> waits_for_mutex e \<Longrightarrow>
    switch_mutex_lock (th_mutex cfg) t = Some (SWITCH_STATUS_SUCCESS, m) \<Longrightarrow>
    thread_step t cfg (Took e) (goes_to (cfg\<lparr>th_mutex := m\<rparr>) t (Inside e (section_code e (th_tech cfg))))"
| trylock: "th_pc cfg t = Called e \<Longrightarrow> \<not> waits_for_mutex e \<Longrightarrow>
    switch_mutex_trylock (th_mutex cfg) t = (SWITCH_STATUS_SUCCESS, m) \<Longrightarrow>
    thread_step t cfg (Took e) (goes_to (cfg\<lparr>th_mutex := m\<rparr>) t (Inside e (section_code e (th_tech cfg))))"
| busy: "th_pc cfg t = Called e \<Longrightarrow> \<not> waits_for_mutex e \<Longrightarrow>
    switch_mutex_trylock (th_mutex cfg) t = (SWITCH_STATUS_FALSE, m) \<Longrightarrow>
    thread_step t cfg Internal (goes_to cfg t Idle)"
| inner: "th_pc cfg t = Inside e (Step f) \<Longrightarrow> f (th_tech cfg) = Ret (Some (out, tech, c)) \<Longrightarrow>
    thread_step t cfg Internal (goes_to (cfg\<lparr>th_tech := tech, th_wire := th_wire cfg @ out\<rparr>) t (Inside e c))"
| unlock: "th_pc cfg t = Inside e Done \<Longrightarrow> switch_mutex_unlock (th_mutex cfg) t = Ret (SWITCH_STATUS_SUCCESS, m) \<Longrightarrow>
    thread_step t cfg Internal (goes_to (cfg\<lparr>th_mutex := m\<rparr>) t Idle)"
| close: "thread_step t cfg Closing (cfg\<lparr>th_tech := (th_tech cfg)\<lparr>tech_close_requested := True\<rparr>\<rparr>)"
| worker: "thread_step t cfg (Worker_Sets ws ready)
    (cfg\<lparr>th_tech := (th_tech cfg)\<lparr>tech_ws := ws, tech_ws_ready := ready\<rparr>\<rparr>)"

definition threads_init :: "rtw_tech_t \<Rightarrow> switch_mutex_t \<Rightarrow> threads" where
  "threads_init tech m = \<lparr>th_mutex = m, th_tech = tech, th_pc = (\<lambda>_. Idle), th_wire = []\<rparr>"

text \<open>A bridge is shared as soon as it has been started, with the mutex its start has made.\<close>

inductive threads_reachable :: "threads \<Rightarrow> bool" where
  shared: "bridge_reachable tech \<Longrightarrow> switch_mutex_init True = (SWITCH_STATUS_SUCCESS, Some m) \<Longrightarrow>
    threads_reachable (threads_init tech m)"
| moved: "threads_reachable cfg \<Longrightarrow> thread_step t cfg l cfg' \<Longrightarrow> threads_reachable cfg'"

section \<open>Sections are safe\<close>

text \<open>Every update of a section, run on any well-formed bridge, has no undefined behaviour and leaves one.\<close>

inductive safe_code :: "code \<Rightarrow> bool" where
  safe_Done: "safe_code Done"
| safe_Step: "(\<And>t. bridge_inv t \<Longrightarrow> f t \<noteq> UB) \<Longrightarrow>
    (\<And>t out t' c. bridge_inv t \<Longrightarrow> f t = Ret (Some (out, t', c)) \<Longrightarrow> bridge_inv t') \<Longrightarrow>
    (\<And>t out t' c. bridge_inv t \<Longrightarrow> f t = Ret (Some (out, t', c)) \<Longrightarrow> safe_code c) \<Longrightarrow> safe_code (Step f)"

inductive_cases safe_StepE: "safe_code (Step f)"

lemma safe_flush_code: "safe_code (flush_code es)"
proof (induction es)
  case (Cons e es)
  have peek: "bridge_inv (t\<lparr>tech_session := s1\<rparr>)"
    if "bridge_inv t" "rtw_session_peek_outbound (tech_session t) (f_mem e) = (r, s1)" for t r s1
    using that harvest_inv [OF bridge_invD(1) [OF that(1)], of "f_mem e"]
    by (auto simp: rtw_session_peek_outbound_def Let_def)
  have drop: "bridge_inv (t\<lparr>tech_session := snd (rtw_session_drop_outbound_head (tech_session t))\<rparr>)" if "bridge_inv t" for t
    using bridge_inv_session [OF that drop_outbound_inv [OF bridge_invD(1) [OF that]]] by simp
  show ?case
    unfolding flush_code.simps
    by (auto intro!: safe_code.intros Cons drop intro: peek split: option.splits prod.splits if_splits)
qed (auto intro: safe_code.intros)

lemma safe_flush_section: "safe_code (flush_section es)"
  unfolding flush_section_def using safe_flush_code by (auto intro!: safe_code.intros)

lemma safe_json_section:
  assumes "length json \<le> 65535" shows "safe_code (json_section json e)"
proof -
  have "bridge_inv (t\<lparr>tech_session := s\<rparr>)"
    if "bridge_inv t" "rtw_session_handle_peer_json (tech_session t) json (x_malloc e) (x_now e) (x_mem e) = Ret (rc, s)" for t rc s
    using that handle_peer_json_inv [OF bridge_invD(1) [OF that(1)] that(2)] handle_peer_json_sid [OF that(2)] by auto
  moreover have "\<exists>rc s. rtw_session_handle_peer_json (tech_session t) json (x_malloc e) (x_now e) (x_mem e) = Ret (rc, s)" for t
    using handle_peer_json_total [OF assms] by blast
  ultimately show ?thesis
    unfolding json_section_def
    by (intro safe_Step) (use safe_flush_section in \<open>force simp: exec_bind_def split: c_exec.splits\<close>)+
qed

lemma safe_feed_code: "safe_code (feed_code xs mem i)"
proof (induction xs arbitrary: i)
  case (Cons x xs)
  have "bridge_inv (t\<lparr>tech_session := s, tech_pcm_hold := hold\<rparr>)"
    if "bridge_inv t" "hold_sample x (mem i) (tech_session t, tech_pcm_hold t) = (s, hold)" for t s hold
    using hold_sample_inv [OF bridge_invD(1,2) [OF that(1)] that(2)] that(1) by (auto simp: bridge_inv_def)
  then show ?case using Cons by (auto intro!: safe_Step split: prod.splits)
qed (simp add: safe_Done)

lemma safe_playout_section: "safe_code (playout_section want now)"
proof -
  have read: "bridge_inv (t\<lparr>tech_session := s\<rparr>)"
    if "bridge_inv t" "rtw_session_read_playout (tech_session t) want = (bs, s)" for t bs s
    using bridge_inv_session [OF that(1), of s] inv_intros that(2) bridge_invD(1) [OF that(1)]
    by (auto simp: rtw_session_read_playout_def case_prod_beta dest!: sym [of _ s])
  have note_write: "bridge_inv (t\<lparr>tech_session := rtw_session_note_write_after_clear (tech_session t) 0 now\<rparr>)"
    if "bridge_inv t" for t
    using that note_write_inv [OF bridge_invD(1) [OF that]] by auto
  show ?thesis
    unfolding playout_section_def
    by (auto intro!: safe_code.intros note_write intro: read split: prod.splits if_splits)
qed

lemma safe_pause_section: "safe_code (pause_section p)"
  unfolding pause_section_def
  by (auto intro!: safe_code.intros) (auto simp: bridge_inv_def session_inv_def)

lemmas safe_parts = safe_Done safe_feed_code safe_playout_section safe_pause_section safe_flush_section
  safe_json_section [OF command_lengths(1)] safe_json_section [OF command_lengths(2)]

lemma c_str_length: "length txt \<le> n \<Longrightarrow> length (c_str txt) \<le> n"
  unfolding c_str_def using length_takeWhile_le le_trans by blast

lemma safe_section:
  assumes "enter e tech" shows "safe_code (section_code e tech')"
proof (cases e)
  case (Ws_Text msg env)
  with assms have "length msg \<le> 65535" by simp
  from safe_json_section [OF c_str_length [OF this]] show ?thesis by (simp add: Ws_Text safe_Done)
qed (simp_all only: section_code.simps safe_parts)

section \<open>Exclusion and safety\<close>

definition threads_inv :: "threads \<Rightarrow> bool" where
  "threads_inv cfg \<longleftrightarrow> bridge_inv (th_tech cfg) \<and>
     (\<forall>t e c. th_pc cfg t = Inside e c \<longrightarrow> mtx_holder (th_mutex cfg) = Some t \<and> safe_code c) \<and>
     (\<forall>t. mtx_holder (th_mutex cfg) = Some t \<longrightarrow> (\<exists>e c. th_pc cfg t = Inside e c)) \<and>
     (\<forall>t e. th_pc cfg t = Called e \<longrightarrow> (\<exists>tech. enter e tech))"

lemma threads_invD:
  assumes "threads_inv cfg"
  shows "bridge_inv (th_tech cfg)"
    "th_pc cfg t = Inside e c \<Longrightarrow> mtx_holder (th_mutex cfg) = Some t"
    "th_pc cfg t = Inside e c \<Longrightarrow> safe_code c"
    "mtx_holder (th_mutex cfg) = Some t \<Longrightarrow> \<exists>e c. th_pc cfg t = Inside e c"
    "th_pc cfg t = Called e \<Longrightarrow> \<exists>tech. enter e tech"
  using assms by (auto simp: threads_inv_def)

lemma lock_success:
  "switch_mutex_lock m t = Some (SWITCH_STATUS_SUCCESS, m') \<longleftrightarrow> mtx_holder m = None \<and> m' = m\<lparr>mtx_holder := Some t\<rparr>"
  "switch_mutex_trylock m t = (SWITCH_STATUS_SUCCESS, m') \<longleftrightarrow> mtx_holder m = None \<and> m' = m\<lparr>mtx_holder := Some t\<rparr>"
  "switch_mutex_trylock m t = (SWITCH_STATUS_FALSE, m') \<longleftrightarrow> mtx_holder m \<noteq> None \<and> m' = m"
  "switch_mutex_unlock m t = Ret (SWITCH_STATUS_SUCCESS, m') \<longleftrightarrow> mtx_holder m = Some t \<and> m' = m\<lparr>mtx_holder := None\<rparr>"
  by (auto simp: switch_mutex_lock_def switch_mutex_trylock_def switch_mutex_unlock_def split: option.splits if_splits)

lemma thread_step_inv: "thread_step t cfg l cfg' \<Longrightarrow> threads_inv cfg \<Longrightarrow> threads_inv cfg'"
proof (induction rule: thread_step.induct)
  case (call cfg t e)
  then show ?case by (auto simp: threads_inv_def)
next
  case (lock cfg t e m)
  have "safe_code (section_code e (th_tech cfg))" using threads_invD(5) [OF lock(4,1)] safe_section by blast
  with lock threads_invD(2) [OF lock(4)] show ?case by (fastforce simp: threads_inv_def lock_success)
next
  case (trylock cfg t e m)
  have "safe_code (section_code e (th_tech cfg))" using threads_invD(5) [OF trylock(4,1)] safe_section by blast
  with trylock threads_invD(2) [OF trylock(4)] show ?case by (fastforce simp: threads_inv_def lock_success)
next
  case (busy cfg t e m)
  then show ?case by (auto simp: threads_inv_def)
next
  case (inner cfg t e f out tech c)
  note inv = threads_invD [OF inner(3)]
  have "bridge_inv tech" "safe_code c"
    using inv(3) [OF inner(1)] inv(1) inner(2) by (auto elim!: safe_StepE)
  moreover have "mtx_holder (th_mutex cfg) = Some t' \<Longrightarrow> t' = t" for t' using inv(2) [OF inner(1)] by simp
  ultimately show ?case
    using inv(2) [OF inner(1)] inv(2,3,5) unfolding threads_inv_def by (simp split: if_splits)
next
  case (unlock cfg t e m)
  note inv = threads_invD [OF unlock(3)]
  have "t' = t" if "th_pc cfg t' = Inside e' c'" for t' e' c'
    using inv(2) [OF that] inv(2) [OF unlock(1)] by simp
  then show ?case
    using inv(1,3,5) unlock(2) unfolding threads_inv_def by (auto simp: lock_success split: if_splits)
qed (auto simp: threads_inv_def)

lemma threads_reachable_inv: "threads_reachable cfg \<Longrightarrow> threads_inv cfg"
proof (induction rule: threads_reachable.induct)
  case (shared tech m)
  then show ?case
    using bridge_reachable_inv mutex_init_free by (auto simp: threads_init_def threads_inv_def)
qed (rule thread_step_inv)

section \<open>Sections and entry points\<close>

text \<open>A section run from its first update to its last, with no other thread in between.\<close>

inductive finishes :: "code \<Rightarrow> rtw_tech_t \<Rightarrow> bytes \<Rightarrow> rtw_tech_t \<Rightarrow> bool" where
  "finishes Done t [] t"
| "f t = Ret (Some (out1, t1, c)) \<Longrightarrow> finishes c t1 out2 t2 \<Longrightarrow> finishes (Step f) t (out1 @ out2) t2"

inductive_simps finishes_simps [simp]: "finishes Done t out t2" "finishes (Step f) t out t2"

text \<open>The entry points as \<open>Rtw_Bridge\<close> has them, with the mutex obtained.\<close>

fun atomic :: "entry \<Rightarrow> rtw_tech_t \<Rightarrow> (bytes \<times> rtw_tech_t) run" where
  "atomic (Read_Pcm pcm mem) tech = Ret (Some ([], rtw_bridge_on_read_pcm16 tech pcm True mem))"
| "atomic (Write_Pcm n now) tech = Ret (Some ([], snd (rtw_bridge_on_write_pcm16 tech n True now)))"
| "atomic (Write_Frame pcm now) tech = Ret (Some ([], snd (snd (rtw_bridge_apply_write_frame tech pcm True now))))"
| "atomic (Pause p) tech = Ret (Some ([], snd (rtw_bridge_pause tech p True)))"
| "atomic (Clear e) tech = run_bind (rtw_bridge_clear tech (e\<lparr>x_lock := True\<rparr>)) (\<lambda>(ok, r). Ret (Some r))"
| "atomic (Send_Mark name e) tech = run_bind (rtw_bridge_send_mark tech name (e\<lparr>x_lock := True\<rparr>)) (\<lambda>(ok, r). Ret (Some r))"
| "atomic (Ws_Text txt e) tech = on_ws_text tech txt (e\<lparr>x_lock := True\<rparr>)"
| "atomic (Worker_Flush es) tech = Ret (flush_outbound tech es)"
| "atomic Get_Stats tech = Ret (Some ([], tech))"

lemma finishes_flush_code:
  "tech_ws t = Some ws \<Longrightarrow> finishes (flush_code es) t out t2 \<longleftrightarrow> flush_loop t ws es = Some (out, t2)"
proof (induction es arbitrary: t out)
  case (Cons e es)
  obtain r s1 where p: "rtw_session_peek_outbound (tech_session t) (f_mem e) = (r, s1)" by fastforce
  show ?case
  proof (cases r)
    case None
    then show ?thesis by (auto simp: p)
  next
    case (Some a)
    obtain json len where a: "a = (json, len)" by (cases a)
    show ?thesis
    proof (cases json)
      case None
      then show ?thesis using Cons.prems by (auto simp: p Some a)
    next
      case (Some msg)
      obtain x where x: "rtw_ws_send_text ws (take len msg) (f_urandom e) (f_malloc e) (f_sends e) = x" by simp
      let ?t = "t\<lparr>tech_session := snd (rtw_session_drop_outbound_head s1)\<rparr>"
      have "tech_ws ?t = Some ws" using Cons.prems by simp
      from Cons.IH [OF this] show ?thesis
        using Cons.prems by (cases x) (auto simp: p \<open>r = Some a\<close> a Some x split: if_splits)
    qed
  qed
qed simp

lemma finishes_flush: "finishes (flush_section es) t out t2 \<longleftrightarrow> flush_outbound t es = Some (out, t2)"
  using finishes_flush_code [of t _ es]
  by (cases "tech_ws t") (auto simp: flush_section_def flush_outbound_def)

lemma finishes_json: "finishes (json_section json e) t out t2 \<longleftrightarrow> peer_json t json e = Ret (Some (out, t2))"
  by (cases "rtw_session_handle_peer_json (tech_session t) json (x_malloc e) (x_now e) (x_mem e)")
    (auto simp: json_section_def peer_json_def finishes_flush)

lemma finishes_feed:
  "finishes (feed_code xs mem i) t out t2 \<longleftrightarrow>
     out = [] \<and> (case feed xs mem i (tech_session t, tech_pcm_hold t) of
       (s, hold) \<Rightarrow> t2 = t\<lparr>tech_session := s, tech_pcm_hold := hold\<rparr>)"
proof (induction xs arbitrary: i t out)
  case (Cons x xs)
  obtain s hold where "hold_sample x (mem i) (tech_session t, tech_pcm_hold t) = (s, hold)" by fastforce
  then show ?case by (auto simp: Cons.IH)
qed auto

lemma finishes_playout:
  "finishes (playout_section want now) t out t2 \<longleftrightarrow>
     out = [] \<and> t2 = t\<lparr>tech_session := snd (take_playout (tech_session t) want now)\<rparr>"
  by (auto simp: playout_section_def take_playout_def split: prod.splits)

section \<open>Interleavings are serial\<close>

text \<open>Some updates of a section from its begin on: the bytes so far and what is left to do.\<close>

inductive partly :: "code \<Rightarrow> rtw_tech_t \<Rightarrow> bytes \<Rightarrow> code \<Rightarrow> rtw_tech_t \<Rightarrow> bool" where
  begun: "partly c t [] c t"
| onward: "partly c t out (Step f) t1 \<Longrightarrow> f t1 = Ret (Some (out1, t2, c2)) \<Longrightarrow> partly c t (out @ out1) c2 t2"

lemma partly_finishes: "partly c t out c1 t1 \<Longrightarrow> finishes c1 t1 out2 t2 \<Longrightarrow> finishes c t (out @ out2) t2"
proof (induction arbitrary: out2 rule: partly.induct)
  case (onward c t out f t1 out1 t2' c2)
  have "finishes (Step f) t1 (out1 @ out2) t2" using onward.hyps(2) onward.prems by auto
  from onward.IH [OF this] show ?case by simp
qed simp

text \<open>The recorded steps of the threads one after the other, every section in one go.\<close>

inductive serial :: "rtw_tech_t \<Rightarrow> label list \<Rightarrow> bytes \<Rightarrow> rtw_tech_t \<Rightarrow> bool" where
  serial_Nil: "serial tech [] [] tech"
| serial_Took: "serial tech L w t \<Longrightarrow> finishes (section_code e t) t out t2 \<Longrightarrow> serial tech (L @ [Took e]) (w @ out) t2"
| serial_Closing: "serial tech L w t \<Longrightarrow> serial tech (L @ [Closing]) w (t\<lparr>tech_close_requested := True\<rparr>)"
| serial_Worker: "serial tech L w t \<Longrightarrow>
    serial tech (L @ [Worker_Sets ws ready]) w (t\<lparr>tech_ws := ws, tech_ws_ready := ready\<rparr>)"

text \<open>
  A run with the record of the sections in the order in which they took the mutex and of the writes
  without it. The socket is only replaced while no thread holds the mutex; a stop may come at any time.
\<close>

definition calm :: "threads \<Rightarrow> label \<Rightarrow> bool" where
  "calm cfg l = (case l of Worker_Sets ws ready \<Rightarrow> mtx_holder (th_mutex cfg) = None | _ \<Rightarrow> True)"

inductive traced :: "rtw_tech_t \<Rightarrow> label list \<Rightarrow> threads \<Rightarrow> bool" where
  traced_init: "switch_mutex_init True = (SWITCH_STATUS_SUCCESS, Some m) \<Longrightarrow> traced tech [] (threads_init tech m)"
| traced_step: "traced tech L cfg \<Longrightarrow> thread_step t cfg l cfg' \<Longrightarrow> calm cfg l \<Longrightarrow>
    traced tech (if l = Internal then L else L @ [l]) cfg'"

text \<open>No section looks at \<open>close_requested\<close> any more once it has begun.\<close>

definition close_after :: "(bytes \<times> rtw_tech_t \<times> code) run \<Rightarrow> (bytes \<times> rtw_tech_t \<times> code) run" where
  "close_after m = run_bind m (\<lambda>(out, t, c). Ret (Some (out, t\<lparr>tech_close_requested := True\<rparr>, c)))"

lemma close_after_simps [simp]:
  "close_after (Ret None) = Ret None"
  "close_after (Ret (Some (out, t, c))) = Ret (Some (out, t\<lparr>tech_close_requested := True\<rparr>, c))"
  by (simp_all add: close_after_def)

inductive blind :: "code \<Rightarrow> bool" where
  blind_Done: "blind Done"
| blind_Step: "(\<And>t. f (t\<lparr>tech_close_requested := True\<rparr>) = close_after (f t)) \<Longrightarrow>
    (\<And>t out t2 c. f t = Ret (Some (out, t2, c)) \<Longrightarrow> blind c) \<Longrightarrow> blind (Step f)"

inductive_cases blind_StepE: "blind (Step f)"

lemma blind_flush_code: "blind (flush_code es)"
proof (induction es)
  case (Cons e es)
  show ?case
    unfolding flush_code.simps
    by (auto intro!: blind.intros Cons split: option.splits prod.splits if_splits)
qed (auto intro: blind.intros)

lemma blind_flush_section: "blind (flush_section es)"
  unfolding flush_section_def using blind_flush_code by (auto intro!: blind.intros split: if_splits)

lemma blind_json_section: "blind (json_section json e)"
  unfolding json_section_def
  by (auto intro!: blind_Step simp: exec_bind_def close_after_def run_bind_def blind_flush_section split: c_exec.splits)

lemma blind_feed_code: "blind (feed_code xs mem i)"
  by (induction xs arbitrary: i) (auto intro!: blind.intros split: prod.splits)

lemma blind_section: "blind (section_code e tech)"
  by (cases e) (auto simp: blind_feed_code blind_flush_section blind_json_section playout_section_def pause_section_def
      intro!: blind.intros split: prod.splits if_splits)

text \<open>The section of the holder, begun on a serial state; only stops may have been recorded since.\<close>

definition closings :: "nat \<Rightarrow> rtw_tech_t \<Rightarrow> rtw_tech_t" where
  "closings k t = (if k = 0 then t else t\<lparr>tech_close_requested := True\<rparr>)"

definition in_section :: "rtw_tech_t \<Rightarrow> label list \<Rightarrow> entry \<Rightarrow> code \<Rightarrow> bytes \<Rightarrow> rtw_tech_t \<Rightarrow> bool" where
  "in_section tech L e c w t \<longleftrightarrow> blind c \<and>
     (\<exists>L1 k w1 t1 out t2. L = L1 @ Took e # replicate k Closing \<and> serial tech L1 w1 t1 \<and>
        partly (section_code e t1) t1 out c t2 \<and> w = w1 @ out \<and> t = closings k t2)"

lemma in_section_begin: "serial tech L w t \<Longrightarrow> in_section tech (L @ [Took e]) e (section_code e t) w t"
  unfolding in_section_def
  by (intro conjI blind_section exI [of _ L] exI [of _ "0::nat"] exI [of _ w] exI [of _ t] exI [of _ "[]"])
    (auto simp: closings_def intro: begun)

lemma in_section_inner:
  assumes "in_section tech L e (Step f) w t" "f t = Ret (Some (out1, t3, c))"
  shows "in_section tech L e c (w @ out1) t3"
proof -
  obtain L1 k w1 t1 out t2 where s: "blind (Step f)" "L = L1 @ Took e # replicate k Closing" "serial tech L1 w1 t1"
    "partly (section_code e t1) t1 out (Step f) t2" "w = w1 @ out" "t = closings k t2"
    using assms(1) by (auto simp: in_section_def)
  from s(1) have b: "f (t2\<lparr>tech_close_requested := True\<rparr>) = close_after (f t2)" "\<And>o' t' c'. f t2 = Ret (Some (o', t', c')) \<Longrightarrow> blind c'"
    by (auto elim!: blind_StepE)
  have "\<exists>t4. f t2 = Ret (Some (out1, t4, c)) \<and> t3 = closings k t4"
  proof (cases "k = 0")
    case False
    then have "close_after (f t2) = Ret (Some (out1, t3, c))" using assms(2) s(6) b(1) by (simp add: closings_def)
    then show ?thesis using False
      by (auto simp: close_after_def run_bind_def exec_bind_def closings_def split: c_exec.splits option.splits)
  qed (use assms(2) s(6) in \<open>simp add: closings_def\<close>)
  then obtain t4 where t4: "f t2 = Ret (Some (out1, t4, c))" "t3 = closings k t4" by blast
  from b(2) [OF t4(1)] onward [OF s(4) t4(1)] s(2,3,5) t4(2) show ?thesis
    unfolding in_section_def by (metis append.assoc)
qed

lemma in_section_close:
  assumes "in_section tech L e c w t" shows "in_section tech (L @ [Closing]) e c w (t\<lparr>tech_close_requested := True\<rparr>)"
proof -
  obtain L1 k w1 t1 out t2 where s: "blind c" "L = L1 @ Took e # replicate k Closing" "serial tech L1 w1 t1"
    "partly (section_code e t1) t1 out c t2" "w = w1 @ out" "t = closings k t2"
    using assms by (auto simp: in_section_def)
  have "L @ [Closing] = L1 @ Took e # replicate (Suc k) Closing" by (simp add: s(2) replicate_append_same)
  moreover have "t\<lparr>tech_close_requested := True\<rparr> = closings (Suc k) t2" by (simp add: s(6) closings_def)
  ultimately show ?thesis unfolding in_section_def using s(1,3,4,5) by blast
qed

lemma serial_closings: "serial tech L w t \<Longrightarrow> serial tech (L @ replicate k Closing) w (closings k t)"
proof (induction k)
  case (Suc k)
  from serial_Closing [OF Suc.IH [OF Suc.prems]] show ?case
    by (cases "k = 0") (simp_all add: closings_def replicate_append_same [symmetric])
qed (simp add: closings_def)

lemma in_section_end:
  assumes "in_section tech L e Done w t" shows "serial tech L w t"
proof -
  obtain L1 k w1 t1 out t2 where s: "L = L1 @ Took e # replicate k Closing" "serial tech L1 w1 t1"
    "partly (section_code e t1) t1 out Done t2" "w = w1 @ out" "t = closings k t2"
    using assms by (auto simp: in_section_def)
  have "finishes (section_code e t1) t1 out t2" using partly_finishes [OF s(3), of "[]" t2] by simp
  from serial_closings [OF serial_Took [OF s(2) this], of k] show ?thesis by (simp add: s)
qed

lemma traced_reachable: "traced tech L cfg \<Longrightarrow> bridge_reachable tech \<Longrightarrow> threads_reachable cfg"
  by (induction rule: traced.induct) (auto intro: threads_reachable.intros)

definition serial_inv :: "rtw_tech_t \<Rightarrow> label list \<Rightarrow> threads \<Rightarrow> bool" where
  "serial_inv tech L cfg \<longleftrightarrow>
     (mtx_holder (th_mutex cfg) = None \<longrightarrow> serial tech L (th_wire cfg) (th_tech cfg)) \<and>
     (\<forall>t e c. th_pc cfg t = Inside e c \<longrightarrow> in_section tech L e c (th_wire cfg) (th_tech cfg))"

lemma traced_step_serial:
  assumes "thread_step t cfg l cfg'" "threads_inv cfg" "serial_inv tech L cfg" "calm cfg l"
  shows "serial_inv tech (if l = Internal then L else L @ [l]) cfg'"
  using assms
proof (induction rule: thread_step.induct)
  case (lock cfg t e m)
  then show ?case using in_section_begin threads_invD(2) [OF lock(4)] by (fastforce simp: serial_inv_def lock_success)
next
  case (trylock cfg t e m)
  then show ?case using in_section_begin threads_invD(2) [OF trylock(4)] by (fastforce simp: serial_inv_def lock_success)
next
  case (inner cfg t e f out tech' c)
  have "in_section tech L e (Step f) (th_wire cfg) (th_tech cfg)" using inner(1,4) by (simp add: serial_inv_def)
  from in_section_inner [OF this inner(2)] have i: "in_section tech L e c (th_wire cfg @ out) tech'" .
  have "mtx_holder (th_mutex cfg) = Some t" using threads_invD(2) [OF inner(3,1)] .
  moreover have "t' = t" if "th_pc cfg t' = Inside e' c'" for t' e' c'
    using threads_invD(2) [OF inner(3) that] calculation by simp
  ultimately show ?case using i unfolding serial_inv_def by (auto split: if_splits)
next
  case (unlock cfg t e m)
  have h: "mtx_holder (th_mutex cfg) = Some t" using threads_invD(2) [OF unlock(3,1)] .
  have "t' = t" if "th_pc cfg t' = Inside e' c'" for t' e' c'
    using threads_invD(2) [OF unlock(3) that] h by simp
  moreover have "in_section tech L e Done (th_wire cfg) (th_tech cfg)" using unlock(1,4) unfolding serial_inv_def by blast
  then have "serial tech L (th_wire cfg) (th_tech cfg)" by (rule in_section_end)
  ultimately show ?case by (simp add: serial_inv_def) (metis pc.distinct(3))
next
  case (close t cfg)
  then show ?case using in_section_close serial_Closing by (auto simp: serial_inv_def)
next
  case (worker t cfg ws ready)
  have "mtx_holder (th_mutex cfg) = None" using worker(3) by (simp add: calm_def)
  then show ?case using worker(2) serial_Worker threads_invD(2) [OF worker(1)] by (fastforce simp: serial_inv_def)
qed (auto simp: serial_inv_def)

lemma traced_serial_inv: "traced tech L cfg \<Longrightarrow> bridge_reachable tech \<Longrightarrow> serial_inv tech L cfg"
proof (induction rule: traced.induct)
  case (traced_init m tech)
  then show ?case by (auto simp: serial_inv_def threads_init_def intro: serial_Nil)
next
  case (traced_step tech L cfg t l cfg')
  from traced_step_serial [OF traced_step(2) threads_reachable_inv [OF traced_reachable [OF traced_step(1,5)]]
      traced_step(4) [OF traced_step(5)] traced_step(3)] show ?case .
qed

section \<open>Progress\<close>

text \<open>Code that makes at most so many updates and waits for nothing.\<close>

inductive bounded :: "nat \<Rightarrow> code \<Rightarrow> bool" where
  bounded_Done: "bounded n Done"
| bounded_Step: "(\<And>t. \<exists>out t2 c. f t = Ret (Some (out, t2, c))) \<Longrightarrow>
    (\<And>t out t2 c. f t = Ret (Some (out, t2, c)) \<Longrightarrow> bounded n c) \<Longrightarrow> bounded (Suc n) (Step f)"

inductive_cases bounded_StepE: "bounded n (Step f)"

lemma bounded_mono: "bounded n c \<Longrightarrow> n \<le> m \<Longrightarrow> bounded m c"
proof (induction arbitrary: m rule: bounded.induct)
  case (bounded_Step f n)
  then obtain k where "m = Suc k" "n \<le> k" by (cases m) auto
  with bounded_Step show ?case by (auto intro: bounded.intros)
qed (rule bounded_Done)

fun media :: "entry \<Rightarrow> bool" where
  "media (Read_Pcm pcm mem) = True"
| "media (Write_Pcm n now) = True"
| "media (Write_Frame pcm now) = True"
| "media e = False"

text \<open>The most updates a media entry makes: one per sample read, or the read of the playout and its clock.\<close>

fun work :: "entry \<Rightarrow> nat" where
  "work (Read_Pcm pcm mem) = length pcm"
| "work e = 2"

lemma length_wire_samples: "length (wire_samples tech pcm) \<le> length pcm"
proof -
  have "length (halve_rate xs) \<le> length xs" for xs by (induction xs rule: halve_rate.induct) auto
  from this [of pcm] this [of "left_channel pcm"] show ?thesis by (auto simp: wire_samples_def)
qed

lemma bounded_feed: "bounded (length xs) (feed_code xs mem i)"
  by (induction xs arbitrary: i) (auto intro!: bounded.intros split: prod.splits)

lemma bounded_playout: "bounded 2 (playout_section want now)"
  unfolding playout_section_def numeral_2_eq_2
  by (auto intro!: bounded.intros split: prod.splits if_splits)

lemma bounded_section:
  assumes "media e" shows "bounded (work e) (section_code e tech)"
  using assms bounded_playout
  by (cases e) (auto intro: bounded_mono [OF bounded_feed length_wire_samples])

text \<open>A step a thread makes with its own next instruction.\<close>

definition own_step :: "thread \<Rightarrow> threads \<Rightarrow> threads \<Rightarrow> bool" where
  "own_step t cfg cfg' \<longleftrightarrow> thread_step t cfg Internal cfg' \<or> (\<exists>e. thread_step t cfg (Took e) cfg')"

text \<open>Only its own steps move a thread.\<close>

lemma other_step: "thread_step t' cfg l cfg' \<Longrightarrow> t' \<noteq> t \<Longrightarrow> th_pc cfg' t = th_pc cfg t"
  by (induction rule: thread_step.induct) auto

lemma inside_runs:
  assumes "bounded n c" "th_pc cfg t = Inside e c" "mtx_holder (th_mutex cfg) = Some t"
  shows "\<exists>k \<le> Suc n. \<exists>cfg'. (own_step t ^^ k) cfg cfg' \<and> th_pc cfg' t = Idle"
  using assms
proof (induction arbitrary: cfg rule: bounded.induct)
  case (bounded_Done n)
  then have "switch_mutex_unlock (th_mutex cfg) t = Ret (SWITCH_STATUS_SUCCESS, (th_mutex cfg)\<lparr>mtx_holder := None\<rparr>)"
    by (simp add: lock_success)
  from unlock [OF bounded_Done(1) this] have "(own_step t ^^ 1) cfg (goes_to (cfg\<lparr>th_mutex := (th_mutex cfg)\<lparr>mtx_holder := None\<rparr>\<rparr>) t Idle)"
    by (auto simp: own_step_def)
  then show ?case by (intro exI [of _ 1] conjI exI) auto
next
  case (bounded_Step f n)
  obtain out t2 c where f: "f (th_tech cfg) = Ret (Some (out, t2, c))" using bounded_Step.hyps(1) by blast
  let ?cfg = "goes_to (cfg\<lparr>th_tech := t2, th_wire := th_wire cfg @ out\<rparr>) t (Inside e c)"
  have one: "own_step t cfg ?cfg" using inner [OF bounded_Step.prems(1) f] by (auto simp: own_step_def)
  have "th_pc ?cfg t = Inside e c" "mtx_holder (th_mutex ?cfg) = Some t" using bounded_Step.prems(2) by simp_all
  from bounded_Step.IH [OF f this] obtain k cfg' where "k \<le> Suc n" "(own_step t ^^ k) ?cfg cfg'" "th_pc cfg' t = Idle" by blast
  moreover have "(own_step t ^^ Suc k) cfg cfg'" using relpowp_Suc_I2 [OF one calculation(2)] .
  ultimately show ?case by (metis Suc_le_mono)
qed

text \<open>A media thread inside its section has at most the work of its entry left.\<close>

definition media_bounded :: "threads \<Rightarrow> bool" where
  "media_bounded cfg \<longleftrightarrow> (\<forall>t e c. th_pc cfg t = Inside e c \<longrightarrow> media e \<longrightarrow> bounded (work e) c)"

lemma media_step: "thread_step t cfg l cfg' \<Longrightarrow> media_bounded cfg \<Longrightarrow> media_bounded cfg'"
proof (induction rule: thread_step.induct)
  case (inner cfg t e f out tech c)
  have "bounded (work e) c" if "media e"
    using inner(1,3) that inner(2) unfolding media_bounded_def
    by (metis Suc_leD bounded_StepE bounded_mono code.inject order_refl)
  then show ?case using inner(3) by (auto simp: media_bounded_def)
qed (auto simp: media_bounded_def bounded_section)

lemma reachable_media_bounded: "threads_reachable cfg \<Longrightarrow> media_bounded cfg"
proof (induction rule: threads_reachable.induct)
  case (shared tech m)
  show ?case by (simp add: media_bounded_def threads_init_def)
qed (rule media_step)

section \<open>Properties\<close>


text \<open>One thread pauses the audio, and a media thread wants to write while it does.\<close>

definition demo_threads :: "rtw_tech_t \<Rightarrow> threads" where
  "demo_threads tech = \<lparr>th_mutex = \<lparr>mtx_holder = Some 1\<rparr>, th_tech = tech,
     th_pc = (\<lambda>_. Idle)(2 := Called (Write_Pcm 160 0), 1 := Inside (Pause True) (pause_section True)), th_wire = []\<rparr>"

lemma demo_traced: "\<exists>tech. bridge_reachable tech \<and> traced tech [Took (Pause True)] (demo_threads tech)"
proof -
  obtain tech where r: "bridge_reachable tech" using started_bridge by blast
  then have c: "\<not> tech_cleanup_started tech" using bridge_invD(6) bridge_reachable_inv by blast
  let ?i = "threads_init tech \<lparr>mtx_holder = None\<rparr>"
  let ?a = "goes_to ?i 2 (Called (Write_Pcm 160 0))"
  let ?b = "goes_to ?a 1 (Called (Pause True))"
  have i: "traced tech [] ?i" by (rule traced_init) (simp add: switch_mutex_init_def)
  have "thread_step 2 ?i Internal ?a" by (rule call) (use c in \<open>simp_all add: threads_init_def\<close>)
  from traced_step [OF i this] have a: "traced tech [] ?a" by (simp add: calm_def)
  have "thread_step 1 ?a Internal ?b" by (rule call) (use c in \<open>simp_all add: threads_init_def\<close>)
  from traced_step [OF a this] have b: "traced tech [] ?b" by (simp add: calm_def)
  have "thread_step 1 ?b (Took (Pause True)) (demo_threads tech)"
    using lock [of ?b 1 "Pause True" "\<lparr>mtx_holder = Some 1\<rparr>"]
    by (simp add: threads_init_def demo_threads_def lock_success)
  from traced_step [OF b this] r show ?thesis by (auto simp: calm_def)
qed






text \<open>
  C15: The media threads never wait. From any state of the other threads, a media thread that has called an
  entry is back after at most two steps more than its entry makes updates, all of them its own and
  all possible at once; no step of another thread sets it back.
\<close>

theorem media_never_waits:
  assumes "threads_reachable cfg" "media e" "th_pc cfg t = Called e \<or> (\<exists>c. th_pc cfg t = Inside e c)"
  shows "(\<exists>k \<le> work e + 2. \<exists>cfg'. (own_step t ^^ k) cfg cfg' \<and> th_pc cfg' t = Idle) \<and>
    (\<forall>t' l cfg'. t' \<noteq> t \<longrightarrow> thread_step t' cfg l cfg' \<longrightarrow> th_pc cfg' t = th_pc cfg t)"
proof -
  note inv = threads_invD [OF threads_reachable_inv [OF assms(1)]]
  have nw: "\<not> waits_for_mutex e" using assms(2) by (cases e) auto
  have "\<exists>k \<le> work e + 2. \<exists>cfg'. (own_step t ^^ k) cfg cfg' \<and> th_pc cfg' t = Idle"
  proof (cases "\<exists>c. th_pc cfg t = Inside e c")
    case True
    then obtain c where c: "th_pc cfg t = Inside e c" by blast
    have "bounded (work e) c" using reachable_media_bounded [OF assms(1)] c assms(2) by (simp add: media_bounded_def)
    from inside_runs [OF this c inv(2) [OF c]] show ?thesis by (metis Suc_le_mono add_2_eq_Suc' le_SucI)
  next
    case False
    then have c: "th_pc cfg t = Called e" using assms(3) by blast
    show ?thesis
    proof (cases "mtx_holder (th_mutex cfg)")
      case (Some h)
      then have "switch_mutex_trylock (th_mutex cfg) t = (SWITCH_STATUS_FALSE, th_mutex cfg)" by (simp add: lock_success)
      from busy [OF c nw this] have "(own_step t ^^ 1) cfg (goes_to cfg t Idle)" by (auto simp: own_step_def)
      then show ?thesis by (intro exI [of _ 1] conjI exI) auto
    next
      case None
      let ?m = "(th_mutex cfg)\<lparr>mtx_holder := Some t\<rparr>"
      let ?cfg = "goes_to (cfg\<lparr>th_mutex := ?m\<rparr>) t (Inside e (section_code e (th_tech cfg)))"
      have "switch_mutex_trylock (th_mutex cfg) t = (SWITCH_STATUS_SUCCESS, ?m)" using None by (simp add: lock_success)
      from trylock [OF c nw this] have one: "own_step t cfg ?cfg" by (auto simp: own_step_def)
      have "th_pc ?cfg t = Inside e (section_code e (th_tech cfg))" "mtx_holder (th_mutex ?cfg) = Some t" by simp_all
      from inside_runs [OF bounded_section [OF assms(2)] this]
      obtain k cfg' where "k \<le> Suc (work e)" "(own_step t ^^ k) ?cfg cfg'" "th_pc cfg' t = Idle" by blast
      moreover from relpowp_Suc_I2 [OF one this(2)] have "(own_step t ^^ Suc k) cfg cfg'" .
      ultimately show ?thesis by (metis Suc_le_mono add_2_eq_Suc')
    qed
  qed
  then show ?thesis using other_step by blast
qed

theorem media_never_waits_witness:
  "\<exists>tech. threads_reachable (demo_threads tech) \<and>
     (\<exists>k \<le> 4. \<exists>cfg'. (own_step 2 ^^ k) (demo_threads tech) cfg' \<and> th_pc cfg' 2 = Idle)"
proof -
  obtain tech where "bridge_reachable tech" "traced tech [Took (Pause True)] (demo_threads tech)" using demo_traced by blast
  then have r: "threads_reachable (demo_threads tech)" using traced_reachable by blast
  have "th_pc (demo_threads tech) 2 = Called (Write_Pcm 160 0)" by (simp add: demo_threads_def)
  with media_never_waits [OF r, of "Write_Pcm 160 0" 2] r show ?thesis by auto
qed

text \<open>A send of the thread waits for the kernel.\<close>

definition send_waits :: "threads \<Rightarrow> thread \<Rightarrow> bool" where
  "send_waits cfg t \<longleftrightarrow> (\<exists>e f. th_pc cfg t = Inside e (Step f) \<and> f (th_tech cfg) = Ret None)"

lemma inside_moves:
  assumes "threads_reachable cfg" "th_pc cfg t = Inside e c"
  shows "(\<exists>cfg'. own_step t cfg cfg') \<or> send_waits cfg t"
proof (cases c)
  note inv = threads_invD [OF threads_reachable_inv [OF assms(1)]]
  case Done
  have "mtx_holder (th_mutex cfg) = Some t" using inv(2) [OF assms(2)] .
  then have "switch_mutex_unlock (th_mutex cfg) t = Ret (SWITCH_STATUS_SUCCESS, (th_mutex cfg)\<lparr>mtx_holder := None\<rparr>)"
    by (simp add: lock_success)
  from unlock [OF assms(2) [unfolded Done] this] show ?thesis by (auto simp: own_step_def)
next
  note inv = threads_invD [OF threads_reachable_inv [OF assms(1)]]
  case (Step f)
  have "f (th_tech cfg) \<noteq> UB"
    using inv(3) [OF assms(2)] inv(1) Step by (auto elim: safe_StepE)
  then obtain r where r: "f (th_tech cfg) = Ret r" by (cases "f (th_tech cfg)") auto
  show ?thesis
  proof (cases r)
    case None
    with r assms(2) Step show ?thesis by (auto simp: send_waits_def)
  next
    case (Some x)
    obtain out tech c' where "x = (out, tech, c')" by (cases x)
    with inner [of cfg t e f out tech c'] r Some assms(2) Step show ?thesis by (auto simp: own_step_def)
  qed
qed

text \<open>
  C23: No deadlock. A thread that is not at rest can move, or a send of its own waits for the kernel, or it waits
  for the mutex of another thread that can move or has such a send; no thread waits for itself.
\<close>

theorem threads_no_deadlock:
  assumes "threads_reachable cfg" "th_pc cfg t \<noteq> Idle"
  shows "(\<exists>cfg'. own_step t cfg cfg') \<or> send_waits cfg t \<or>
    (\<exists>h. h \<noteq> t \<and> mtx_holder (th_mutex cfg) = Some h \<and> ((\<exists>cfg'. own_step h cfg cfg') \<or> send_waits cfg h))"
proof (cases "th_pc cfg t")
  case Idle
  with assms(2) show ?thesis by simp
next
  case (Called e)
  show ?thesis
  proof (cases "mtx_holder (th_mutex cfg)")
    case None
    then show ?thesis
      using lock [OF Called] trylock [OF Called] by (cases "waits_for_mutex e") (auto simp: lock_success own_step_def)
  next
    case (Some h)
    then obtain e' c where h: "th_pc cfg h = Inside e' c"
      using threads_invD(4) [OF threads_reachable_inv [OF assms(1)]] by blast
    then have "h \<noteq> t" using Called by auto
    with inside_moves [OF assms(1) h] Some show ?thesis by blast
  qed
next
  case (Inside e c)
  from inside_moves [OF assms(1) this] show ?thesis by blast
qed

theorem threads_no_deadlock_witness:
  "\<exists>tech. threads_reachable (demo_threads tech) \<and> (\<exists>cfg'. own_step 2 (demo_threads tech) cfg' \<or> own_step 1 (demo_threads tech) cfg')"
proof -
  obtain tech where "bridge_reachable tech" "traced tech [Took (Pause True)] (demo_threads tech)" using demo_traced by blast
  then have r: "threads_reachable (demo_threads tech)" using traced_reachable by blast
  have "th_pc (demo_threads tech) 2 \<noteq> Idle" by (simp add: demo_threads_def)
  from threads_no_deadlock [OF r this] have "(\<exists>cfg'. own_step 2 (demo_threads tech) cfg') \<or>
      (\<exists>cfg'. own_step 1 (demo_threads tech) cfg')"
    by (auto simp: send_waits_def demo_threads_def pause_section_def)
  with r show ?thesis by blast
qed

end
