(* ===== verification/Rtw_Bridge_Memory.thy ===== *)
theory Rtw_Bridge_Memory
  imports Rtw_Bridge_Sockets
begin

text \<open>
  The memory a bridge of \<open>src/mod/rtw_bridge.c\<close> owns beside its socket: what its start allocates, in the
  order of the code and on every error path, and what its stop frees. The blocks of the queued messages
  belong to the queue and those of the client to its socket; both are followed elsewhere.
\<close>

section \<open>Definitions\<close>

text \<open>The bridge, its mutex, the two strings of its metadata, and the blocks of its session.\<close>

datatype block = B_Tech | B_Mutex | B_Headers | B_Params | B_Items | B_Ring | B_Custom

datatype mem_event = Take block | Give block

text \<open>The blocks held after the events; \<open>None\<close> when one is taken twice or given back without being held.\<close>

fun run_blocks :: "block set \<Rightarrow> mem_event list \<Rightarrow> block set option" where
  "run_blocks H [] = Some H"
| "run_blocks H (Take b # evs) = (if b \<in> H then None else run_blocks (insert b H) evs)"
| "run_blocks H (Give b # evs) = (if b \<in> H then run_blocks (H - {b}) evs else None)"

definition take_opt :: "block \<Rightarrow> 'a option \<Rightarrow> mem_event list" where
  "take_opt b p = (case p of None \<Rightarrow> [] | Some x \<Rightarrow> [Take b])"

text \<open>\<open>free\<close> of a pointer that may be NULL.\<close>

definition free_opt :: "block \<Rightarrow> 'a option \<Rightarrow> mem_event list" where
  "free_opt b p = (case p of None \<Rightarrow> [] | Some x \<Rightarrow> [Give b])"

definition tech_free_meta :: "rtw_tech_t \<Rightarrow> mem_event list" where
  "tech_free_meta tech = free_opt B_Headers (tech_extra_headers tech) @ free_opt B_Params (tech_peer_custom_params tech)"

definition session_init_blocks :: "bool \<Rightarrow> (nat \<Rightarrow> uint8) option \<Rightarrow> mem_event list" where
  "session_init_blocks calloc_ok malloc_result =
     (if \<not> calloc_ok then []
      else case malloc_result of None \<Rightarrow> [Take B_Items, Give B_Items] | Some m \<Rightarrow> [Take B_Items, Take B_Ring])"

definition session_destroy_blocks :: "rtw_session_t \<Rightarrow> mem_event list" where
  "session_destroy_blocks s = free_opt B_Custom (s_custom_params s) @ [Give B_Items, Give B_Ring]"

text \<open>The memory a start that fails late gives back: session, metadata, mutex, bridge.\<close>

definition undo_start :: "rtw_tech_t \<Rightarrow> mem_event list" where
  "undo_start tech = session_destroy_blocks (tech_session tech) @ tech_free_meta tech @ [Give B_Mutex, Give B_Tech]"

text \<open>\<open>None\<close> while the first flush still waits.\<close>

definition start_blocks :: "string \<Rightarrow> int \<Rightarrow> int \<Rightarrow> string option \<Rightarrow> start_env \<Rightarrow> mem_event list option" where
  "start_blocks ws_uri sampling channels metadata e =
     (if sampling \<noteq> 8000 \<and> sampling \<noteq> 16000 \<and> \<not> 8000 dvd sampling then Some []
      else if \<not> st_calloc e then Some []
      else if \<not> st_mutex e then Some [Take B_Tech, Give B_Tech]
      else let t = init_tech ws_uri sampling channels metadata e
        in map_option ((@) [Take B_Tech, Take B_Mutex]) (case split_metadata (tech_metadata t) (st_meta e) of
             None \<Rightarrow> Some [Give B_Mutex, Give B_Tech]
           | Some (hdrs, params) \<Rightarrow>
               let t1 = t\<lparr>tech_extra_headers := hdrs, tech_peer_custom_params := params\<rparr>
               in map_option ((@) (take_opt B_Headers hdrs @ take_opt B_Params params @
                                   session_init_blocks (st_queue_calloc e) (st_playout_malloc e)))
                    (case rtw_session_init 256 (64 * 1024) (st_queue_calloc e) (st_playout_malloc e) of
                       None \<Rightarrow> Some (tech_free_meta t1 @ [Give B_Mutex, Give B_Tech])
                     | Some s \<Rightarrow>
                         (case rtw_session_start s (tech_stream_sid t) (Some (tech_call_sid t)) (Some bridge_account_sid)
                                 params (st_strdup e) (st_mem e) of (rc, s1) \<Rightarrow>
                            let t2 = t1\<lparr>tech_session := s1\<rparr>
                            in map_option ((@) (take_opt B_Custom (s_custom_params s1)))
                                 (if rc \<noteq> 0 then Some (undo_start t2)
                                  else case fst (rtw_ws_connect_ex ws_uri hdrs (st_connect e)) of
                                    None \<Rightarrow> Some (undo_start t2)
                                  | Some c \<Rightarrow> map_option (\<lambda>(out, t3). if st_pthread e then [] else undo_start t3)
                                      (flush_outbound (t2\<lparr>tech_ws := Some c, tech_ws_ready := True\<rparr>) (st_flush e)))))))"

text \<open>The end of \<open>rtw_bridge_stop\<close>, on the bridge as the last flush leaves it.\<close>

definition stop_blocks :: "rtw_tech_t \<Rightarrow> stop_env \<Rightarrow> mem_event list option" where
  "stop_blocks tech e =
     (if tech_cleanup_started tech then Some []
      else
        let t1 = tech\<lparr>tech_cleanup_started := True, tech_close_requested := True,
                       tech_reconnect_enabled := False, tech_worker_started := False\<rparr>
        in map_option (\<lambda>(out, t2). undo_start t2)
             (if sp_lock e
              then flush_outbound
                     (t1\<lparr>tech_session := snd (rtw_session_stop (tech_session t1) (sp_mem e)),
                         tech_ws_ready := (tech_ws t1 \<noteq> None \<or> tech_ws_ready t1)\<rparr>) (sp_flush e)
              else Some ([], t1)))"

definition owned :: "rtw_tech_t \<Rightarrow> block set" where
  "owned tech = {B_Tech, B_Mutex, B_Items, B_Ring} \<union>
     (if tech_extra_headers tech = None then {} else {B_Headers}) \<union>
     (if tech_peer_custom_params tech = None then {} else {B_Params}) \<union>
     (if s_custom_params (tech_session tech) = None then {} else {B_Custom})"

section \<open>What a bridge owns stays the same\<close>

text \<open>The pointers of a bridge to memory of its own.\<close>

definition pointers :: "rtw_tech_t \<Rightarrow> string option \<times> string option \<times> string option" where
  "pointers tech = (tech_extra_headers tech, tech_peer_custom_params tech, s_custom_params (tech_session tech))"

lemma owned_cong: "pointers t2 = pointers tech \<Longrightarrow> owned t2 = owned tech"
  by (simp add: owned_def pointers_def)

lemma pointers_simps [simp]:
  "pointers (tech\<lparr>tech_session := s\<rparr>) = pointers tech \<longleftrightarrow> s_custom_params s = s_custom_params (tech_session tech)"
  "pointers (tech\<lparr>tech_ws := w\<rparr>) = pointers tech"
  "pointers (tech\<lparr>tech_ws_ready := b\<rparr>) = pointers tech"
  "pointers (tech\<lparr>tech_close_requested := b\<rparr>) = pointers tech"
  "pointers (tech\<lparr>tech_audio_paused := b\<rparr>) = pointers tech"
  "pointers (tech\<lparr>tech_pcm_hold := h\<rparr>) = pointers tech"
  "pointers (tech\<lparr>tech_reconnect_attempts := n\<rparr>) = pointers tech"
  "pointers (tech\<lparr>tech_reconnect_ok := c\<rparr>) = pointers tech"
  by (simp_all add: pointers_def)

lemma enqueue_custom [simp]: "s_custom_params (snd (enqueue_json s json ok)) = s_custom_params s"
  by (simp add: enqueue_json_def case_prod_beta split: option.splits)

lemma handshake_custom [simp]: "s_custom_params (snd (send_handshake s mem)) = s_custom_params s"
  by (simp add: send_handshake_def case_prod_beta)

lemma ack_custom [simp]: "s_custom_params (snd (ack_mark s n ok)) = s_custom_params s"
  by (simp add: ack_mark_def)

lemma ack_until_custom [simp]: "s_custom_params (snd (ack_until_error s ns i mem)) = s_custom_params s"
proof (induction s ns i mem rule: ack_until_error.induct)
  case (2 s n ns i mem)
  obtain rc s1 where f: "ack_mark s n (mem i) = (rc, s1)" by fastforce
  then have "s_custom_params s1 = s_custom_params s" using ack_custom [of s n "mem i"] by simp
  then show ?case using 2 f by simp
qed simp

lemma ack_all_custom [simp]: "s_custom_params (ack_all s ns i mem) = s_custom_params s"
  by (induction s ns i mem rule: ack_all.induct) simp_all

lemma push_frame_custom [simp]: "s_custom_params (snd (push_frame s pcm ok)) = s_custom_params s"
  using enqueue_custom [of "s\<lparr>s_seq := s_seq s + 1\<rparr>"] by (simp add: push_frame_def Let_def case_prod_beta)

lemma push_loop_custom [simp]: "s_custom_params (snd (push_loop s pcm i mem)) = s_custom_params s"
proof (induction s pcm i mem rule: push_loop.induct)
  case (1 s pcm i mem)
  obtain rc s1 where f: "push_frame s pcm (mem i) = (rc, s1)" by fastforce
  then have "s_custom_params s1 = s_custom_params s" using push_frame_custom [of s pcm "mem i"] by simp
  then show ?case using 1 f push_loop.simps [of s pcm i mem] by simp
qed

lemma session_op_custom [simp]:
  "s_custom_params (rtw_session_harvest_marks s mem) = s_custom_params s"
  "s_custom_params (snd (rtw_session_drop_outbound_head s)) = s_custom_params s"
  "s_custom_params (snd (rtw_session_push_pcm16 s pcm mem2)) = s_custom_params s"
  "s_custom_params (snd (rtw_session_read_playout s n)) = s_custom_params s"
  "s_custom_params (rtw_session_note_write_after_clear s k now) = s_custom_params s"
  "s_custom_params (snd (rtw_session_rehandshake s mem)) = s_custom_params s"
  "s_custom_params (snd (rtw_session_stop s ok)) = s_custom_params s"
  by (simp_all add: rtw_session_harvest_marks_def rtw_session_drop_outbound_head_def rtw_session_push_pcm16_def
      rtw_session_read_playout_def rtw_session_note_write_after_clear_def record_clear_latency_def
      rtw_session_rehandshake_def rtw_session_stop_def Let_def case_prod_beta)

lemma peer_json_custom:
  assumes "rtw_session_handle_peer_json s json mok now mem = Ret (rc, s')"
  shows "s_custom_params s' = s_custom_params s"
proof -
  have "s_custom_params (snd (on_media s d)) = s_custom_params s" "s_custom_params (snd (on_mark s n)) = s_custom_params s"
    "s_custom_params (snd (on_clear s now mem)) = s_custom_params s" for d n
    by (simp_all add: on_media_def on_mark_def on_clear_def case_prod_beta)
  then show ?thesis using assms
    by (auto simp: rtw_session_handle_peer_json_def exec_bind_def
        split: if_splits c_exec.splits option.splits rtw_event_type_t.splits) (metis snd_conv)+
qed

lemma flush_loop_pointers: "flush_loop tech ws es = Some (out, t2) \<Longrightarrow> pointers t2 = pointers tech"
proof (induction es arbitrary: tech out)
  case (Cons e es)
  then show ?case
    by (fastforce simp: rtw_session_peek_outbound_def Let_def pointers_def split: option.splits if_splits)
qed simp

lemma flush_outbound_pointers: "flush_outbound tech es = Some (out, t2) \<Longrightarrow> pointers t2 = pointers tech"
  using flush_loop_pointers by (auto simp: flush_outbound_def split: option.splits if_splits)

abbreviation keeps :: "rtw_tech_t \<Rightarrow> rtw_tech_t \<Rightarrow> bool" where
  "keeps tech t \<equiv> pointers t = pointers tech"

lemma peer_json_pointers: "run_post (\<lambda>(out, t). keeps tech t) (peer_json tech json e)"
  by (cases "rtw_session_handle_peer_json (tech_session tech) json (x_malloc e) (x_now e) (x_mem e)")
    (auto simp: peer_json_def run_post_def dest!: flush_outbound_pointers dest: peer_json_custom)

lemma on_ws_text_pointers: "run_post (\<lambda>(out, t). keeps tech t) (on_ws_text tech txt e)"
  using peer_json_pointers by (auto simp: on_ws_text_def)

lemma dispatch_pointers: "run_post (\<lambda>(out, t). keeps tech t) (dispatch tech evs e i)"
proof (induction tech evs e i rule: dispatch.induct)
  case (3 tech m evs e i)
  show ?case
    unfolding dispatch.simps
  proof (rule run_post_bind [OF on_ws_text_pointers])
    fix x :: "bytes \<times> rtw_tech_t"
    assume x: "case x of (out, t) \<Rightarrow> keeps tech t"
    obtain out1 t1 where x1: "x = (out1, t1)" by fastforce
    show "run_post (\<lambda>(out, t). keeps tech t)
        (case x of (out1, t1) \<Rightarrow> run_bind (dispatch t1 evs e (Suc i)) (\<lambda>(out2, t2). Ret (Some (out1 @ out2, t2))))"
      unfolding x1 prod.case
      by (rule run_post_bind [OF 3]) (use x x1 in auto)
  qed
qed (auto simp: on_ws_close_def)

lemma try_reconnect_pointers: "try_reconnect tech e = Some (rc, out, tr, t2) \<Longrightarrow> keeps tech t2"
  by (auto simp: try_reconnect_def Let_def pointers_def split: if_splits option.splits prod.splits
      dest!: flush_outbound_pointers)

lemma worker_turn_pointers: "run_post (\<lambda>(go, out, tr, t). keeps tech t) (ws_worker_turn tech e)"
proof -
  have rec: "run_post (\<lambda>(go, out, tr, t2). keeps t t2) (worker_reconnect t e')" for t e'
    using try_reconnect_pointers by (auto simp: worker_reconnect_def)
  have fl: "run_post (\<lambda>(go, out, tr, t2). keeps t t2) (worker_flush t e)" for t
    using flush_outbound_pointers by (auto simp: worker_flush_def)
  show ?thesis
  proof (cases "tech_ws tech")
    case None
    then show ?thesis using fl by (auto simp: ws_worker_turn_def)
  next
    case (Some ws)
    obtain rc evs ws1 where p: "rtw_ws_poll ws (w_poll e) (w_realloc e) (w_text_mem e) = (rc, evs, ws1)"
      by (cases "rtw_ws_poll ws (w_poll e) (w_realloc e) (w_text_mem e)")
    have "run_post (\<lambda>(go, out, tr, t). keeps tech t)
        (run_bind (dispatch (tech\<lparr>tech_ws := Some ws1\<rparr>) evs (w_texts e) 0) (\<lambda>(out1, t1).
        run_bind (if rc < 0 then worker_reconnect (t1\<lparr>tech_ws_ready := False\<rparr>) (w_reconnect e) else worker_flush t1 e)
          (\<lambda>(more, out2, tr, t2). Ret (Some (more, out1 @ out2, tr, t2)))))"
    proof (rule run_post_bind [OF dispatch_pointers])
      fix x :: "bytes \<times> rtw_tech_t" assume "case x of (out, t) \<Rightarrow> keeps (tech\<lparr>tech_ws := Some ws1\<rparr>) t"
      then obtain out1 t1 where x: "x = (out1, t1)" "keeps tech t1" by (cases x) auto
      have "run_post (\<lambda>(go, out, tr, t). keeps tech t)
          (if rc < 0 then worker_reconnect (t1\<lparr>tech_ws_ready := False\<rparr>) (w_reconnect e) else worker_flush t1 e)"
        using rec [of "t1\<lparr>tech_ws_ready := False\<rparr>"] fl [of t1] x(2) by simp
      then show "run_post (\<lambda>(go, out, tr, t). keeps tech t) (case x of (out1, t1) \<Rightarrow>
        run_bind (if rc < 0 then worker_reconnect (t1\<lparr>tech_ws_ready := False\<rparr>) (w_reconnect e) else worker_flush t1 e)
          (\<lambda>(more, out2, tr, t2). Ret (Some (more, out1 @ out2, tr, t2))))"
        unfolding x(1) prod.case by (rule run_post_bind) auto
    qed
    then show ?thesis using rec by (auto simp: ws_worker_turn_def Some p)
  qed
qed

lemma locked_json_pointers: "run_post (\<lambda>(ok, out, t). keeps tech t) (locked_json tech json e)"
  by (auto simp: locked_json_def intro!: run_post_bind [OF peer_json_pointers])

lemma command_pointers:
  "run_post (\<lambda>(ok, out, t). keeps tech t) (rtw_bridge_clear tech e)"
  "run_post (\<lambda>(ok, out, t). keeps tech t) (rtw_bridge_send_mark tech name e)"
  using locked_json_pointers by (auto simp: rtw_bridge_clear_def rtw_bridge_send_mark_def)

lemma feed_custom: "s_custom_params (fst (feed xs mem i st)) = s_custom_params (fst st)"
proof (induction xs arbitrary: i st)
  case (Cons x xs)
  have "s_custom_params (fst (hold_sample x (mem i) st)) = s_custom_params (fst st)"
    by (cases st) (simp add: hold_sample_def Let_def)
  then show ?case by (simp add: Cons.IH)
qed simp

lemma take_playout_custom: "s_custom_params (snd (take_playout s want now)) = s_custom_params s"
proof -
  obtain bs s1 where r: "rtw_session_read_playout s want = (bs, s1)" by fastforce
  then have "s_custom_params s1 = s_custom_params s" using session_op_custom(4) [of s want] by simp
  then show ?thesis by (simp add: take_playout_def r)
qed

lemma read_pointers: "keeps tech (rtw_bridge_on_read_pcm16 tech pcm lock mem)"
proof (cases "stopping tech \<or> tech_audio_paused tech \<or> \<not> lock")
  case False
  obtain s hold where f: "feed (wire_samples tech pcm) mem 0 (tech_session tech, tech_pcm_hold tech) = (s, hold)" by fastforce
  then have "s_custom_params s = s_custom_params (tech_session tech)"
    using feed_custom [of "wire_samples tech pcm" mem 0 "(tech_session tech, tech_pcm_hold tech)"] by simp
  then show ?thesis using on_read_feed [of tech pcm mem] False f by simp
qed (auto simp: rtw_bridge_on_read_pcm16_def)

lemma bridge_step_pointers: "bridge_step tech t2 \<Longrightarrow> keeps tech t2"
proof (induction rule: bridge_step.induct)
  case (worker tech e go out tr t2)
  from run_postD [OF worker_turn_pointers this] show ?case by simp
next
  case (read_audio tech pcm lock mem t2)
  with read_pointers show ?case by blast
next
  case (write_audio tech n lock now out t2)
  then show ?case using take_playout_custom [of "tech_session tech" _ now]
    by (auto simp: rtw_bridge_on_write_pcm16_def case_prod_beta split: if_splits)
next
  case (write_frame tech pcm lock now n out t2)
  then show ?case using take_playout_custom [of "tech_session tech" _ now]
    by (auto simp: rtw_bridge_apply_write_frame_def Let_def case_prod_beta split: if_splits rtw_inject_mode_t.splits)
next
  case (pause tech p lock ok t2)
  then show ?case by (auto simp: rtw_bridge_pause_def pointers_def split: if_splits)
next
  case (clear tech e ok out t2)
  from run_postD [OF command_pointers(1) this] show ?case by simp
next
  case (mark tech name e ok out t2)
  from run_postD [OF command_pointers(2) this] show ?case by simp
qed simp

section \<open>Start and stop\<close>

lemma run_blocks_append: "run_blocks H (xs @ ys) = Option.bind (run_blocks H xs) (\<lambda>H'. run_blocks H' ys)"
  by (induction H xs rule: run_blocks.induct) auto

lemma undo_owned: "run_blocks (owned tech) (undo_start tech) = Some {}"
  by (auto simp: undo_start_def session_destroy_blocks_def tech_free_meta_def free_opt_def owned_def split: option.splits)

lemma start_session_cases:
  assumes "split_metadata (tech_metadata t) (st_meta e) = Some (hdrs, params)"
    and "rtw_session_init 256 (64 * 1024) (st_queue_calloc e) (st_playout_malloc e) = Some s"
    and "rtw_session_start s (tech_stream_sid t) (Some (tech_call_sid t)) (Some bridge_account_sid) params (st_strdup e)
      (st_mem e) = (rc, s1)"
  shows "start_session t e =
    (if rc \<noteq> 0 then None else Some (t\<lparr>tech_extra_headers := hdrs, tech_peer_custom_params := params, tech_session := s1\<rparr>))"
  using assms by (simp add: start_session_def)

lemma taken_owned:
  "run_blocks {} ([Take B_Tech, Take B_Mutex] @ take_opt B_Headers (tech_extra_headers t) @
     take_opt B_Params (tech_peer_custom_params t) @ [Take B_Items, Take B_Ring] @
     take_opt B_Custom (s_custom_params (tech_session t))) = Some (owned t)"
  by (auto simp: take_opt_def owned_def split: option.splits)

lemma session_init_taken:
  "rtw_session_init 256 (64 * 1024) c m = Some s \<Longrightarrow> session_init_blocks c m = [Take B_Items, Take B_Ring]"
  by (auto simp: rtw_session_init_def session_init_blocks_def rtw_queue_init_def rtw_playout_init_def
      split: option.splits if_splits)

lemma session_init_undone:
  assumes "rtw_session_init 256 (64 * 1024) c m = None" "B_Items \<notin> H"
  shows "run_blocks H (session_init_blocks c m @ evs) = run_blocks H evs"
proof -
  have "\<not> c \<or> m = None"
    using assms(1) by (auto simp: rtw_session_init_def rtw_queue_init_def rtw_playout_init_def split: option.splits if_splits)
  then show ?thesis using assms(2) by (cases m) (auto simp: session_init_blocks_def insert_Diff_if)
qed

lemma start_blocks_owned:
  assumes "rtw_bridge_start ws_uri sampling channels metadata e = Some (res, out, tr)"
  shows "\<exists>evs. start_blocks ws_uri sampling channels metadata e = Some evs \<and>
    run_blocks {} evs = Some (case res of None \<Rightarrow> {} | Some tech \<Rightarrow> owned tech)"
proof (cases "sampling \<noteq> 8000 \<and> sampling \<noteq> 16000 \<and> \<not> 8000 dvd sampling \<or> \<not> st_calloc e \<or> \<not> st_mutex e")
  case True
  then show ?thesis using assms by (auto simp: rtw_bridge_start_def start_blocks_def)
next
  case False
  then have ok: "\<not> (sampling \<noteq> 8000 \<and> sampling \<noteq> 16000 \<and> \<not> 8000 dvd sampling)" "st_calloc e" "st_mutex e" by blast+
  define t where "t = init_tech ws_uri sampling channels metadata e"
  note start = assms [unfolded rtw_bridge_start_def if_not_P [OF ok(1)] t_def [symmetric]]
  note blocks = start_blocks_def [of ws_uri sampling channels metadata e, unfolded if_not_P [OF ok(1)] t_def [symmetric] Let_def]
  show ?thesis
  proof (cases "split_metadata (tech_metadata t) (st_meta e)")
    case None
    then show ?thesis using start ok by (auto simp: blocks start_session_def)
  next
    case (Some hp)
    then obtain hdrs params where sm: "split_metadata (tech_metadata t) (st_meta e) = Some (hdrs, params)" by (cases hp) auto
    show ?thesis
    proof (cases "rtw_session_init 256 (64 * 1024) (st_queue_calloc e) (st_playout_malloc e)")
      case None
      then have "res = None" using start ok sm by (auto simp: start_session_def)
      moreover have "run_blocks {} ([Take B_Tech, Take B_Mutex] @ (take_opt B_Headers hdrs @ take_opt B_Params params @
          session_init_blocks (st_queue_calloc e) (st_playout_malloc e)) @
          free_opt B_Headers hdrs @ free_opt B_Params params @ [Give B_Mutex, Give B_Tech]) = Some {}"
        by (auto simp: take_opt_def free_opt_def session_init_undone [OF None] split: option.splits)
      ultimately show ?thesis using sm ok None by (simp add: blocks tech_free_meta_def)
    next
      case (Some s)
      obtain rc s1 where ss: "rtw_session_start s (tech_stream_sid t) (Some (tech_call_sid t)) (Some bridge_account_sid)
          params (st_strdup e) (st_mem e) = (rc, s1)" by fastforce
      note st = start_session_cases [OF sm Some ss]
      define t2 where "t2 = t\<lparr>tech_extra_headers := hdrs, tech_peer_custom_params := params, tech_session := s1\<rparr>"
      have f: "tech_extra_headers t2 = hdrs" "tech_peer_custom_params t2 = params" "tech_session t2 = s1"
        by (simp_all add: t2_def)
      let ?P = "[Take B_Tech, Take B_Mutex] @ (take_opt B_Headers hdrs @ take_opt B_Params params @ [Take B_Items, Take B_Ring]) @
        take_opt B_Custom (s_custom_params s1)"
      have taken: "run_blocks {} (?P @ evs) = run_blocks (owned t2) evs" for evs
        using taken_owned [of t2] unfolding f run_blocks_append [of "{}" ?P evs] by (simp only: append_assoc bind.simps)
      have undo: "run_blocks (owned t2) (undo_start t2) = Some {}" by (rule undo_owned)
      obtain c tr1 where c: "rtw_ws_connect_ex ws_uri hdrs (st_connect e) = (c, tr1)" by fastforce
      consider "rc \<noteq> 0" | "rc = 0" "c = None" | d where "rc = 0" "c = Some d" by (cases c) blast+
      then have "\<exists>rest. start_blocks ws_uri sampling channels metadata e = Some (?P @ rest) \<and>
          run_blocks (owned t2) rest = Some (case res of None \<Rightarrow> {} | Some tech \<Rightarrow> owned tech)"
      proof cases
        case 1
        then show ?thesis using start ok st undo by (auto simp: blocks sm Some [simplified] ss session_init_taken [OF Some] t2_def)
      next
        case 2
        then show ?thesis using start ok st undo c by (auto simp: blocks sm Some [simplified] ss session_init_taken [OF Some] t2_def)
      next
        case (3 d)
        let ?t3 = "t2\<lparr>tech_ws := Some d, tech_ws_ready := True\<rparr>"
        have fl: "\<exists>t4. flush_outbound ?t3 (st_flush e) = Some (out, t4) \<and>
            res = (if st_pthread e then Some (t4\<lparr>tech_worker_started := True\<rparr>) else None)"
          using start ok st c 3 f by (auto simp: t2_def split: if_splits)
        then obtain t4 where t4: "flush_outbound ?t3 (st_flush e) = Some (out, t4)"
          "res = (if st_pthread e then Some (t4\<lparr>tech_worker_started := True\<rparr>) else None)" by blast
        have own: "owned t4 = owned t2" by (rule owned_cong) (use flush_outbound_pointers [OF t4(1)] in simp)
        have "owned (t4\<lparr>tech_worker_started := True\<rparr>) = owned t4" by (rule owned_cong) (simp add: pointers_def)
        then have "run_blocks (owned t2) (if st_pthread e then [] else undo_start t4) =
            Some (case res of None \<Rightarrow> {} | Some tech \<Rightarrow> owned tech)"
          using own undo_owned [of t4] t4(2) by simp
        moreover have "start_blocks ws_uri sampling channels metadata e = Some (?P @ (if st_pthread e then [] else undo_start t4))"
          using t4(1) ok c 3 by (simp add: blocks sm Some [simplified] ss session_init_taken [OF Some] t2_def)
        ultimately show ?thesis by blast
      qed
      then show ?thesis using taken by metis
    qed
  qed
qed

lemma stop_blocks_owned:
  assumes "rtw_bridge_stop tech e = Some (out, tr, freed)" "\<not> tech_cleanup_started tech"
  shows "\<exists>evs. stop_blocks tech e = Some evs \<and> run_blocks (owned tech) evs = Some {}"
proof -
  let ?t = "tech\<lparr>tech_cleanup_started := True, tech_close_requested := True, tech_reconnect_enabled := False,
    tech_worker_started := False\<rparr>"
  let ?t1 = "?t\<lparr>tech_session := snd (rtw_session_stop (tech_session ?t) (sp_mem e)),
    tech_ws_ready := (tech_ws ?t \<noteq> None \<or> tech_ws_ready ?t)\<rparr>"
  let ?m = "if sp_lock e then flush_outbound ?t1 (sp_flush e) else Some ([], ?t)"
  have "\<exists>t2. ?m = Some (out, t2) \<and> tr = close_ws t2"
    by (rule map_option_pair [where g = "\<lambda>t. fst (rtw_session_destroy (tech_session t))" and z = freed])
      (use assms in \<open>simp only: rtw_bridge_stop_def Let_def if_False\<close>)
  then obtain t2 where t2: "?m = Some (out, t2)" by blast
  have "pointers t2 = pointers tech"
    using t2 flush_outbound_pointers [of ?t1 "sp_flush e" out t2] by (auto simp: pointers_def split: if_splits)
  then have "run_blocks (owned tech) (undo_start t2) = Some {}" using undo_owned [of t2] owned_cong by metis
  moreover have "stop_blocks tech e = Some (undo_start t2)"
    unfolding stop_blocks_def if_not_P [OF assms(2)] Let_def t2 by simp
  ultimately show ?thesis by blast
qed

section \<open>Properties\<close>

text \<open>
  C16: Memory. Every path through the start of a bridge takes each block once; a start that fails, wherever
  it fails, has given back all it took; and the stop of a bridge, whatever its threads and commands
  did in between, gives back exactly what the start took and it still owns, each block once.
\<close>

theorem bridge_no_memory_leak:
  assumes "rtw_bridge_start ws_uri sampling channels metadata e = Some (res, out, tr)"
  shows "\<exists>evs. start_blocks ws_uri sampling channels metadata e = Some evs \<and>
    (res = None \<longrightarrow> run_blocks {} evs = Some {}) \<and>
    (\<forall>tech t2 se out2 tr2 freed. res = Some tech \<longrightarrow> bridge_step\<^sup>*\<^sup>* tech t2 \<longrightarrow>
       rtw_bridge_stop t2 se = Some (out2, tr2, freed) \<longrightarrow>
       (\<exists>evs2. stop_blocks t2 se = Some evs2 \<and> run_blocks {} (evs @ evs2) = Some {}))"
proof -
  obtain evs where evs: "start_blocks ws_uri sampling channels metadata e = Some evs"
    "run_blocks {} evs = Some (case res of None \<Rightarrow> {} | Some tech \<Rightarrow> owned tech)"
    using start_blocks_owned [OF assms] by blast
  have "\<exists>evs2. stop_blocks t2 se = Some evs2 \<and> run_blocks {} (evs @ evs2) = Some {}"
    if tech: "res = Some tech" and steps: "bridge_step\<^sup>*\<^sup>* tech t2" and stop: "rtw_bridge_stop t2 se = Some (out2, tr2, freed)"
    for tech t2 se out2 tr2 freed
  proof -
    have "bridge_reachable t2 \<and> owned t2 = owned tech" using steps
    proof (induction rule: rtranclp_induct)
      case base
      show ?case using assms tech by (auto intro: started)
    next
      case (step y z)
      from step(3) have "bridge_reachable z" using step(2) by (blast intro: stepped)
      then show ?case using step(3) owned_cong [OF bridge_step_pointers [OF step(2)]] by simp
    qed
    then show ?thesis
      using stop_blocks_owned [OF stop] bridge_invD(6) [OF bridge_reachable_inv] evs(2) tech by (auto simp: run_blocks_append)
  qed
  then show ?thesis using evs by (intro exI [of _ evs]) auto
qed

theorem bridge_no_memory_leak_witness:
  "\<exists>evs. start_blocks ''ws://h/'' 8000 1 None (good_start [kernel_env [Send_Failed]]) = Some evs \<and>
     (\<exists>t2 evs2. bridge_reachable t2 \<and> stop_blocks t2 \<lparr>sp_lock = False, sp_mem = (True, True), sp_flush = []\<rparr> = Some evs2 \<and>
        run_blocks {} (evs @ evs2) = Some {})"
proof -
  obtain tech where t: "rtw_bridge_start ''ws://h/'' 8000 1 None (good_start [kernel_env [Send_Failed]]) =
      Some (Some tech, [], [Sock_Open 7])" using demo_start by blast
  let ?e = "\<lparr>sp_lock = False, sp_mem = (True, True), sp_flush = []\<rparr>"
  have r: "bridge_reachable tech" by (rule started [OF t])
  have "\<not> tech_cleanup_started tech" using bridge_invD(6) [OF bridge_reachable_inv [OF r]] .
  then have "rtw_bridge_stop tech ?e = Some ([], close_ws tech, fst (rtw_session_destroy (tech_session tech)))"
    by (simp add: rtw_bridge_stop_def close_ws_def Let_def)
  with bridge_no_memory_leak [OF t] r show ?thesis by blast
qed

end
