(* ===== verification/Spec2Isabelle.thy ===== *)
theory Spec2Isabelle
  imports Rtw_Mod_Harness Rtw_Sim Mod_Command_Race Rtw_Bridge_Threads Rtw_Bridge_Memory
begin

text \<open>
  \<^bold>\<open>Verification of mod_realtime_ws.\<close> The module bridges a telephone call of FreeSWITCH to a WebSocket peer
  that speaks the messages of Twilio Media Streams: the audio of the call goes out as numbered media
  messages, the audio of the peer comes back, is buffered and played into the call, and marks tell
  the peer how far it has been heard.

  \<^bold>\<open>Parts and theories.\<close>
  \<^item> \<open>Rtw_Prelude\<close>: words, C strings, the result type of code that may have undefined behaviour, ring
    buffers as windows of a list.
  \<^item> \<open>Rtw_Mulaw\<close> (\<open>src/core/rtw_mulaw.c\<close>): the codec on 16-bit and 8-bit words.
  \<^item> \<open>Rtw_Base64\<close> (\<open>src/core/rtw_base64.c\<close>): encoder and decoder with the bounds of their buffers; the
    locale \<open>payload_codec\<close> is what the messages rely on.
  \<^item> \<open>Rtw_Queue\<close> (\<open>src/core/rtw_queue.c\<close>): the outbound ring with its drop-oldest policy; the locale
    \<open>drop_oldest_queue\<close> is its contract, interpreted as \<open>outq\<close>.
  \<^item> \<open>Rtw_Playout\<close> (\<open>src/core/rtw_playout.c\<close>): the playout ring and its table of marks; the locale
    \<open>mark_stream_buffer\<close> abstracts both to one stream of audio bytes and marks, interpreted as \<open>play\<close>.
  \<^item> \<open>C_Number\<close>: decimal numbers, \<open>strtoul\<close>, doubles, \<open>strtod\<close> and \<open>printf\<close> as the C library computes them.
  \<^item> \<open>Cjson\<close> (\<open>third_party/cJSON/cJSON.c\<close>): the part of the JSON library the program calls.
  \<^item> \<open>Rtw_Protocol\<close> (\<open>src/core/rtw_protocol.c\<close>): building and parsing the messages.
  \<^item> \<open>Rtw_Session\<close> (\<open>src/core/rtw_session.c\<close>): one stream, from start to stop, over queue and playout.
  \<^item> \<open>Rtw_Ws_Client\<close> (\<open>src/core/rtw_ws_client.c\<close>): the WebSocket client.
  \<^item> \<open>Rtw_Bridge\<close> (\<open>src/mod/rtw_bridge.c\<close>, \<open>src/mod/mod_realtime_ws.h\<close>): the bridge of a call, its worker,
    commands and audio paths. \<open>Rtw_Bridge_Correct\<close> holds its lemmas and properties; the locale
    \<open>text_transport\<close> is what a flush relies on, interpreted as \<open>wire\<close> on the client.
    \<open>Rtw_Bridge_Sockets\<close> balances the sockets over the whole life of a bridge, \<open>Rtw_Bridge_Memory\<close> its memory,
    and \<open>Rtw_Bridge_Threads\<close> interleaves its threads at single updates under the mutex.
  \<^item> \<open>Fs_Stub\<close> (\<open>src/mod/fs_stub/switch.h\<close>): the stand-in for FreeSWITCH; the locale \<open>private_values\<close> is what
    the module relies on of a channel, interpreted as \<open>stub_channel\<close>. \<open>Fs_Mutex\<close> is its mutex; the locale
    \<open>mutual_exclusion\<close> is the contract, interpreted as \<open>pthread\<close>.
  \<^item> \<open>Mod_Realtime_Ws\<close> (\<open>src/mod/mod_realtime_ws.c\<close>): the module in its build with FreeSWITCH: calls, media
    bugs and bridges in memory, the callback, start and stop of a capture, the command
    \<open>uuid_realtime_ws\<close>. \<open>Mod_Realtime_Ws_Correct\<close> holds its lemmas and properties, \<open>Mod_Stub_Build\<close> the same
    source in its build without FreeSWITCH, \<open>Mod_Command_Race\<close> commands of several threads, cut where another
    one may come in between.
  \<^item> \<open>Rtw_Sim\<close> (\<open>src/sim/rtw_sim.c\<close>): the simulator, a second user of session and client;
    \<open>Rtw_Mod_Harness\<close> (\<open>src/mod/rtw_mod_harness.c\<close>): the harness of the stub build.
  \<^item> This theory: what one bridge flushes, read by a client at the other end.

  \<^bold>\<open>How code becomes definitions.\<close> A struct is a record with the fields of the source, an enum a datatype,
  a function a HOL function of the same name that returns its result together with the changed struct. Fixed
  width integers are words. Return codes stay integers; a NULL result is \<open>None\<close>; a write outside a
  buffer is \<open>UB\<close>. What the code obtains from outside is an argument: the outcome of each
  allocation, of \<open>send\<close>, \<open>recv\<close>, \<open>poll\<close>, \<open>connect\<close> and the TLS library, the clock, the random bytes, whether
  the mutex was obtained, the flags another thread may raise while the worker waits.

  \<^bold>\<open>Interaction.\<close> The media threads call \<open>rtw_bridge_on_read_pcm16\<close> and \<open>rtw_bridge_apply_write_frame\<close>, which touch
  only the session. The worker polls the client, hands each text to the session and flushes the
  queue; it alone reconnects. The commands go through the same path as the messages of the
  peer. Every one of these is a step of \<open>bridge_step\<close> on the bridge, at the granularity of the mutex, and
  a bridge is \<open>bridge_reachable\<close> when such steps lead to it from a successful \<open>rtw_bridge_start\<close>. Above it the module
  keeps a memory of bridges, the bugs that point to them and the private value of each call; its steps
  \<open>switch_step\<close> are command lines, entry points, events and removals of bugs, and steps of the threads.

  \<^bold>\<open>What is shown.\<close>
  \<^item> Codecs: round trips, quantisation bounds, memory safety under the stated sizes.
  \<^item> Queue and playout: ring invariants under every operation, order, exact loss under overflow, the
    refinement of the playout to a stream in which marks keep their place.
  \<^item> Messages: round trips through the printer and the parser, which always ends; fields fit.
  \<^item> Session: reachable states are well formed, call audio becomes consecutive messages, a clear
    empties the playout and acknowledges its marks, the life cycle only advances.
  \<^item> Client: frames survive any cutting into reads; a send writes a whole frame or a prefix; connecting
    leaks no socket; URLs are read back.
  \<^item> Bridge: a flush neither loses nor repeats a message, start and stop deliver their messages, no
    reachable state has undefined behaviour whatever the peer sends, audio blocks may be cut
    anywhere, injection saturates, credentials are split from the parameters. A bridge gives back all the
    memory it took, on every path.
  \<^item> Threads: the sections under the mutex exclude each other, every interleaving of their single updates
    amounts to a serial one (which is why \<open>bridge_step\<close> may take an entry point as one step), the media
    threads never wait, and there is no deadlock. A command is safe exactly as long as no other thread stops the
    capture under it.
  \<^item> Module: every pointer of a reachable state is live and typed, no command, event or hangup touches a
    freed bridge, starting and stopping cancel, calls do not affect each other, the command line is
    read as it was written. No life of a bridge, no run of the
    simulator or the harness leaks a socket.
  \<^item> Defects, each proved on the model: full-scale negative samples become silence, a padding error in the
    Base64 decoder overruns its buffer, completed marks beyond eight are dropped, the handshake after a
    reconnect comes behind the backlog, one failed attempt ends reconnecting, any
    reply with 101 in it completes the handshake and frames behind it are lost, a stop frees a bridge under
    a command of another thread, a rate that is no number is taken for 8000 Hz, a credential may reach the peer, fragments are not joined, a brace in the URI hides the metadata.

  \<^bold>\<open>Fuel and bounds.\<close> Only the JSON parser needs fuel, and it is given the length of its input, which
  never runs out (\<open>cjson_parse_total\<close>). Every other loop is total. Loops that wait for the kernel consume a list of
  outcomes and are \<open>None\<close> when it ends too early; \<open>bridge_stop_sends_stop\<close> and \<open>bridge_start_handshake\<close>
  say which outcomes are enough.

  \<^bold>\<open>Not modelled.\<close> FreeSWITCH itself: its answers are arguments, and of its behaviour the model uses that
  a bug's events come only while it is attached, that removing it sends the close event, and that a
  call has a channel. The unit tests, the scripts and the example server are tooling
  without logic of the program. The worker polls and replaces its socket without the mutex: a send is one update
  of the model, so that a socket is closed under a send of another thread, or one TLS connection is
  used by two threads, is outside it, and the serial order is shown for runs in which the socket changes only while
  the mutex is free. What a stop does comes after the worker has gone. Of the stub headers, the
  functions that ignore their arguments have no counterpart. Of cJSON, formatted printing, array access by
  index, references, comparison and minifying are not used by the program.
\<close>

section \<open>From one end of the wire to the other\<close>

lemma frames_stream:
  assumes "length msgs \<le> length es"
  shows "frames msgs es = frame_stream (map2 (\<lambda>m e. (1, Some (mask_key (f_urandom e)), map char_byte m)) msgs es) \<and>
    frame_texts (map2 (\<lambda>m e. (1, Some (mask_key (f_urandom e)), map char_byte m)) msgs es) = map On_Text msgs"
  using assms
proof (induction msgs arbitrary: es)
  case (Cons m msgs)
  obtain e es' where es: "es = e # es'" using Cons.prems by (cases es) auto
  have b: "map byte_char (map char_byte m) = m" by (simp add: comp_def)
  show ?case
    using Cons.IH [of es'] Cons.prems b
    by (simp add: es frames_def frame_stream_def text_frame_def frame_texts_def)
qed (simp add: frames_def frame_stream_def frame_texts_def)

text \<open>
  C1: End to end. Whatever a flush of a bridge leaves on the wire while its connection stays up, an
  open client that reads it, cut into reads of 1 to 8192 bytes in any way, reports exactly the
  messages that were queued (with the acknowledgements due), each as one text, unchanged and in order.
\<close>

theorem bridge_to_peer:
  assumes "bridge_inv tech" "tech_ws tech = Some ws" "tech_ws_ready tech"
    and "flush_outbound tech (e # es) = Some (out, t2)" "tech_ws_ready t2"
    and "msgs = outbound (rtw_session_harvest_marks (tech_session tech) (f_mem e))"
    and "list_all (\<lambda>m. length m < 65536) msgs"
    and "ws_open peer" "c_rx peer = []" "list_all chunk_ok chunks" "concat chunks = out"
  shows "fst (deliver peer chunks) = map On_Text msgs \<and> outbound (tech_session t2) = []"
proof -
  note inv = bridge_invD(1) [OF assms(1)]
  let ?t = "tech\<lparr>tech_session := rtw_session_harvest_marks (tech_session tech) (f_mem e)\<rparr>"
  have "flush_loop ?t ws (e # es) = Some (out, t2)"
    using assms(2-4) flush_loop_harvest [OF inv, of ws e es] by (simp add: flush_outbound_def del: flush_loop.simps)
  from flush_loop_sends [OF _ _ _ _ this, of msgs] harvest_inv [OF inv] quiet_harvest [OF inv] assms(3,5,6)
  have f: "length msgs \<le> length (e # es)" "out = frames msgs (e # es)" "outbound (tech_session t2) = []"
    by auto
  let ?fs = "map2 (\<lambda>m e. (1, Some (mask_key (f_urandom e)), map char_byte m)) msgs (e # es)"
  have key: "length (mask_key u) = 4" for u by (simp add: mask_key_def split: option.splits)
  have "list_all (\<lambda>f. frame_ok f \<and> fst f \<noteq> 8) ?fs"
    using assms(7) key by (auto simp: list_all_iff frame_ok_def dest!: set_zip_leftD)
  from drain_frames [OF this, of "[]"]
  have d: "drain (c_rx peer @ concat chunks) = (0, map On_Text msgs, [], False)"
    using assms(9,11) f(2) frames_stream [OF f(1)] by (simp add: drain_simps [of "[]"] parse_frame_def)
  have "drain (c_rx peer) = (0, [], c_rx peer, False)" using assms(9) by (simp add: drain_simps [of "[]"] parse_frame_def)
  from deliver_drain [OF assms(8,10) this d] f(3) show ?thesis by auto
qed

theorem bridge_to_peer_witness:
  "\<exists>out t2. flush_outbound loaded_bridge [kernel_env [Sent 9], kernel_env [Sent 9], kernel_env []] = Some (out, t2) \<and>
     fst (deliver example_client [out]) = [On_Text ''a'', On_Text ''b'']"
proof -
  note fct = loaded_bridge_facts
  note inv = bridge_invD(1) [OF fct(1)]
  have "io_write_all f [Sent 9] = Some (True, f)" if "length f \<le> 9" "f \<noteq> []" for f
    using that by (cases f) auto
  then have s: "env_send example_client [c] (kernel_env [Sent 9]) = Some (0, text_frame (kernel_env [Sent 9]) [c])" for c
    by (simp add: env_send_def rtw_ws_send_text_def example_client_def encode_frame_eq text_frame_def ws_frame_def
        kernel_env_def mask_key_def)
  let ?t1 = "loaded_bridge\<lparr>tech_session := snd (rtw_session_drop_outbound_head (tech_session loaded_bridge))\<rparr>"
  let ?t2 = "?t1\<lparr>tech_session := snd (rtw_session_drop_outbound_head (tech_session ?t1))\<rparr>"
  note d1 = drop_contents [OF inv] drop_outbound_inv [OF inv]
  have i1: "session_inv (tech_session ?t1)" "quiet (tech_session ?t1)" "outbound (tech_session ?t1) = [''b'']" using d1 fct by simp_all
  have i2: "session_inv (tech_session ?t2)" "quiet (tech_session ?t2)" "outbound (tech_session ?t2) = []"
    using drop_contents [OF i1(1)] drop_outbound_inv [OF i1(1)] i1 by simp_all
  let ?o = "text_frame (kernel_env [Sent 9]) ''a'' @ text_frame (kernel_env [Sent 9]) ''b''"
  have "flush_loop loaded_bridge example_client [kernel_env [Sent 9], kernel_env [Sent 9], kernel_env []] = Some (?o, ?t2)"
    using flush_loop_contents [OF inv fct(2)] flush_loop_contents [OF i1(1,2)] flush_loop_contents [OF i2(1,2)]
      fct(3) i1(3) i2(3) s by (simp del: flush_loop.simps)
  then have f: "flush_outbound loaded_bridge [kernel_env [Sent 9], kernel_env [Sent 9], kernel_env []] = Some (?o, ?t2)"
    by (simp add: flush_outbound_def loaded_bridge_def del: flush_loop.simps)
  have h: "outbound (rtw_session_harvest_marks (tech_session loaded_bridge) mem) = [''a'', ''b'']" for mem
    using harvest_quiet [OF inv fct(2)] fct(3) by simp
  have c: "list_all chunk_ok [?o]"
    by (simp add: chunk_ok_def text_frame_def ws_frame_def kernel_env_def mask_key_def)
  have p: "ws_open example_client" "c_rx example_client = []" by (simp_all add: ws_open_def example_client_def)
  have r: "tech_ws loaded_bridge = Some example_client" "tech_ws_ready loaded_bridge" "tech_ws_ready ?t2"
    by (simp_all add: loaded_bridge_def)
  have "fst (deliver example_client [?o]) = map On_Text [''a'', ''b'']"
    using bridge_to_peer [OF fct(1) r(1,2) f r(3) h [symmetric] _ p c] by simp
  then show ?thesis using f by (intro exI [of _ ?o] exI [of _ ?t2]) simp
qed

end
